(* ===== verification/Visa_Types.thy ===== *)
theory Visa_Types
  imports "HOL-Library.Word"
begin

text \<open>
  The public constants and integer types of \<open>include/visa.h\<close>, and the project constants of
  \<open>include/webreal_visa_ext.h\<close>. A \<open>ViStatus\<close> is a signed 32-bit value that the code only
  compares, so it is an \<open>int\<close>: the error constants are the two's complement readings of
  \<open>0xBFFFxxxx\<close>. Handles, masks, attributes and counters keep their width as machine words.
  Every constant is a simplification rule, so comparisons of status values evaluate.
\<close>

section \<open>Integer types\<close>

type_synonym byte = "8 word"
type_synonym u16 = "16 word"
type_synonym u32 = "32 word"
type_synonym u64 = "64 word"
type_synonym vi_status = int
type_synonym vi_object = u32

section \<open>Constants of visa.h\<close>

definition VI_SPEC_VERSION :: u32 where [simp]: "VI_SPEC_VERSION = 0x00700200"
definition VI_FIND_BUFLEN :: nat where [simp]: "VI_FIND_BUFLEN = 256"
definition VI_NULL :: u32 where [simp]: "VI_NULL = 0"
definition VI_TRUE :: u16 where [simp]: "VI_TRUE = 1"
definition VI_FALSE :: u16 where [simp]: "VI_FALSE = 0"
definition VI_INTF_GPIB :: u16 where [simp]: "VI_INTF_GPIB = 1"
definition VI_INTF_VXI :: u16 where [simp]: "VI_INTF_VXI = 2"
definition VI_INTF_GPIB_VXI :: u16 where [simp]: "VI_INTF_GPIB_VXI = 3"
definition VI_INTF_ASRL :: u16 where [simp]: "VI_INTF_ASRL = 4"
definition VI_INTF_PXI :: u16 where [simp]: "VI_INTF_PXI = 5"
definition VI_INTF_TCPIP :: u16 where [simp]: "VI_INTF_TCPIP = 6"
definition VI_INTF_USB :: u16 where [simp]: "VI_INTF_USB = 7"
definition VI_ATTR_RSRC_CLASS :: u32 where [simp]: "VI_ATTR_RSRC_CLASS = 0xBFFF0001"
definition VI_ATTR_RSRC_NAME :: u32 where [simp]: "VI_ATTR_RSRC_NAME = 0xBFFF0002"
definition VI_ATTR_RSRC_IMPL_VERSION :: u32 where [simp]: "VI_ATTR_RSRC_IMPL_VERSION = 0x3FFF0003"
definition VI_ATTR_RSRC_LOCK_STATE :: u32 where [simp]: "VI_ATTR_RSRC_LOCK_STATE = 0x3FFF0004"
definition VI_ATTR_USER_DATA :: u32 where [simp]: "VI_ATTR_USER_DATA = 0x3FFF0007"
definition VI_ATTR_SEND_END_EN :: u32 where [simp]: "VI_ATTR_SEND_END_EN = 0x3FFF0016"
definition VI_ATTR_TERMCHAR :: u32 where [simp]: "VI_ATTR_TERMCHAR = 0x3FFF0018"
definition VI_ATTR_TMO_VALUE :: u32 where [simp]: "VI_ATTR_TMO_VALUE = 0x3FFF001A"
definition VI_ATTR_RD_BUF_SIZE :: u32 where [simp]: "VI_ATTR_RD_BUF_SIZE = 0x3FFF002B"
definition VI_ATTR_WR_BUF_SIZE :: u32 where [simp]: "VI_ATTR_WR_BUF_SIZE = 0x3FFF002E"
definition VI_ATTR_TERMCHAR_EN :: u32 where [simp]: "VI_ATTR_TERMCHAR_EN = 0x3FFF0038"
definition VI_ATTR_ASRL_BAUD :: u32 where [simp]: "VI_ATTR_ASRL_BAUD = 0x3FFF0021"
definition VI_ATTR_ASRL_DATA_BITS :: u32 where [simp]: "VI_ATTR_ASRL_DATA_BITS = 0x3FFF0022"
definition VI_ATTR_ASRL_PARITY :: u32 where [simp]: "VI_ATTR_ASRL_PARITY = 0x3FFF0023"
definition VI_ATTR_ASRL_STOP_BITS :: u32 where [simp]: "VI_ATTR_ASRL_STOP_BITS = 0x3FFF0024"
definition VI_ATTR_ASRL_FLOW_CNTRL :: u32 where [simp]: "VI_ATTR_ASRL_FLOW_CNTRL = 0x3FFF0025"
definition VI_ATTR_RM_SESSION :: u32 where [simp]: "VI_ATTR_RM_SESSION = 0x3FFF00C4"
definition VI_ATTR_RSRC_SPEC_VERSION :: u32 where [simp]: "VI_ATTR_RSRC_SPEC_VERSION = 0x3FFF0170"
definition VI_ATTR_INTF_TYPE :: u32 where [simp]: "VI_ATTR_INTF_TYPE = 0x3FFF0171"
definition VI_ATTR_INTF_NUM :: u32 where [simp]: "VI_ATTR_INTF_NUM = 0x3FFF0176"
definition VI_ATTR_TCPIP_ADDR :: u32 where [simp]: "VI_ATTR_TCPIP_ADDR = 0xBFFF0195"
definition VI_ATTR_TCPIP_HOSTNAME :: u32 where [simp]: "VI_ATTR_TCPIP_HOSTNAME = 0xBFFF0196"
definition VI_ATTR_TCPIP_PORT :: u32 where [simp]: "VI_ATTR_TCPIP_PORT = 0x3FFF0197"
definition VI_ATTR_TCPIP_NODELAY :: u32 where [simp]: "VI_ATTR_TCPIP_NODELAY = 0x3FFF019A"
definition VI_ATTR_TCPIP_KEEPALIVE :: u32 where [simp]: "VI_ATTR_TCPIP_KEEPALIVE = 0x3FFF019B"
definition VI_SUCCESS :: vi_status where [simp]: "VI_SUCCESS = 0"
definition VI_SUCCESS_TERM_CHAR :: vi_status where [simp]: "VI_SUCCESS_TERM_CHAR = 0x3FFF0005"
definition VI_SUCCESS_MAX_CNT :: vi_status where [simp]: "VI_SUCCESS_MAX_CNT = 0x3FFF0006"
definition VI_SUCCESS_NESTED_SHARED :: vi_status where [simp]: "VI_SUCCESS_NESTED_SHARED = 0x3FFF0099"
definition VI_SUCCESS_NESTED_EXCLUSIVE :: vi_status where [simp]: "VI_SUCCESS_NESTED_EXCLUSIVE = 0x3FFF009A"
definition VI_ERROR_SYSTEM_ERROR :: vi_status where [simp]: "VI_ERROR_SYSTEM_ERROR = 0xBFFF0000 - 0x100000000"
definition VI_ERROR_INV_OBJECT :: vi_status where [simp]: "VI_ERROR_INV_OBJECT = 0xBFFF000E - 0x100000000"
definition VI_ERROR_RSRC_LOCKED :: vi_status where [simp]: "VI_ERROR_RSRC_LOCKED = 0xBFFF000F - 0x100000000"
definition VI_ERROR_INV_EXPR :: vi_status where [simp]: "VI_ERROR_INV_EXPR = 0xBFFF0010 - 0x100000000"
definition VI_ERROR_RSRC_NFOUND :: vi_status where [simp]: "VI_ERROR_RSRC_NFOUND = 0xBFFF0011 - 0x100000000"
definition VI_ERROR_INV_RSRC_NAME :: vi_status where [simp]: "VI_ERROR_INV_RSRC_NAME = 0xBFFF0012 - 0x100000000"
definition VI_ERROR_INV_ACC_MODE :: vi_status where [simp]: "VI_ERROR_INV_ACC_MODE = 0xBFFF0013 - 0x100000000"
definition VI_ERROR_TMO :: vi_status where [simp]: "VI_ERROR_TMO = 0xBFFF0015 - 0x100000000"
definition VI_ERROR_INV_DEGREE :: vi_status where [simp]: "VI_ERROR_INV_DEGREE = 0xBFFF001B - 0x100000000"
definition VI_ERROR_INV_JOB_ID :: vi_status where [simp]: "VI_ERROR_INV_JOB_ID = 0xBFFF001C - 0x100000000"
definition VI_ERROR_NSUP_ATTR :: vi_status where [simp]: "VI_ERROR_NSUP_ATTR = 0xBFFF001D - 0x100000000"
definition VI_ERROR_NSUP_ATTR_STATE :: vi_status where [simp]: "VI_ERROR_NSUP_ATTR_STATE = 0xBFFF001E - 0x100000000"
definition VI_ERROR_ATTR_READONLY :: vi_status where [simp]: "VI_ERROR_ATTR_READONLY = 0xBFFF001F - 0x100000000"
definition VI_ERROR_INV_LOCK_TYPE :: vi_status where [simp]: "VI_ERROR_INV_LOCK_TYPE = 0xBFFF0020 - 0x100000000"
definition VI_ERROR_INV_ACCESS_KEY :: vi_status where [simp]: "VI_ERROR_INV_ACCESS_KEY = 0xBFFF0021 - 0x100000000"
definition VI_ERROR_ABORT :: vi_status where [simp]: "VI_ERROR_ABORT = 0xBFFF0030 - 0x100000000"
definition VI_ERROR_ALLOC :: vi_status where [simp]: "VI_ERROR_ALLOC = 0xBFFF003C - 0x100000000"
definition VI_ERROR_INV_MASK :: vi_status where [simp]: "VI_ERROR_INV_MASK = 0xBFFF003D - 0x100000000"
definition VI_ERROR_IO :: vi_status where [simp]: "VI_ERROR_IO = 0xBFFF003E - 0x100000000"
definition VI_ERROR_NSUP_OPER :: vi_status where [simp]: "VI_ERROR_NSUP_OPER = 0xBFFF0067 - 0x100000000"
definition VI_ERROR_RSRC_BUSY :: vi_status where [simp]: "VI_ERROR_RSRC_BUSY = 0xBFFF0072 - 0x100000000"
definition VI_ERROR_INV_PARAMETER :: vi_status where [simp]: "VI_ERROR_INV_PARAMETER = 0xBFFF0078 - 0x100000000"
definition VI_ERROR_INV_PROT :: vi_status where [simp]: "VI_ERROR_INV_PROT = 0xBFFF0079 - 0x100000000"
definition VI_ERROR_INV_SIZE :: vi_status where [simp]: "VI_ERROR_INV_SIZE = 0xBFFF007B - 0x100000000"
definition VI_ERROR_SESN_NLOCKED :: vi_status where [simp]: "VI_ERROR_SESN_NLOCKED = 0xBFFF009C - 0x100000000"
definition VI_ERROR_INTF_NUM_NCONFIG :: vi_status where [simp]: "VI_ERROR_INTF_NUM_NCONFIG = 0xBFFF00A5 - 0x100000000"
definition VI_ERROR_CONN_LOST :: vi_status where [simp]: "VI_ERROR_CONN_LOST = 0xBFFF00A6 - 0x100000000"
definition VI_ERROR_NPERMISSION :: vi_status where [simp]: "VI_ERROR_NPERMISSION = 0xBFFF00A8 - 0x100000000"
definition VI_READ_BUF :: u16 where [simp]: "VI_READ_BUF = 1"
definition VI_WRITE_BUF :: u16 where [simp]: "VI_WRITE_BUF = 2"
definition VI_READ_BUF_DISCARD :: u16 where [simp]: "VI_READ_BUF_DISCARD = 4"
definition VI_WRITE_BUF_DISCARD :: u16 where [simp]: "VI_WRITE_BUF_DISCARD = 8"
definition VI_IO_IN_BUF :: u16 where [simp]: "VI_IO_IN_BUF = 16"
definition VI_IO_OUT_BUF :: u16 where [simp]: "VI_IO_OUT_BUF = 32"
definition VI_IO_IN_BUF_DISCARD :: u16 where [simp]: "VI_IO_IN_BUF_DISCARD = 64"
definition VI_IO_OUT_BUF_DISCARD :: u16 where [simp]: "VI_IO_OUT_BUF_DISCARD = 128"
definition VI_TMO_IMMEDIATE :: u32 where [simp]: "VI_TMO_IMMEDIATE = 0"
definition VI_TMO_INFINITE :: u32 where [simp]: "VI_TMO_INFINITE = 0xFFFFFFFF"
definition VI_NO_LOCK :: u32 where [simp]: "VI_NO_LOCK = 0"
definition VI_EXCLUSIVE_LOCK :: u32 where [simp]: "VI_EXCLUSIVE_LOCK = 1"
definition VI_SHARED_LOCK :: u32 where [simp]: "VI_SHARED_LOCK = 2"
definition VI_LOAD_CONFIG :: u32 where [simp]: "VI_LOAD_CONFIG = 4"
definition VI_TRIG_PROT_DEFAULT :: u16 where [simp]: "VI_TRIG_PROT_DEFAULT = 0"
definition VI_ASRL_PAR_NONE :: u32 where [simp]: "VI_ASRL_PAR_NONE = 0"
definition VI_ASRL_PAR_ODD :: u32 where [simp]: "VI_ASRL_PAR_ODD = 1"
definition VI_ASRL_PAR_EVEN :: u32 where [simp]: "VI_ASRL_PAR_EVEN = 2"
definition VI_ASRL_PAR_MARK :: u32 where [simp]: "VI_ASRL_PAR_MARK = 3"
definition VI_ASRL_PAR_SPACE :: u32 where [simp]: "VI_ASRL_PAR_SPACE = 4"
definition VI_ASRL_STOP_ONE :: u32 where [simp]: "VI_ASRL_STOP_ONE = 10"
definition VI_ASRL_STOP_ONE5 :: u32 where [simp]: "VI_ASRL_STOP_ONE5 = 15"
definition VI_ASRL_STOP_TWO :: u32 where [simp]: "VI_ASRL_STOP_TWO = 20"
definition VI_ASRL_FLOW_NONE :: u32 where [simp]: "VI_ASRL_FLOW_NONE = 0"
definition VI_ASRL_FLOW_XON_XOFF :: u32 where [simp]: "VI_ASRL_FLOW_XON_XOFF = 1"
definition VI_ASRL_FLOW_RTS_CTS :: u32 where [simp]: "VI_ASRL_FLOW_RTS_CTS = 2"
definition VI_ASRL_FLOW_DTR_DSR :: u32 where [simp]: "VI_ASRL_FLOW_DTR_DSR = 4"

section \<open>Constants of webreal\_visa\_ext.h\<close>

definition WRVISA_MOCK_RESOURCE :: string where
  "WRVISA_MOCK_RESOURCE = ''WRVISA0::MOCK::INSTR''"

definition WRVISA_MOCK_FIND_EXPRESSION :: string where
  "WRVISA_MOCK_FIND_EXPRESSION = ''WRVISA0?*''"

definition WRVISA_INTF_MOCK :: u16 where [simp]: "WRVISA_INTF_MOCK = 0x8000"
definition WRVISA_TCPIP_PROTOCOL_VXI11 :: u16 where [simp]: "WRVISA_TCPIP_PROTOCOL_VXI11 = 1"
definition WRVISA_TCPIP_PROTOCOL_HISLIP :: u16 where [simp]: "WRVISA_TCPIP_PROTOCOL_HISLIP = 2"
definition WRVISA_USB_RAW_ABI_MAJOR :: u16 where [simp]: "WRVISA_USB_RAW_ABI_MAJOR = 1"
definition WRVISA_USB_RAW_ABI_MINOR :: u16 where [simp]: "WRVISA_USB_RAW_ABI_MINOR = 0"
definition WRVISA_USB_TRANSFER_NONE :: byte where [simp]: "WRVISA_USB_TRANSFER_NONE = 0"
definition WRVISA_USB_TRANSFER_BULK :: byte where [simp]: "WRVISA_USB_TRANSFER_BULK = 1"
definition WRVISA_USB_TRANSFER_INTERRUPT :: byte where [simp]: "WRVISA_USB_TRANSFER_INTERRUPT = 2"
definition WRVISA_PROLOGIX_ABI_MAJOR :: u16 where [simp]: "WRVISA_PROLOGIX_ABI_MAJOR = 1"
definition WRVISA_PROLOGIX_ABI_MINOR :: u16 where [simp]: "WRVISA_PROLOGIX_ABI_MINOR = 0"
definition WRVISA_PROLOGIX_CONNECTION_SERIAL :: u16 where [simp]: "WRVISA_PROLOGIX_CONNECTION_SERIAL = 1"
definition WRVISA_PROLOGIX_CONNECTION_TCP :: u16 where [simp]: "WRVISA_PROLOGIX_CONNECTION_TCP = 2"
definition WRVISA_PROLOGIX_MAX_RESPONSE_SIZE :: u32 where [simp]: "WRVISA_PROLOGIX_MAX_RESPONSE_SIZE = 67108864"

end
