(* ===== verification/Visa_Prelude.thy ===== *)
theory Visa_Prelude
  imports
    Visa_Types
    "HOL-Library.AList"
    "HOL-Library.Char_ord"
    "HOL-Library.List_Lexorder"
begin

text \<open>
  Shared material: the pieces of the C and C++ standard libraries that several components call
  (character classes and case folding of the C locale, \<open>std::to_string\<close>, hexadecimal stream
  output, \<open>std::from_chars\<close>), lemmas on lists, words and bytes, and the generic interface of a
  component whose operations preserve an invariant.
\<close>

unbundle bit_operations_syntax

named_theorems char_class_defs \<open>definitions of the character classes\<close>
named_theorems codec_defs \<open>definitions of byte encoders and decoders\<close>

section \<open>Characters of the C locale\<close>

definition toupper :: "char \<Rightarrow> char" where [char_class_defs]:
  "toupper c =
     (if 97 \<le> (of_char c :: nat) \<and> (of_char c :: nat) \<le> 122
      then char_of (of_char c - 32 :: nat) else c)"

definition isdigit :: "char \<Rightarrow> bool" where [char_class_defs]:
  "isdigit c \<longleftrightarrow> 48 \<le> (of_char c :: nat) \<and> (of_char c :: nat) \<le> 57"

definition isalpha :: "char \<Rightarrow> bool" where [char_class_defs]:
  "isalpha c \<longleftrightarrow>
     65 \<le> (of_char c :: nat) \<and> (of_char c :: nat) \<le> 90 \<or>
     97 \<le> (of_char c :: nat) \<and> (of_char c :: nat) \<le> 122"

definition isalnum :: "char \<Rightarrow> bool" where [char_class_defs]:
  "isalnum c \<longleftrightarrow> isalpha c \<or> isdigit c"

definition isspace :: "char \<Rightarrow> bool" where [char_class_defs]:
  "isspace c \<longleftrightarrow>
     (of_char c :: nat) = 32 \<or> 9 \<le> (of_char c :: nat) \<and> (of_char c :: nat) \<le> 13"

abbreviation upper_string :: "string \<Rightarrow> string" where
  "upper_string s \<equiv> map toupper s"

lemma of_char_nat_less [simp]: "(of_char c :: nat) < 256"
  by (metis mod_less_divisor of_char_mod_256 zero_less_numeral)

lemma toupper_idem [simp]: "toupper (toupper c) = toupper c"
proof (cases "97 \<le> (of_char c :: nat) \<and> (of_char c :: nat) \<le> 122")
  case True
  then have "(of_char (toupper c) :: nat) = of_char c - 32"
    by (auto simp: toupper_def)
  moreover from True have "\<not> 97 \<le> (of_char c :: nat) - 32" by linarith
  ultimately show ?thesis by (simp add: toupper_def [of "toupper c"])
next
  case False
  then have "toupper c = c" by (auto simp: toupper_def)
  then show ?thesis by simp
qed

lemma upper_idem [simp]: "upper_string (upper_string s) = upper_string s"
  by simp

lemma bit_Suc_0_0 [simp]: "bit (Suc 0) 0"
  by (simp add: bit_0)

section \<open>Numbers in a radix\<close>

text \<open>\<open>std::to_string\<close> and hexadecimal output (\<open>std::uppercase << std::hex\<close>) print the digits
  most significant first, without leading zeros.\<close>

definition radix_char :: "nat \<Rightarrow> char" where
  "radix_char d = (if d < 10 then char_of (48 + d) else char_of (55 + d))"

fun print_radix :: "nat \<Rightarrow> nat \<Rightarrow> string" where
  "print_radix b n =
     (if b < 2 \<or> n < b then [radix_char n]
      else print_radix b (n div b) @ [radix_char (n mod b)])"

declare print_radix.simps [simp del]

abbreviation to_string :: "nat \<Rightarrow> string" where
  "to_string n \<equiv> print_radix 10 n"

definition digit_value :: "char \<Rightarrow> nat option" where
  "digit_value c =
     (let k = (of_char c :: nat) in
      if 48 \<le> k \<and> k \<le> 57 then Some (k - 48)
      else if 65 \<le> k \<and> k \<le> 90 then Some (k - 55)
      else if 97 \<le> k \<and> k \<le> 122 then Some (k - 87)
      else None)"

definition radix_digit :: "nat \<Rightarrow> char \<Rightarrow> bool" where
  "radix_digit b c = (case digit_value c of None \<Rightarrow> False | Some d \<Rightarrow> d < b)"

definition radix_value :: "nat \<Rightarrow> string \<Rightarrow> nat" where
  "radix_value b s = foldl (\<lambda>a c. a * b + (case digit_value c of None \<Rightarrow> 0 | Some d \<Rightarrow> d)) 0 s"

text \<open>\<open>std::from_chars\<close> on an unsigned type that holds the values below \<open>limit\<close>: the longest run of
  digits, an error when it is empty or its value does not fit, else the value and the unread rest.
  The callers treat both errors alike.\<close>

definition from_chars :: "nat \<Rightarrow> nat \<Rightarrow> string \<Rightarrow> (nat \<times> string) option" where
  "from_chars b limit s =
     (let ds = takeWhile (radix_digit b) s in
      if ds = [] \<or> limit \<le> radix_value b ds then None
      else Some (radix_value b ds, drop (length ds) s))"

lemma digit_value_radix_char: "d < 36 \<Longrightarrow> digit_value (radix_char d) = Some d"
  by (auto simp: digit_value_def radix_char_def Let_def)

lemma radix_digit_radix_char: "d < b \<Longrightarrow> b \<le> 36 \<Longrightarrow> radix_digit b (radix_char d)"
  by (simp add: radix_digit_def digit_value_radix_char)

lemma print_radix_not_Nil [simp]: "print_radix b n \<noteq> []"
  by (subst print_radix.simps) simp

lemma radix_value_snoc:
  "radix_value b (s @ [c]) = radix_value b s * b + (case digit_value c of None \<Rightarrow> 0 | Some d \<Rightarrow> d)"
  by (simp add: radix_value_def)

lemma set_print_radix: "2 \<le> b \<Longrightarrow> set (print_radix b n) \<subseteq> radix_char ` {..<b}"
proof (induction b n rule: print_radix.induct)
  case (1 b n)
  show ?case
  proof (cases "n < b")
    case True
    then show ?thesis by (subst print_radix.simps) auto
  next
    case False
    with 1 have "set (print_radix b (n div b)) \<subseteq> radix_char ` {..<b}" by simp
    with False 1(2) show ?thesis by (subst print_radix.simps) auto
  qed
qed

lemma print_radix_digits:
  assumes "2 \<le> b" and "b \<le> 36" and "c \<in> set (print_radix b n)"
  shows "radix_digit b c"
proof -
  from set_print_radix [OF assms(1)] assms(3) obtain d where "d < b" and "c = radix_char d"
    by (auto simp: subset_iff)
  with assms(2) show ?thesis by (simp add: radix_digit_radix_char)
qed

lemma radix_value_print: "2 \<le> b \<Longrightarrow> b \<le> 36 \<Longrightarrow> radix_value b (print_radix b n) = n"
proof (induction b n rule: print_radix.induct)
  case (1 b n)
  show ?case
  proof (cases "n < b")
    case True
    with 1(3) have "digit_value (radix_char n) = Some n"
      by (simp add: digit_value_radix_char)
    with True show ?thesis by (subst print_radix.simps) (simp add: radix_value_def)
  next
    case False
    with 1 have "radix_value b (print_radix b (n div b)) = n div b" by simp
    moreover from 1 have "n mod b < 36" 
      using mod_less_divisor [of b n] by linarith
    then have "digit_value (radix_char (n mod b)) = Some (n mod b)"
      by (rule digit_value_radix_char)
    ultimately show ?thesis using False 1(2)
      by (subst print_radix.simps) (simp add: radix_value_snoc)
  qed
qed

lemma print_radix_inject:
  "2 \<le> b \<Longrightarrow> b \<le> 36 \<Longrightarrow> print_radix b m = print_radix b n \<longleftrightarrow> m = n"
  by (metis radix_value_print)

lemma from_chars_print:
  assumes "2 \<le> b" and "b \<le> 36" and "n < limit"
  shows "from_chars b limit (print_radix b n) = Some (n, [])"
proof -
  have "takeWhile (radix_digit b) (print_radix b n) = print_radix b n"
    using print_radix_digits [OF assms(1,2)] by (simp only: takeWhile_eq_all_conv) blast
  with assms show ?thesis by (simp only: from_chars_def radix_value_print Let_def) simp
qed

lemma from_chars_bound: "from_chars b limit s = Some (n, r) \<Longrightarrow> n < limit"
  by (auto simp: from_chars_def Let_def split: if_splits)

text \<open>What evaluates printing and parsing of numbers on concrete strings.\<close>

lemmas char_eval = toupper_def char_of_def from_chars_def radix_digit_def digit_value_def radix_value_def
  print_radix.simps radix_char_def Let_def

section \<open>Association lists as unordered maps\<close>

lemma map_of_update [simp]: "map_of (AList.update k v al) = (map_of al)(k \<mapsto> v)"
  by (simp add: update_conv')

lemma map_of_delete [simp]: "map_of (AList.delete k al) = (map_of al)(k := None)"
  by (simp add: delete_conv')

lemma update_not_Nil [simp]: "AList.update k v al \<noteq> []"
  by (cases al) (auto split: prod.splits)

lemma map_of_Some_not_Nil: "map_of al k = Some v \<Longrightarrow> al \<noteq> []"
  by auto

section \<open>Components whose operations keep an invariant\<close>

text \<open>
  A component with state \<open>'s\<close> and operations \<open>'o\<close>, run one after the other. Every operation
  keeps the invariant, and so does every run; a fact that every operation keeps under the
  invariant holds at the end of every run that starts with it.
\<close>

locale invariant_component =
  fixes exec :: "'o \<Rightarrow> 's \<Rightarrow> 's"
    and inv :: "'s \<Rightarrow> bool"
  assumes exec_inv: "inv s \<Longrightarrow> inv (exec c s)"
begin

lemma run_inv: "inv s \<Longrightarrow> inv (fold exec cs s)"
  by (induction cs arbitrary: s) (auto intro: exec_inv)

lemma run_stable:
  assumes "inv s" and "P s" and "\<And>s c. inv s \<Longrightarrow> P s \<Longrightarrow> P (exec c s)"
  shows "P (fold exec cs s)"
  using assms(1,2) by (induction cs arbitrary: s) (auto intro: exec_inv assms(3))

end

text \<open>The same for a step relation, whose runs are its reflexive transitive closure.\<close>

locale transition_invariant =
  fixes step :: "'s \<Rightarrow> 's \<Rightarrow> bool"
    and inv :: "'s \<Rightarrow> bool"
  assumes step_inv: "step s t \<Longrightarrow> inv s \<Longrightarrow> inv t"
begin

lemma reach_inv: "step\<^sup>*\<^sup>* s t \<Longrightarrow> inv s \<Longrightarrow> inv t"
  by (induction rule: rtranclp_induct) (auto intro: step_inv)

lemma reach_stable:
  assumes "step\<^sup>*\<^sup>* s t" and "inv s" and "P s"
    and "\<And>s t. step s t \<Longrightarrow> inv s \<Longrightarrow> P s \<Longrightarrow> P t"
  shows "P t"
  using assms(1) by (induction rule: rtranclp_induct) (auto intro: assms reach_inv)

end

section \<open>Byte orders and codecs\<close>

text \<open>A 32-bit integer laid out in four bytes; the decoder reads the first four bytes of its
  input.\<close>

locale byte_order =
  fixes put :: "u32 \<Rightarrow> byte list"
    and get :: "byte list \<Rightarrow> u32"
  assumes length_put: "length (put w) = 4"
    and get_put: "get (put w @ rest) = w"
    and put_get: "length bs = 4 \<Longrightarrow> put (get bs) = bs"
begin

lemma get_put_Nil: "get (put w) = w"
  using get_put [of w "[]"] by simp

lemma put_inject: "put v = put w \<longleftrightarrow> v = w"
  by (metis get_put_Nil)

lemma take_drop_put: "take 4 (put w @ r) = put w" "drop 4 (put w @ r) = r"
  by (simp_all add: length_put)

end

text \<open>A message format: the decoder accepts what the encoder produces from an admissible message,
  and returns that message.\<close>

locale message_codec =
  fixes encode :: "'m \<Rightarrow> byte list option"
    and decode :: "byte list \<Rightarrow> 'm option"
    and admissible :: "'m \<Rightarrow> bool"
  assumes encode_some: "encode m \<noteq> None \<longleftrightarrow> admissible m"
    and decode_encode: "encode m = Some bs \<Longrightarrow> decode bs = Some m"
begin

lemma encode_injective:
  assumes "encode m = Some bs" and "encode m' = Some bs"
  shows "m = m'"
  using decode_encode [OF assms(1)] decode_encode [OF assms(2)] by simp

lemma decode_total_on_admissible: "admissible m \<Longrightarrow> \<exists>bs. encode m = Some bs \<and> decode bs = Some m"
  using encode_some [of m] decode_encode [of m] by blast

end

lemma bit_byte_beyond: "8 \<le> n \<Longrightarrow> \<not> bit (b :: byte) n"
  using bit_imp_le_length [of b n] by auto

lemma be32_join:
  fixes w :: u32
  shows "push_bit 24 (ucast (ucast (drop_bit 24 w) :: byte)) OR
         push_bit 16 (ucast (ucast (drop_bit 16 w) :: byte)) OR
         push_bit 8 (ucast (ucast (drop_bit 8 w) :: byte)) OR
         ucast (ucast w :: byte) = w" (is "?l = w")
proof (rule bit_word_eqI)
  fix n assume "n < LENGTH(32)"
  then consider "n < 8" | "8 \<le> n \<and> n < 16" | "16 \<le> n \<and> n < 24" | "24 \<le> n \<and> n < 32" by force
  then show "bit ?l n = bit w n"
    by cases (auto simp: bit_simps)
qed

lemma be32_split:
  fixes a b c d :: byte
  defines "w \<equiv> push_bit 24 (ucast a) OR push_bit 16 (ucast b) OR push_bit 8 (ucast c) OR ucast d :: u32"
  shows "ucast (drop_bit 24 w) = a" "ucast (drop_bit 16 w) = b" "ucast (drop_bit 8 w) = c" "ucast w = d"
  unfolding w_def by (auto intro!: bit_word_eqI simp: bit_simps bit_byte_beyond)

end
