(* ===== verification/Handle_Table.thy ===== *)
theory Handle_Table
  imports Visa_Prelude
begin

text \<open>
  The typed generational handle table of \<open>src/core/handle_table.{h,cpp}\<close>. A handle packs an object
  type (4 bits), a slot generation (12 bits) and a slot number (16 bits). A table holds shared
  pointers; here it is polymorphic in the type \<open>'o\<close> of what the pointers refer to, and
  \<open>obj_type\<close> stands for the virtual \<open>Object::type()\<close>. The table is seen by its clients as a
  partial map from handles to objects (locale \<open>handle_store\<close>).
\<close>

section \<open>Handles\<close>

datatype object_type = Type_resource_manager | Type_find_list | Type_session

definition object_type_code :: "object_type \<Rightarrow> u32" where
  "object_type_code ty =
     (case ty of Type_resource_manager \<Rightarrow> 1 | Type_find_list \<Rightarrow> 2 | Type_session \<Rightarrow> 3)"

definition kTypeShift :: nat where [simp]: "kTypeShift = 28"
definition kGenerationShift :: nat where [simp]: "kGenerationShift = 16"
definition kTypeMask :: u32 where [simp]: "kTypeMask = 0x0F"
definition kGenerationMask :: u32 where [simp]: "kGenerationMask = 0x0FFF"
definition kMaxSlots :: nat where [simp]: "kMaxSlots = 0xFFFF"

definition handle_encode :: "object_type \<Rightarrow> u16 \<Rightarrow> u16 \<Rightarrow> vi_object" where
  "handle_encode ty generation index_plus_one =
     (push_bit kTypeShift (object_type_code ty) OR push_bit kGenerationShift (ucast generation)) OR
     ucast index_plus_one"

definition handle_decode :: "vi_object \<Rightarrow> (object_type \<times> u16 \<times> u16) option" where
  "handle_decode handle =
     (let raw_type = drop_bit kTypeShift handle AND kTypeMask;
          raw_generation = ucast (drop_bit kGenerationShift handle AND kGenerationMask) :: u16;
          raw_index = ucast (handle AND 0xFFFF) :: u16
      in if raw_index = 0 \<or> raw_generation = 0 \<or> raw_type < 1 \<or> raw_type > 3 then None
         else Some (if raw_type = 1 then Type_resource_manager
                    else if raw_type = 2 then Type_find_list else Type_session,
                    raw_generation, raw_index))"

lemma object_type_code_range: "1 \<le> object_type_code ty" "object_type_code ty \<le> 3"
  by (cases ty; simp add: object_type_code_def)+

lemma bit_u16_beyond: "16 \<le> n \<Longrightarrow> \<not> bit (w :: u16) n"
  using bit_imp_le_length [of w n] by auto

lemma and_mask_words:
  "(w :: u32) AND 0xFFFF = take_bit 16 w" "w AND 0xFFF = take_bit 12 w" "w AND 0xF = take_bit 4 w"
  by (simp_all add: take_bit_eq_mask mask_eq_exp_minus_1)

lemma small_word_bits:
  assumes "unat (w :: 'a::len word) < 2 ^ k" and "bit w n"
  shows "n < k"
proof -
  from assms(1) have "unat (take_bit k w) = unat w"
    by (simp add: unsigned_take_bit_eq take_bit_nat_eq_self)
  then have "take_bit k w = w" by (simp only: word_unat_eq_iff)
  with assms(2) show ?thesis by (metis bit_take_bit_iff)
qed

lemma object_type_code_bits: "bit (object_type_code ty) n \<Longrightarrow> n < 4"
  using small_word_bits [of "object_type_code ty" 4 n]
  by (cases ty) (simp_all add: object_type_code_def)

lemma encode_fields:
  assumes "generation \<le> 0xFFF"
  shows "take_bit 4 (drop_bit 28 (handle_encode ty generation i)) = object_type_code ty"
    and "ucast (take_bit 12 (drop_bit 16 (handle_encode ty generation i))) = generation"
    and "ucast (take_bit 16 (handle_encode ty generation i)) = i"
proof -
  have g: "bit generation n \<Longrightarrow> n < 12" for n
    using small_word_bits [of generation 12 n] assms by (simp add: word_le_nat_alt)
  show "take_bit 4 (drop_bit 28 (handle_encode ty generation i)) = object_type_code ty"
    by (rule bit_word_eqI)
       (auto simp: handle_encode_def bit_simps bit_u16_beyond dest: object_type_code_bits g)
  show "ucast (take_bit 12 (drop_bit 16 (handle_encode ty generation i))) = generation"
    by (rule bit_word_eqI)
       (auto simp: handle_encode_def bit_simps bit_u16_beyond dest: object_type_code_bits g)
  show "ucast (take_bit 16 (handle_encode ty generation i)) = i"
    by (rule bit_word_eqI)
       (auto simp: handle_encode_def bit_simps bit_u16_beyond dest: object_type_code_bits g)
qed

lemma handle_decode_encode:
  assumes "generation \<noteq> 0" and "generation \<le> 0xFFF" and "i \<noteq> 0"
  shows "handle_decode (handle_encode ty generation i) = Some (ty, generation, i)"
  using assms encode_fields [OF assms(2), of ty i]
  by (cases ty) (simp_all add: handle_decode_def and_mask_words object_type_code_def)

lemma handle_join:
  fixes h :: u32
  shows "(push_bit 28 (take_bit 4 (drop_bit 28 h)) OR
          push_bit 16 (ucast (ucast (take_bit 12 (drop_bit 16 h)) :: u16))) OR
         ucast (ucast (take_bit 16 h) :: u16) = h" (is "?l = h")
proof (rule bit_word_eqI)
  fix n assume "n < LENGTH(32)"
  then consider "n < 16" | "16 \<le> n \<and> n < 28" | "28 \<le> n \<and> n < 32" by force
  then show "bit ?l n = bit h n"
    by cases (auto simp: bit_simps)
qed

lemma u32_1_to_3: "(x :: u32) \<noteq> 0 \<Longrightarrow> x \<le> 3 \<Longrightarrow> x = 1 \<or> x = 2 \<or> x = 3"
proof -
  assume "x \<noteq> 0" "x \<le> 3"
  then have "unat x \<noteq> 0" and "unat x \<le> 3"
    by (simp_all add: word_le_nat_alt unat_eq_0)
  then have "unat x = 1 \<or> unat x = 2 \<or> unat x = 3" by arith
  then show ?thesis by (auto simp: word_unat_eq_iff)
qed

lemma handle_encode_decode:
  assumes "handle_decode h = Some (ty, generation, i)"
  shows "handle_encode ty generation i = h"
    and "generation \<noteq> 0" and "generation \<le> 0xFFF" and "i \<noteq> 0"
proof -
  from assms have ty: "object_type_code ty = take_bit 4 (drop_bit 28 h)"
    and g: "generation = ucast (take_bit 12 (drop_bit 16 h))"
    and i: "i = ucast (take_bit 16 h)"
    using u32_1_to_3 [of "take_bit 4 (drop_bit 28 h)"]
    by (auto simp: handle_decode_def and_mask_words Let_def object_type_code_def not_less
        split: if_splits)
  show "handle_encode ty generation i = h"
    unfolding handle_encode_def ty g i by (simp add: handle_join)
  show "generation \<noteq> 0" "i \<noteq> 0"
    using assms by (auto simp: handle_decode_def Let_def split: if_splits)
  have "unat generation < 2 ^ 12"
    using take_bit_nat_less_exp [of 12 "unat (drop_bit 16 h)"]
    unfolding g by (simp add: unsigned_ucast_eq unsigned_take_bit_eq take_bit_take_bit)
  then show "generation \<le> 0xFFF" by (simp add: word_le_nat_alt)
qed

section \<open>The table\<close>

record 'o slot =
  slot_object :: "'o option"
  slot_generation :: u16
  slot_type :: object_type
  slot_retired :: bool

type_synonym 'o handle_table = "'o slot list"

datatype table_error = Invalid_argument | Bad_alloc

fun free_slot :: "'o handle_table \<Rightarrow> nat option" where
  "free_slot [] = None"
| "free_slot (s # ss) =
     (if slot_object s = None \<and> \<not> slot_retired s then Some 0 else map_option Suc (free_slot ss))"

definition handle_insert ::
  "('o \<Rightarrow> object_type) \<Rightarrow> object_type \<Rightarrow> 'o option \<Rightarrow> 'o handle_table \<Rightarrow>
   table_error + (vi_object \<times> 'o handle_table)" where
  "handle_insert obj_type ty object slots =
     (case object of
        None \<Rightarrow> Inl Invalid_argument
      | Some ob \<Rightarrow>
          if obj_type ob \<noteq> ty then Inl Invalid_argument
          else (case free_slot slots of
                  Some index \<Rightarrow>
                    Inr (handle_encode ty (slot_generation (slots ! index)) (of_nat (index + 1)),
                         slots[index := (slots ! index)\<lparr>slot_type := ty, slot_object := Some ob\<rparr>])
                | None \<Rightarrow>
                    if length slots \<ge> kMaxSlots then Inl Bad_alloc
                    else Inr (handle_encode ty 1 (of_nat (length slots + 1)),
                              slots @ [\<lparr>slot_object = Some ob, slot_generation = 1, slot_type = ty,
                                        slot_retired = False\<rparr>])))"

definition handle_get_locked :: "'o handle_table \<Rightarrow> vi_object \<Rightarrow> object_type option \<Rightarrow> 'o option" where
  "handle_get_locked slots handle expected =
     (case handle_decode handle of
        None \<Rightarrow> None
      | Some (ty, generation, index_plus_one) \<Rightarrow>
          if expected \<noteq> None \<and> expected \<noteq> Some ty then None
          else let index = unat index_plus_one - 1 in
            if index \<ge> length slots then None
            else let slot = slots ! index in
              if slot_object slot = None \<or> slot_retired slot \<or> slot_type slot \<noteq> ty \<or>
                 slot_generation slot \<noteq> generation then None
              else slot_object slot)"

definition handle_get :: "'o handle_table \<Rightarrow> vi_object \<Rightarrow> object_type \<Rightarrow> 'o option" where
  "handle_get slots handle expected = handle_get_locked slots handle (Some expected)"

definition handle_get_any :: "'o handle_table \<Rightarrow> vi_object \<Rightarrow> 'o option" where
  "handle_get_any slots handle = handle_get_locked slots handle None"

definition handle_remove :: "vi_object \<Rightarrow> 'o handle_table \<Rightarrow> 'o option \<times> 'o handle_table" where
  "handle_remove handle slots =
     (case handle_get_locked slots handle None of
        None \<Rightarrow> (None, slots)
      | Some object \<Rightarrow>
          (case handle_decode handle of
             None \<Rightarrow> (Some object, slots)
           | Some (ty, generation, index_plus_one) \<Rightarrow>
               let index = unat index_plus_one - 1; slot = (slots ! index)\<lparr>slot_object := None\<rparr> in
               (Some object,
                slots[index :=
                  (if ucast (slot_generation slot) = kGenerationMask then slot\<lparr>slot_retired := True\<rparr>
                   else slot\<lparr>slot_generation := slot_generation slot + 1\<rparr>)])))"

subsection \<open>Invariant\<close>

definition slot_inv :: "('o \<Rightarrow> object_type) \<Rightarrow> 'o slot \<Rightarrow> bool" where
  "slot_inv obj_type s \<longleftrightarrow>
     slot_generation s \<noteq> 0 \<and> slot_generation s \<le> 0xFFF \<and>
     (slot_retired s \<longrightarrow> slot_object s = None) \<and>
     (case slot_object s of None \<Rightarrow> True | Some ob \<Rightarrow> obj_type ob = slot_type s)"

definition table_inv :: "('o \<Rightarrow> object_type) \<Rightarrow> 'o handle_table \<Rightarrow> bool" where
  "table_inv obj_type slots \<longleftrightarrow> length slots \<le> kMaxSlots \<and> (\<forall>s \<in> set slots. slot_inv obj_type s)"

lemma table_inv_Nil [simp]: "table_inv obj_type []"
  by (simp add: table_inv_def)

lemma table_inv_nth: "table_inv obj_type slots \<Longrightarrow> i < length slots \<Longrightarrow> slot_inv obj_type (slots ! i)"
  by (simp add: table_inv_def)

lemma table_inv_update:
  "table_inv obj_type slots \<Longrightarrow> slot_inv obj_type s \<Longrightarrow> table_inv obj_type (slots[i := s])"
  by (auto simp: table_inv_def dest!: set_update_subset_insert [THEN subsetD])

lemma table_inv_snoc:
  "table_inv obj_type slots \<Longrightarrow> slot_inv obj_type s \<Longrightarrow> length slots < kMaxSlots \<Longrightarrow>
   table_inv obj_type (slots @ [s])"
  by (auto simp: table_inv_def)

lemma free_slot_Some:
  "free_slot slots = Some i \<Longrightarrow>
   i < length slots \<and> slot_object (slots ! i) = None \<and> \<not> slot_retired (slots ! i)"
  by (induction slots arbitrary: i) (auto split: if_splits)

lemma free_slot_None: "free_slot slots = None \<longleftrightarrow> (\<forall>s \<in> set slots. slot_object s \<noteq> None \<or> slot_retired s)"
  by (induction slots) auto

lemma unat_index_plus_one: "i < 0xFFFF \<Longrightarrow> unat (of_nat (i + 1) :: u16) = i + 1"
  by (simp add: unat_of_nat take_bit_nat_eq_self del: of_nat_Suc of_nat_add)

subsection \<open>Where a handle points\<close>

text \<open>A handle is live when its slot holds an object of its type and generation.\<close>

definition slot_index :: "u16 \<Rightarrow> nat" where
  "slot_index index_plus_one = unat index_plus_one - 1"

lemma get_any_iff:
  assumes "handle_decode h = Some (ty, g, i)"
  shows "handle_get_any slots h = Some ob \<longleftrightarrow>
    slot_index i < length slots \<and> slot_object (slots ! slot_index i) = Some ob \<and>
    \<not> slot_retired (slots ! slot_index i) \<and> slot_type (slots ! slot_index i) = ty \<and>
    slot_generation (slots ! slot_index i) = g"
  using assms by (auto simp: handle_get_any_def handle_get_locked_def slot_index_def Let_def)

lemma get_any_Some_decode:
  assumes "handle_get_any slots h = Some ob"
  obtains ty g i where "handle_decode h = Some (ty, g, i)"
  using assms by (auto simp: handle_get_any_def handle_get_locked_def split: option.splits)

lemma get_is_get_any:
  "handle_get slots h ty = Some ob \<longleftrightarrow>
   handle_get_any slots h = Some ob \<and> (\<exists>g i. handle_decode h = Some (ty, g, i))"
  by (auto simp: handle_get_def handle_get_any_def handle_get_locked_def split: option.splits prod.splits)

lemma get_type:
  "table_inv obj_type slots \<Longrightarrow> handle_get slots h ty = Some ob \<Longrightarrow> obj_type ob = ty"
  by (auto simp: get_is_get_any get_any_iff slot_inv_def dest: table_inv_nth)

text \<open>Two handles that decode to the same slot with the same type and generation are equal.\<close>

lemma slot_index_inject:
  "i \<noteq> 0 \<Longrightarrow> j \<noteq> 0 \<Longrightarrow> slot_index i = slot_index j \<Longrightarrow> i = j"
  by (simp add: slot_index_def word_unat_eq_iff)

lemma decoded_handles_eq:
  assumes "handle_decode h = Some (ty, g, i)" and "handle_decode h' = Some (ty, g, j)"
    and "slot_index i = slot_index j"
  shows "h = h'"
proof -
  from handle_encode_decode(4) assms(1,2) have "i \<noteq> 0" and "j \<noteq> 0" by blast+
  with assms(3) have "i = j" by (simp add: slot_index_inject)
  with handle_encode_decode(1) [OF assms(1)] handle_encode_decode(1) [OF assms(2)]
  show ?thesis by simp
qed

text \<open>What \<open>insert\<close> does, as one case distinction over the slot it fills.\<close>

lemma handle_insert_cases:
  assumes inv: "table_inv obj_type slots"
    and ins: "handle_insert obj_type ty object slots = Inr (h, slots')"
  obtains ob g i where "object = Some ob" and "obj_type ob = ty"
    and "handle_decode h = Some (ty, g, i)"
    and "slot_index i < length slots'" and "length slots \<le> length slots'"
    and "slot_object (slots' ! slot_index i) = Some ob"
    and "slot_generation (slots' ! slot_index i) = g"
    and "slot_type (slots' ! slot_index i) = ty" and "\<not> slot_retired (slots' ! slot_index i)"
    and "\<And>j. j < length slots' \<Longrightarrow> j \<noteq> slot_index i \<Longrightarrow> j < length slots \<and> slots' ! j = slots ! j"
    and "slot_index i < length slots \<Longrightarrow>
           slot_object (slots ! slot_index i) = None \<and> slot_generation (slots ! slot_index i) = g \<and>
           \<not> slot_retired (slots ! slot_index i)"
    and "table_inv obj_type slots'"
proof -
  from ins obtain ob where ob: "object = Some ob" "obj_type ob = ty"
    by (auto simp: handle_insert_def split: option.splits if_splits)
  show thesis
  proof (cases "free_slot slots")
    case (Some k)
    from free_slot_Some [OF Some] have k: "k < length slots" "slot_object (slots ! k) = None"
      "\<not> slot_retired (slots ! k)" by auto
    from inv k(1) have kinv: "slot_inv obj_type (slots ! k)" by (rule table_inv_nth)
    from inv k(1) have "unat (of_nat (k + 1) :: u16) = k + 1"
      by (intro unat_index_plus_one) (simp add: table_inv_def)
    then have idx: "slot_index (of_nat (k + 1)) = k" and nz: "(of_nat (k + 1) :: u16) \<noteq> 0"
      by (auto simp: slot_index_def)
    from ins ob Some have h: "h = handle_encode ty (slot_generation (slots ! k)) (of_nat (k + 1))"
      and s': "slots' = slots[k := (slots ! k)\<lparr>slot_type := ty, slot_object := Some ob\<rparr>]"
      by (auto simp: handle_insert_def)
    have dec: "handle_decode h = Some (ty, slot_generation (slots ! k), of_nat (k + 1))"
      unfolding h using kinv nz by (intro handle_decode_encode) (auto simp: slot_inv_def)
    show thesis
      by (rule that [OF ob dec]) (use s' k idx inv kinv ob in
        \<open>auto simp: slot_inv_def intro!: table_inv_update\<close>)
  next
    case None
    with ins ob have len: "length slots < kMaxSlots"
      and h: "h = handle_encode ty 1 (of_nat (length slots + 1))"
      and s': "slots' = slots @ [\<lparr>slot_object = Some ob, slot_generation = 1, slot_type = ty,
                                  slot_retired = False\<rparr>]"
      by (auto simp: handle_insert_def split: if_splits)
    from len have "unat (of_nat (length slots + 1) :: u16) = length slots + 1"
      by (intro unat_index_plus_one) simp
    then have idx: "slot_index (of_nat (length slots + 1)) = length slots"
      and nz: "(of_nat (length slots + 1) :: u16) \<noteq> 0"
      by (auto simp: slot_index_def)
    have dec: "handle_decode h = Some (ty, 1, of_nat (length slots + 1))"
      unfolding h using nz by (intro handle_decode_encode) simp_all
    show thesis
      by (rule that [OF ob dec]) (use s' idx inv ob len in
        \<open>auto simp: slot_inv_def nth_append intro!: table_inv_snoc\<close>)
  qed
qed

lemma get_any_insert:
  assumes inv: "table_inv obj_type slots"
    and ins: "handle_insert obj_type ty object slots = Inr (h, slots')"
  shows "handle_get_any slots h = None"
    and "handle_get_any slots' = (handle_get_any slots)(h := object)"
proof -
  from inv ins obtain ob g i where ob: "object = Some ob"
    and dec: "handle_decode h = Some (ty, g, i)"
    and i': "slot_index i < length slots'" "length slots \<le> length slots'"
      "slot_object (slots' ! slot_index i) = Some ob" "slot_generation (slots' ! slot_index i) = g"
      "slot_type (slots' ! slot_index i) = ty" "\<not> slot_retired (slots' ! slot_index i)"
    and frame: "\<And>j. j < length slots' \<Longrightarrow> j \<noteq> slot_index i \<Longrightarrow> j < length slots \<and> slots' ! j = slots ! j"
    and old: "slot_index i < length slots \<Longrightarrow> slot_object (slots ! slot_index i) = None"
    by (rule handle_insert_cases) blast
  show "handle_get_any slots h = None"
    using old by (auto simp: get_any_iff [OF dec] simp flip: not_Some_eq)
  show "handle_get_any slots' = (handle_get_any slots)(h := object)"
  proof (rule ext)
    fix h'
    show "handle_get_any slots' h' = ((handle_get_any slots)(h := object)) h'"
    proof (cases "h' = h")
      case True
      have "handle_get_any slots' h = Some ob" unfolding get_any_iff [OF dec] using i' by simp
      with True ob show ?thesis by simp
    next
      case False
      show ?thesis
      proof (cases "handle_decode h'")
        case None
        then show ?thesis using False by (simp add: handle_get_any_def handle_get_locked_def)
      next
        case (Some d)
        then obtain ty' g' j where dec': "handle_decode h' = Some (ty', g', j)" by (cases d) auto
        have "handle_get_any slots' h' = Some x \<longleftrightarrow> handle_get_any slots h' = Some x" for x
        proof (cases "slot_index j = slot_index i")
          case True
          with False decoded_handles_eq [OF dec', of h] dec i' old show ?thesis
            by (auto simp: get_any_iff [OF dec'])
        next
          case neq: False
          have "slot_index j < length slots' \<longleftrightarrow> slot_index j < length slots"
            using frame [OF _ neq] i'(2) by auto
          then show ?thesis using frame [OF _ neq] by (auto simp: get_any_iff [OF dec'])
        qed
        with False show ?thesis by (metis fun_upd_other not_Some_eq)
      qed
    qed
  qed
qed

lemma handle_remove_fst: "fst (handle_remove h slots) = handle_get_any slots h"
  by (auto simp: handle_remove_def handle_get_any_def Let_def split: option.splits)

lemma handle_remove_cases:
  assumes "handle_get_any slots h = Some ob"
  obtains ty g i where "handle_decode h = Some (ty, g, i)" and "slot_index i < length slots"
    and "slot_object (slots ! slot_index i) = Some ob" and "slot_generation (slots ! slot_index i) = g"
    and "slot_type (slots ! slot_index i) = ty" and "\<not> slot_retired (slots ! slot_index i)"
    and "snd (handle_remove h slots) =
      slots[slot_index i :=
        (if g = 0xFFF then (slots ! slot_index i)\<lparr>slot_object := None, slot_retired := True\<rparr>
         else (slots ! slot_index i)\<lparr>slot_object := None, slot_generation := g + 1\<rparr>)]"
proof -
  from assms obtain ty g i where dec: "handle_decode h = Some (ty, g, i)" by (rule get_any_Some_decode)
  have u: "ucast g = (0xFFF :: u32) \<longleftrightarrow> g = 0xFFF"
    using unsigned_less [of g, where ?'a = nat] by (simp add: word_unat_eq_iff unsigned_ucast_eq take_bit_nat_eq_self)
  note at = assms [unfolded get_any_iff [OF dec]]
  have "snd (handle_remove h slots) =
      slots[slot_index i :=
        (if g = 0xFFF then (slots ! slot_index i)\<lparr>slot_object := None, slot_retired := True\<rparr>
         else (slots ! slot_index i)\<lparr>slot_object := None, slot_generation := g + 1\<rparr>)]"
    using assms [unfolded handle_get_any_def] at
    by (auto simp: handle_remove_def dec Let_def u simp flip: slot_index_def One_nat_def)
  with at show thesis by (intro that [OF dec]) auto
qed

lemma handle_remove_None: "handle_get_any slots h = None \<Longrightarrow> handle_remove h slots = (None, slots)"
  by (simp add: handle_remove_def handle_get_any_def)

lemma generation_succ:
  fixes g :: u16
  assumes "g \<noteq> 0xFFF" and "g \<le> 0xFFF"
  shows "unat (g + 1) = unat g + 1" and "g < g + 1" and "g + 1 \<noteq> 0" and "g + 1 \<le> 0xFFF"
proof -
  from assms have "unat g < 0xFFF" by (auto simp: word_le_nat_alt word_unat_eq_iff)
  then show *: "unat (g + 1) = unat g + 1" by (simp add: unat_word_ariths)
  then show "g < g + 1" "g + 1 \<noteq> 0" "g + 1 \<le> 0xFFF"
    using \<open>unat g < 0xFFF\<close> by (auto simp: word_less_nat_alt word_le_nat_alt unat_eq_0 simp flip: unat_eq_0)
qed

lemma table_inv_remove:
  assumes "table_inv obj_type slots"
  shows "table_inv obj_type (snd (handle_remove h slots))"
proof (cases "handle_get_any slots h")
  case None
  with assms show ?thesis by (simp add: handle_remove_None)
next
  case (Some ob)
  then obtain ty g i where i: "slot_index i < length slots" "slot_generation (slots ! slot_index i) = g"
    and rem: "snd (handle_remove h slots) =
      slots[slot_index i :=
        (if g = 0xFFF then (slots ! slot_index i)\<lparr>slot_object := None, slot_retired := True\<rparr>
         else (slots ! slot_index i)\<lparr>slot_object := None, slot_generation := g + 1\<rparr>)]"
    by (rule handle_remove_cases) blast
  from assms i(1) have "slot_inv obj_type (slots ! slot_index i)" by (rule table_inv_nth)
  with i(2) show ?thesis unfolding rem
    using generation_succ [of g] by (intro table_inv_update assms) (auto simp: slot_inv_def)
qed

lemma get_any_remove:
  assumes inv: "table_inv obj_type slots"
  shows "handle_get_any (snd (handle_remove h slots)) = (handle_get_any slots)(h := None)"
proof (cases "handle_get_any slots h")
  case None
  then show ?thesis by (simp add: handle_remove_None fun_upd_idem)
next
  case (Some ob)
  then obtain ty g i where dec: "handle_decode h = Some (ty, g, i)"
    and i: "slot_index i < length slots" "slot_generation (slots ! slot_index i) = g"
      "slot_type (slots ! slot_index i) = ty"
    and rem: "snd (handle_remove h slots) =
      slots[slot_index i :=
        (if g = 0xFFF then (slots ! slot_index i)\<lparr>slot_object := None, slot_retired := True\<rparr>
         else (slots ! slot_index i)\<lparr>slot_object := None, slot_generation := g + 1\<rparr>)]"
    by (rule handle_remove_cases) blast
  show ?thesis
  proof (rule ext)
    fix h'
    have "handle_get_any (snd (handle_remove h slots)) h' = Some x \<longleftrightarrow>
          h' \<noteq> h \<and> handle_get_any slots h' = Some x" for x
    proof (cases "handle_decode h'")
      case None
      then show ?thesis by (simp add: handle_get_any_def handle_get_locked_def)
    next
      case (Some d)
      then obtain ty' g' j where dec': "handle_decode h' = Some (ty', g', j)" by (cases d) auto
      show ?thesis
      proof (cases "slot_index j = slot_index i")
        case True
        with decoded_handles_eq [OF dec'] dec i rem show ?thesis
          by (auto simp: get_any_iff [OF dec'])
      next
        case neq: False
        with dec dec' have "h' \<noteq> h" by auto
        with neq rem show ?thesis by (simp add: get_any_iff [OF dec'])
      qed
    qed
    then show "handle_get_any (snd (handle_remove h slots)) h' = ((handle_get_any slots)(h := None)) h'"
      by (metis fun_upd_apply not_Some_eq)
  qed
qed

subsection \<open>The table as a map from handles to objects\<close>

text \<open>What the object layer relies on: handles are keys of a partial map, a new handle was not in
  use, and every operation changes the map at its own handle only.\<close>

locale handle_store =
  fixes insert_object :: "'o \<Rightarrow> 't \<Rightarrow> ('h \<times> 't) option"
    and lookup :: "'t \<Rightarrow> 'h \<Rightarrow> 'o option"
    and remove_handle :: "'h \<Rightarrow> 't \<Rightarrow> 't"
    and invar :: "'t \<Rightarrow> bool"
  assumes insert_fresh: "invar t \<Longrightarrow> insert_object x t = Some (h, t') \<Longrightarrow> lookup t h = None"
    and lookup_insert: "invar t \<Longrightarrow> insert_object x t = Some (h, t') \<Longrightarrow> lookup t' = (lookup t)(h \<mapsto> x)"
    and invar_insert: "invar t \<Longrightarrow> insert_object x t = Some (h, t') \<Longrightarrow> invar t'"
    and lookup_remove: "invar t \<Longrightarrow> lookup (remove_handle h t) = (lookup t)(h := None)"
    and invar_remove: "invar t \<Longrightarrow> invar (remove_handle h t)"
begin

lemma open_then_close:
  assumes "invar t" and "insert_object x t = Some (h, t')"
  shows "lookup (remove_handle h t') = lookup t"
proof -
  from assms have "lookup (remove_handle h t') = (lookup t)(h := None)"
    by (simp add: lookup_remove invar_insert lookup_insert)
  with insert_fresh [OF assms] show ?thesis by (metis fun_upd_triv)
qed

lemma two_opens_distinct:
  assumes "invar t" and "insert_object x t = Some (h, t')" and "insert_object y t' = Some (k, t'')"
  shows "h \<noteq> k" and "lookup t'' h = Some x" and "lookup t'' k = Some y"
proof -
  have "lookup t' h = Some x" using lookup_insert [OF assms(1,2)] by simp
  moreover have "lookup t' k = None" using insert_fresh [OF invar_insert [OF assms(1,2)] assms(3)] .
  ultimately show "h \<noteq> k" by auto
  then show "lookup t'' h = Some x" "lookup t'' k = Some y"
    using lookup_insert [OF invar_insert [OF assms(1,2)] assms(3)] \<open>lookup t' h = Some x\<close> by simp_all
qed

lemma close_all:
  "invar t \<Longrightarrow> invar (fold remove_handle hs t) \<and>
   lookup (fold remove_handle hs t) = (\<lambda>h. if h \<in> set hs then None else lookup t h)"
proof (induction hs arbitrary: t)
  case (Cons k hs)
  from Cons.prems have "invar (remove_handle k t)" by (rule invar_remove)
  from Cons.IH [OF this] Cons.prems show ?case by (auto simp: lookup_remove)
qed simp

end

definition insert_checked ::
  "('o \<Rightarrow> object_type) \<Rightarrow> 'o \<Rightarrow> 'o handle_table \<Rightarrow> (vi_object \<times> 'o handle_table) option" where
  "insert_checked obj_type ob slots =
     (case handle_insert obj_type (obj_type ob) (Some ob) slots of Inl e \<Rightarrow> None | Inr r \<Rightarrow> Some r)"

lemma insert_checked_Some:
  "insert_checked obj_type ob slots = Some (h, slots') \<longleftrightarrow>
   handle_insert obj_type (obj_type ob) (Some ob) slots = Inr (h, slots')"
  by (auto simp: insert_checked_def split: sum.splits)

lemma table_inv_insert:
  assumes "table_inv obj_type slots" and "handle_insert obj_type ty object slots = Inr (h, slots')"
  shows "table_inv obj_type slots'"
  using assms by (rule handle_insert_cases)

interpretation ht: handle_store "insert_checked obj_type" handle_get_any
  "\<lambda>h slots. snd (handle_remove h slots)" "table_inv obj_type" for obj_type :: "'o \<Rightarrow> object_type"
proof unfold_locales
  fix t t' :: "'o handle_table" and x h
  assume inv: "table_inv obj_type t" and ins: "insert_checked obj_type x t = Some (h, t')"
  note ins = ins [unfolded insert_checked_Some]
  show "handle_get_any t h = None" by (rule get_any_insert(1) [OF inv ins])
  show "handle_get_any t' = (handle_get_any t)(h \<mapsto> x)" by (rule get_any_insert(2) [OF inv ins])
  show "table_inv obj_type t'" by (rule table_inv_insert [OF inv ins])
qed (auto intro: get_any_remove table_inv_remove)

subsection \<open>Handles that were closed\<close>

text \<open>A handle is spent when its slot has moved past its generation or was retired.\<close>

definition spent :: "vi_object \<Rightarrow> 'o handle_table \<Rightarrow> bool" where
  "spent h slots =
     (case handle_decode h of
        None \<Rightarrow> True
      | Some (ty, g, i) \<Rightarrow>
          slot_index i < length slots \<and>
          (g < slot_generation (slots ! slot_index i) \<or> slot_retired (slots ! slot_index i)))"

lemma spent_not_live: "spent h slots \<Longrightarrow> handle_get_any slots h = None"
  by (cases "handle_decode h")
     (auto simp: spent_def get_any_iff slot_index_def handle_get_any_def handle_get_locked_def Let_def split: prod.splits)

lemma remove_spends:
  assumes "table_inv obj_type slots" and "handle_get_any slots h = Some ob"
  shows "spent h (snd (handle_remove h slots))"
  using assms(2)
proof (rule handle_remove_cases)
  fix ty g i
  assume dec: "handle_decode h = Some (ty, g, i)" and i: "slot_index i < length slots"
    and rem: "snd (handle_remove h slots) =
      slots[slot_index i :=
        (if g = 0xFFF then (slots ! slot_index i)\<lparr>slot_object := None, slot_retired := True\<rparr>
         else (slots ! slot_index i)\<lparr>slot_object := None, slot_generation := g + 1\<rparr>)]"
  from handle_encode_decode(3) [OF dec] dec i rem generation_succ(2) [of g] show ?thesis
    by (auto simp: spent_def)
qed

lemma spent_insert:
  assumes "table_inv obj_type slots" and "handle_insert obj_type ty object slots = Inr (h', slots')"
    and "spent h slots"
  shows "spent h slots'" and "h' \<noteq> h"
proof -
  from assms(1,2) obtain g i where dec': "handle_decode h' = Some (ty, g, i)"
    and len: "length slots \<le> length slots'"
    and gen: "slot_generation (slots' ! slot_index i) = g"
    and frame: "\<And>j. j < length slots' \<Longrightarrow> j \<noteq> slot_index i \<Longrightarrow> j < length slots \<and> slots' ! j = slots ! j"
    and old: "slot_index i < length slots \<Longrightarrow>
      slot_generation (slots ! slot_index i) = g \<and> \<not> slot_retired (slots ! slot_index i)"
    by (rule handle_insert_cases) blast
  show "spent h slots'"
  proof (cases "handle_decode h")
    case (Some d)
    then obtain ty' g' j where dec: "handle_decode h = Some (ty', g', j)" by (cases d) auto
    with assms(3) have j: "slot_index j < length slots"
      "g' < slot_generation (slots ! slot_index j) \<or> slot_retired (slots ! slot_index j)"
      by (auto simp: spent_def)
    with len frame [of "slot_index j"] gen old dec show ?thesis
      by (cases "slot_index j = slot_index i") (auto simp: spent_def)
  qed (simp add: spent_def)
  show "h' \<noteq> h"
    using assms(3) dec' old by (auto simp: spent_def)
qed

lemma spent_remove:
  assumes inv: "table_inv obj_type slots" and "spent h slots"
  shows "spent h (snd (handle_remove h' slots))"
proof (cases "handle_get_any slots h'")
  case None
  with assms show ?thesis by (simp add: handle_remove_None)
next
  case (Some ob)
  then obtain ty g i where i: "slot_index i < length slots" "slot_generation (slots ! slot_index i) = g"
    and rem: "snd (handle_remove h' slots) =
      slots[slot_index i :=
        (if g = 0xFFF then (slots ! slot_index i)\<lparr>slot_object := None, slot_retired := True\<rparr>
         else (slots ! slot_index i)\<lparr>slot_object := None, slot_generation := g + 1\<rparr>)]"
    by (rule handle_remove_cases) blast
  from table_inv_nth [OF inv i(1)] i(2) have "g \<le> 0xFFF" by (simp add: slot_inv_def)
  note succ = generation_succ(2) [OF _ this]
  show ?thesis
  proof (cases "handle_decode h")
    case (Some d)
    then obtain ty' g' j where dec: "handle_decode h = Some (ty', g', j)" by (cases d) auto
    with assms(2) i rem succ show ?thesis
      by (cases "slot_index j = slot_index i") (auto simp: spent_def)
  qed (simp add: spent_def)
qed

text \<open>Any later traffic on the table, and the handles it hands out.\<close>

datatype 'o table_op = Insert_op object_type "'o option" | Remove_op vi_object

fun exec_table_op :: "('o \<Rightarrow> object_type) \<Rightarrow> 'o table_op \<Rightarrow> 'o handle_table \<Rightarrow> 'o handle_table" where
  "exec_table_op obj_type (Insert_op ty object) slots =
     (case handle_insert obj_type ty object slots of Inl e \<Rightarrow> slots | Inr (h, slots') \<Rightarrow> slots')"
| "exec_table_op obj_type (Remove_op h) slots = snd (handle_remove h slots)"

lemma exec_table_op_inv:
  "table_inv obj_type slots \<Longrightarrow> table_inv obj_type (exec_table_op obj_type c slots)"
  by (cases c) (auto intro: table_inv_insert table_inv_remove split: sum.splits)

lemma exec_table_op_spent:
  "table_inv obj_type slots \<Longrightarrow> spent h slots \<Longrightarrow> spent h (exec_table_op obj_type c slots)"
  by (cases c) (auto intro: spent_insert spent_remove split: sum.splits)

interpretation table: invariant_component "exec_table_op obj_type" "table_inv obj_type"
  for obj_type :: "'o \<Rightarrow> object_type"
  by unfold_locales (rule exec_table_op_inv)

lemma run_spent:
  "table_inv obj_type slots \<Longrightarrow> spent h slots \<Longrightarrow> spent h (fold (exec_table_op obj_type) cs slots)"
  by (rule table.run_stable [where P = "spent h"]) (auto intro: exec_table_op_spent)

section \<open>Properties\<close>

text \<open>The bit layout of a handle is lossless: \<open>decode\<close> accepts exactly the 32-bit values that
  \<open>encode\<close> produces from a type, a generation in 1..0xFFF and a slot number in 1..0xFFFF, and
  returns those three fields.\<close>

theorem handle_codec_exact:
  "handle_decode h = Some (ty, generation, index_plus_one) \<longleftrightarrow>
   h = handle_encode ty generation index_plus_one \<and>
   generation \<noteq> 0 \<and> generation \<le> 0xFFF \<and> index_plus_one \<noteq> 0"
  using handle_encode_decode [of h ty generation index_plus_one]
    handle_decode_encode [of generation index_plus_one ty] by blast

text \<open>C19. Inserting an object into a well-formed table refines a map update at a fresh key: the new
  handle was not live and is not \<open>VI_NULL\<close>, a typed lookup of it returns the object, every other
  handle keeps its meaning, and the table stays well-formed.\<close>

theorem insert_is_fresh_map_update:
  assumes "table_inv obj_type slots"
    and "handle_insert obj_type ty object slots = Inr (h, slots')"
  shows "handle_get_any slots h = None \<and> h \<noteq> VI_NULL \<and> handle_get slots' h ty = object \<and>
         handle_get_any slots' = (handle_get_any slots)(h := object) \<and> table_inv obj_type slots'"
proof -
  from assms obtain ob g i where ob: "object = Some ob" and dec: "handle_decode h = Some (ty, g, i)"
    by (rule handle_insert_cases) blast
  have "handle_decode 0 = None" by (simp add: handle_decode_def)
  with dec have "h \<noteq> 0" by auto
  moreover have "handle_get slots' h ty = object"
    using get_any_insert(2) [OF assms] dec by (simp add: ob get_is_get_any)
  ultimately show ?thesis
    using get_any_insert [OF assms] table_inv_insert [OF assms] by simp
qed

theorem insert_is_fresh_map_update_witness:
  "table_inv (\<lambda>_ :: nat. Type_session) [] \<and>
   handle_insert (\<lambda>_ :: nat. Type_session) Type_session (Some 7) [] =
     Inr (0x30010001, [\<lparr>slot_object = Some 7, slot_generation = 1, slot_type = Type_session, slot_retired = False\<rparr>]) \<and>
   handle_get [\<lparr>slot_object = Some (7 :: nat), slot_generation = 1, slot_type = Type_session, slot_retired = False\<rparr>]
     0x30010001 Type_session = Some 7"
proof -
  have inv: "table_inv (\<lambda>_ :: nat. Type_session) []" by simp
  have ins: "handle_insert (\<lambda>_ :: nat. Type_session) Type_session (Some 7) [] =
     Inr (0x30010001, [\<lparr>slot_object = Some 7, slot_generation = 1, slot_type = Type_session, slot_retired = False\<rparr>])"
    by (simp add: handle_insert_def handle_encode_def object_type_code_def)
  show ?thesis using insert_is_fresh_map_update [OF inv ins] inv ins by blast
qed

text \<open>C2. A closed handle stays closed: once \<open>remove\<close> has taken a live handle out of a well-formed
  table, no sequence of later insertions and removals makes it live again, and no later insertion
  returns it. The generation counter is not allowed to wrap: an exhausted slot is retired.\<close>

theorem closed_handle_never_returns:
  assumes "table_inv obj_type slots"
    and "handle_get_any slots h = Some ob"
    and "later = fold (exec_table_op obj_type) cs (snd (handle_remove h slots))"
  shows "handle_get_any later h = None \<and> handle_insert obj_type ty object later \<noteq> Inr (h, slots')"
proof -
  have inv: "table_inv obj_type later" unfolding assms(3)
    by (intro table.run_inv table_inv_remove assms(1))
  have "spent h later" unfolding assms(3)
    by (intro run_spent table_inv_remove assms(1) remove_spends [OF assms(1,2)])
  with spent_not_live spent_insert(2) [OF inv] show ?thesis by blast
qed

definition sample_table :: "nat handle_table" where
  "sample_table =
     [\<lparr>slot_object = Some 7, slot_generation = 0xFFF, slot_type = Type_session, slot_retired = False\<rparr>]"

theorem closed_handle_never_returns_witness:
  "handle_get_any sample_table 0x3FFF0001 = Some 7 \<and>
   handle_get_any (fold (exec_table_op (\<lambda>_. Type_session)) [Insert_op Type_session (Some 8)]
     (snd (handle_remove 0x3FFF0001 sample_table))) 0x3FFF0001 = None"
proof -
  have inv: "table_inv (\<lambda>_. Type_session) sample_table"
    by (simp add: table_inv_def sample_table_def slot_inv_def)
  have live: "handle_get_any sample_table 0x3FFF0001 = Some 7"
    by (simp add: handle_get_any_def handle_get_locked_def handle_decode_def sample_table_def)
  show ?thesis
    using closed_handle_never_returns [OF inv live refl, of "[Insert_op Type_session (Some 8)]"] live by blast
qed

text \<open>\<open>insert\<close> refuses only what it should: a null or wrongly typed object is an invalid argument,
  and a well-typed one fails with \<open>std::bad_alloc\<close> exactly when all 65535 slots exist and each one
  is occupied or retired.\<close>

theorem insert_failure_exact:
  "(handle_insert obj_type ty object slots = Inl Invalid_argument \<longleftrightarrow>
      \<not> (object \<noteq> None \<and> obj_type (the object) = ty)) \<and>
   (handle_insert obj_type ty object slots = Inl Bad_alloc \<longleftrightarrow>
      object \<noteq> None \<and> obj_type (the object) = ty \<and> length slots \<ge> 0xFFFF \<and>
      \<not> list_ex (\<lambda>s. slot_object s = None \<and> \<not> slot_retired s) slots)"
  using free_slot_None [of slots]
  by (cases object; cases "free_slot slots") (auto simp: handle_insert_def list_ex_iff)

end
