(* ===== verification/Operation.thy ===== *)
theory Operation
  imports Visa_Prelude
begin

text \<open>
  Operations (\<open>src/runtime/operation.{h,cpp}\<close>): the completion point every blocking call races for.
  The result is one atomic word that leaves \<open>kPending\<close> once; a cancellation handler is kept under a
  mutex. The first part models the methods one by one. The second part interleaves the atomic
  sections of concurrent callers (the compare-exchange, the locked section that takes the handler,
  the locked section that registers one) and shows exactly-once completion and notification under
  every schedule. A handler is an identity of type \<open>'h\<close>; a method returns the handler it invokes.
\<close>

section \<open>Methods\<close>

definition kPending :: vi_status where [simp]: "kPending = 0x7FFFFFFF"

record 'h operation =
  op_result :: vi_status
  op_deadline :: "nat option"
  op_cancel_handler :: "'h option"

text \<open>Time is in milliseconds of the steady clock; \<open>None\<close> is \<open>time_point::max()\<close>.\<close>

definition operation_new :: "nat \<Rightarrow> u32 \<Rightarrow> 'h operation" where
  "operation_new now timeout =
     \<lparr>op_result = kPending,
      op_deadline = (if timeout = VI_TMO_INFINITE then None else Some (now + unat timeout)),
      op_cancel_handler = None\<rparr>"

definition op_completed :: "'h operation \<Rightarrow> bool" where
  "op_completed op \<longleftrightarrow> op_result op \<noteq> kPending"

definition try_complete :: "vi_status \<Rightarrow> 'h operation \<Rightarrow> bool \<times> 'h operation" where
  "try_complete status op =
     (if op_result op = kPending then (True, op\<lparr>op_result := status\<rparr>) else (False, op))"

definition take_cancel_handler :: "'h operation \<Rightarrow> 'h option \<times> 'h operation" where
  "take_cancel_handler op = (op_cancel_handler op, op\<lparr>op_cancel_handler := None\<rparr>)"

definition complete_and_notify :: "vi_status \<Rightarrow> 'h operation \<Rightarrow> bool \<times> 'h option \<times> 'h operation" where
  "complete_and_notify status op =
     (let (won, op') = try_complete status op in
      if \<not> won then (False, None, op')
      else let (handler, op'') = take_cancel_handler op' in (True, handler, op''))"

definition request_cancel :: "'h operation \<Rightarrow> bool \<times> 'h option \<times> 'h operation" where
  "request_cancel op = complete_and_notify VI_ERROR_ABORT op"

definition request_timeout :: "'h operation \<Rightarrow> bool \<times> 'h option \<times> 'h operation" where
  "request_timeout op = complete_and_notify VI_ERROR_TMO op"

definition set_cancel_handler :: "'h \<Rightarrow> 'h operation \<Rightarrow> 'h option \<times> 'h operation" where
  "set_cancel_handler handler op =
     (if op_completed op then (Some handler, op)
      else (None, op\<lparr>op_cancel_handler := Some handler\<rparr>))"

definition clear_cancel_handler :: "'h operation \<Rightarrow> 'h operation" where
  "clear_cancel_handler op = op\<lparr>op_cancel_handler := None\<rparr>"

lemmas operation_defs =
  op_completed_def try_complete_def take_cancel_handler_def complete_and_notify_def
  request_cancel_def request_timeout_def set_cancel_handler_def clear_cancel_handler_def

lemma operation_new_pending [simp]: "\<not> op_completed (operation_new now timeout)"
  by (simp add: operation_new_def op_completed_def)

lemma try_complete_result:
  "snd (try_complete st op) = (if op_completed op then op else op\<lparr>op_result := st\<rparr>)"
  "fst (try_complete st op) \<longleftrightarrow> \<not> op_completed op"
  by (simp_all add: operation_defs)

text \<open>The pattern \<open>return operation->try_complete(status) ? status : operation->result()\<close> with which
  every session method ends returns the final result of the operation.\<close>

definition finish_with :: "vi_status \<Rightarrow> 'h operation \<Rightarrow> vi_status \<times> 'h operation" where
  "finish_with status op =
     (let (won, op') = try_complete status op in (if won then status else op_result op', op'))"

lemma finish_with_result: "fst (finish_with st op) = op_result (snd (finish_with st op))"
  by (auto simp: finish_with_def try_complete_def)

lemma finish_with_pending: "\<not> op_completed op \<Longrightarrow> finish_with st op = (st, op\<lparr>op_result := st\<rparr>)"
  by (simp add: finish_with_def operation_defs)

lemma finish_with_completed: "op_completed op \<Longrightarrow> finish_with st op = (op_result op, op)"
  by (simp add: finish_with_def operation_defs)

section \<open>Interleaved callers\<close>

text \<open>\<open>takers\<close> counts the threads that won the compare-exchange in \<open>complete_and_notify\<close> and have
  not yet entered its locked section; \<open>invoked\<close> lists the handlers run so far, \<open>registered\<close> the
  handlers ever passed to \<open>set_cancel_handler\<close> and \<open>dropped\<close> those cleared or replaced.
  \<open>attempts\<close> lists the status of every completion attempt and what it returned, the latest first.\<close>

record 'h op_world =
  world_op :: "'h operation"
  takers :: nat
  invoked :: "'h list"
  registered :: "'h set"
  dropped :: "'h set"
  attempts :: "(vi_status \<times> bool) list"

definition replaced_handlers :: "'h operation \<Rightarrow> 'h set" where
  "replaced_handlers op = set_option (op_cancel_handler op)"

inductive op_step :: "'h op_world \<Rightarrow> 'h op_world \<Rightarrow> bool" where
  finish: "try_complete st (world_op w) = (won, op') \<Longrightarrow>
     op_step w (w\<lparr>world_op := op', attempts := (st, won) # attempts w\<rparr>)"
| cas: "try_complete st (world_op w) = (won, op') \<Longrightarrow> st \<in> {VI_ERROR_ABORT, VI_ERROR_TMO} \<Longrightarrow>
     op_step w (w\<lparr>world_op := op', takers := (if won then Suc (takers w) else takers w),
                  attempts := (st, won) # attempts w\<rparr>)"
| take_and_run: "takers w = Suc n \<Longrightarrow> take_cancel_handler (world_op w) = (handler, op') \<Longrightarrow>
     op_step w (w\<lparr>world_op := op', takers := n,
                  invoked := (case handler of None \<Rightarrow> invoked w | Some h \<Rightarrow> h # invoked w)\<rparr>)"
| register: "h \<notin> registered w \<Longrightarrow> set_cancel_handler h (world_op w) = (run, op') \<Longrightarrow>
     op_step w (w\<lparr>world_op := op', registered := insert h (registered w),
                  invoked := (case run of None \<Rightarrow> invoked w | Some r \<Rightarrow> r # invoked w),
                  dropped := dropped w \<union> (if run = None then replaced_handlers (world_op w) else {})\<rparr>)"
| clear: "op_step w (w\<lparr>world_op := clear_cancel_handler (world_op w),
                       dropped := dropped w \<union> replaced_handlers (world_op w)\<rparr>)"

definition op_start :: "'h operation \<Rightarrow> 'h op_world" where
  "op_start op = \<lparr>world_op = op, takers = 0, invoked = [], registered = {}, dropped = {}, attempts = []\<rparr>"

definition op_world_inv :: "'h op_world \<Rightarrow> bool" where
  "op_world_inv w \<longleftrightarrow>
     (takers w \<noteq> 0 \<longrightarrow> op_completed (world_op w)) \<and> takers w \<le> 1 \<and>
     distinct (invoked w) \<and>
     set (invoked w) \<inter> dropped w = {} \<and>
     replaced_handlers (world_op w) \<inter> (set (invoked w) \<union> dropped w) = {} \<and>
     registered w = set (invoked w) \<union> dropped w \<union> replaced_handlers (world_op w)"

lemma op_world_inv_start: "op_cancel_handler op = None \<Longrightarrow> op_world_inv (op_start op)"
  by (simp add: op_world_inv_def op_start_def replaced_handlers_def)

lemma op_step_inv: "op_step w w' \<Longrightarrow> op_world_inv w \<Longrightarrow> op_world_inv w'"
proof (induction rule: op_step.induct)
  case (finish st w won op')
  then show ?case by (auto simp: op_world_inv_def replaced_handlers_def operation_defs split: if_splits)
next
  case (cas st w won op')
  then show ?case by (auto simp: op_world_inv_def replaced_handlers_def operation_defs split: if_splits)
next
  case (take_and_run w n handler op')
  then show ?case
    by (auto simp: op_world_inv_def replaced_handlers_def operation_defs split: option.splits)
next
  case (register h w run op')
  then show ?case
    by (auto simp: op_world_inv_def replaced_handlers_def operation_defs split: if_splits)
next
  case (clear w)
  then show ?case by (auto simp: op_world_inv_def replaced_handlers_def operation_defs)
qed

interpretation ops: transition_invariant op_step op_world_inv
  by unfold_locales (rule op_step_inv)

text \<open>The methods of the operation as steps: run without interference they do what the model of the method does.\<close>

lemma try_complete_is_step:
  "try_complete st (world_op w) = (won, op') \<Longrightarrow> op_step w (w\<lparr>world_op := op', attempts := (st, won) # attempts w\<rparr>)"
  by (rule op_step.finish)

lemma complete_and_notify_is_steps:
  assumes "complete_and_notify st (world_op w) = (won, handler, op')" and "st \<in> {VI_ERROR_ABORT, VI_ERROR_TMO}"
  shows "op_step\<^sup>*\<^sup>* w (w\<lparr>world_op := op', attempts := (st, won) # attempts w,
    invoked := (case handler of None \<Rightarrow> invoked w | Some h \<Rightarrow> h # invoked w)\<rparr>)"
proof -
  obtain won1 op1 where t: "try_complete st (world_op w) = (won1, op1)" by (cases "try_complete st (world_op w)")
  let ?w1 = "w\<lparr>world_op := op1, takers := (if won1 then Suc (takers w) else takers w), attempts := (st, won1) # attempts w\<rparr>"
  have s1: "op_step w ?w1" by (rule op_step.cas [OF t assms(2)])
  show ?thesis
  proof (cases won1)
    case False
    with assms(1) t have "won = False" "handler = None" "op' = op1" by (simp_all add: complete_and_notify_def)
    with s1 False show ?thesis by (simp add: r_into_rtranclp)
  next
    case True
    with assms(1) t have r: "won = True" "take_cancel_handler op1 = (handler, op')"
      by (auto simp: complete_and_notify_def split: prod.splits)
    let ?w2 = "?w1\<lparr>world_op := op', takers := takers w,
        invoked := (case handler of None \<Rightarrow> invoked ?w1 | Some h \<Rightarrow> h # invoked ?w1)\<rparr>"
    have "op_step ?w1 ?w2" by (rule op_step.take_and_run) (use r True in simp_all)
    with s1 have "op_step\<^sup>*\<^sup>* w ?w2" by (rule converse_rtranclp_into_rtranclp [OF _ r_into_rtranclp])
    moreover have "?w2 = w\<lparr>world_op := op', attempts := (st, won) # attempts w,
        invoked := (case handler of None \<Rightarrow> invoked w | Some h \<Rightarrow> h # invoked w)\<rparr>"
      using True r by (cases w) (simp split: option.split)
    ultimately show ?thesis by simp
  qed
qed

lemmas request_is_steps =
  complete_and_notify_is_steps [where st = VI_ERROR_ABORT, folded request_cancel_def, simplified]
  complete_and_notify_is_steps [where st = VI_ERROR_TMO, folded request_timeout_def, simplified]

lemma set_cancel_handler_is_step:
  "set_cancel_handler h (world_op w) = (run, op') \<Longrightarrow> h \<notin> registered w \<Longrightarrow>
   \<exists>w'. op_step w w' \<and> world_op w' = op' \<and> invoked w' = (case run of None \<Rightarrow> invoked w | Some r \<Rightarrow> r # invoked w)"
  by (rule exI, rule conjI, rule op_step.register) auto

lemma step_keeps_result:
  "op_step w w' \<Longrightarrow> op_completed (world_op w) \<Longrightarrow>
   op_completed (world_op w') \<and> op_result (world_op w') = op_result (world_op w)"
  by (induction rule: op_step.induct) (auto simp: operation_defs split: if_splits)

text \<open>After a cancellation has been published, the handler slot is empty as soon as no winner is
  still on its way to it.\<close>

definition cancel_published :: "'h op_world \<Rightarrow> bool" where
  "cancel_published w \<longleftrightarrow>
     op_completed (world_op w) \<and> (takers w = 0 \<longrightarrow> op_cancel_handler (world_op w) = None)"

lemma cancel_published_stable: "op_step w w' \<Longrightarrow> cancel_published w \<Longrightarrow> cancel_published w'"
  by (induction rule: op_step.induct) (auto simp: cancel_published_def operation_defs split: if_splits)

text \<open>Of all attempts exactly the first one wins.\<close>

definition attempts_inv :: "'h op_world \<Rightarrow> bool" where
  "attempts_inv w \<longleftrightarrow> kPending \<in> fst ` set (attempts w) \<or>
     (if attempts w = [] then op_result (world_op w) = kPending
      else op_result (world_op w) \<noteq> kPending \<and>
        (\<exists>losers. attempts w = losers @ [(op_result (world_op w), True)] \<and> True \<notin> snd ` set losers))"

lemma attempts_inv_attempt:
  assumes "attempts_inv w" and "try_complete st (world_op w) = (won, op')"
    and "world_op w' = op'" and "attempts w' = (st, won) # attempts w"
  shows "attempts_inv w'"
proof (cases "attempts w = []")
  case True
  with assms(1) have "op_result (world_op w) = kPending" by (simp add: attempts_inv_def del: kPending_def)
  with assms(2) have "won" "op_result op' = st" by (auto simp: try_complete_def)
  with True assms(3,4) show ?thesis by (auto simp: attempts_inv_def simp del: kPending_def)
next
  case False
  show ?thesis
  proof (cases "kPending \<in> fst ` set (attempts w)")
    case True
    with assms(4) show ?thesis by (simp add: attempts_inv_def del: kPending_def)
  next
    case np: False
    with assms(1) False obtain losers where l: "op_result (world_op w) \<noteq> kPending"
      "attempts w = losers @ [(op_result (world_op w), True)]" "True \<notin> snd ` set losers"
      by (auto simp: attempts_inv_def simp del: kPending_def)
    with assms(2) have "won = False" "op' = world_op w"
      by (auto simp: try_complete_def simp del: kPending_def split: if_splits)
    with l assms(3,4) show ?thesis
      unfolding attempts_inv_def by (auto simp del: kPending_def intro!: exI [of _ "(st, False) # losers"])
  qed
qed

lemma attempts_inv_step: "op_step w w' \<Longrightarrow> attempts_inv w \<Longrightarrow> attempts_inv w'"
proof (induction rule: op_step.induct)
  case (finish st w won op')
  then show ?case by (auto intro: attempts_inv_attempt)
next
  case (cas st w won op')
  then show ?case by (auto intro: attempts_inv_attempt)
qed (auto simp: attempts_inv_def operation_defs simp del: kPending_def split: if_splits)

interpretation attempt_runs: transition_invariant op_step attempts_inv
  by unfold_locales (rule attempts_inv_step)

lemma attempts_complete:
  "attempts_inv w \<Longrightarrow> kPending \<notin> fst ` set (attempts w) \<Longrightarrow> op_completed (world_op w) \<longleftrightarrow> attempts w \<noteq> []"
  by (simp add: attempts_inv_def op_completed_def del: kPending_def split: if_splits)

lemma attempts_step: "op_step w w' \<Longrightarrow> set (attempts w) \<subseteq> set (attempts w')"
  by (induction rule: op_step.induct) auto

lemma attempts_grow: "op_step\<^sup>*\<^sup>* w w' \<Longrightarrow> fst ` set (attempts w) \<subseteq> fst ` set (attempts w')"
  by (induction rule: rtranclp_induct) (use attempts_step in blast)+

lemma completed_for_good:
  assumes "op_completed (world_op w)" and "op_step\<^sup>*\<^sup>* w w'"
  shows "op_completed (world_op w') \<and> op_result (world_op w') = op_result (world_op w)"
  using assms(2,1) by (induction rule: rtranclp_induct) (auto dest: step_keeps_result)

section \<open>Properties\<close>

text \<open>C3. Completion is exactly-once under every interleaving of normal completion, timeout,
  \<open>viTerminate\<close>, close and handler registration: of all attempts made so far the first one returned true
  and its status is the result, every later one returned false; the result never changes again. A further
  \<open>try_complete\<close>, \<open>request_cancel\<close> or \<open>request_timeout\<close> wins exactly if there was no attempt, and then the result
  is its status. (No attempt uses \<open>kPending\<close>, which is no VISA status.)\<close>

theorem completion_exactly_once:
  assumes "op_step\<^sup>*\<^sup>* (op_start (operation_new now timeout)) w" and "op_step\<^sup>*\<^sup>* w w'"
    and "kPending \<notin> fst ` set (attempts w')"
  shows "(if attempts w' = [] then \<not> op_completed (world_op w')
          else \<exists>losers. attempts w' = losers @ [(op_result (world_op w'), True)] \<and> True \<notin> snd ` set losers) \<and>
         (attempts w \<noteq> [] \<longrightarrow> op_result (world_op w') = op_result (world_op w)) \<and>
         (\<forall>st. fst (try_complete st (world_op w')) = (attempts w' = []) \<and>
               op_result (snd (try_complete st (world_op w'))) =
                 (if attempts w' = [] then st else op_result (world_op w'))) \<and>
         fst (request_cancel (world_op w')) = (attempts w' = []) \<and>
         op_result (snd (snd (request_cancel (world_op w')))) =
           (if attempts w' = [] then VI_ERROR_ABORT else op_result (world_op w')) \<and>
         fst (request_timeout (world_op w')) = (attempts w' = []) \<and>
         op_result (snd (snd (request_timeout (world_op w')))) =
           (if attempts w' = [] then VI_ERROR_TMO else op_result (world_op w'))"
proof -
  have "attempts_inv (op_start (operation_new now timeout) :: 'a op_world)"
    by (simp add: attempts_inv_def op_start_def operation_new_def)
  then have inv: "attempts_inv w" and inv': "attempts_inv w'"
    using attempt_runs.reach_inv assms(1,2) by blast+
  have p: "kPending \<notin> fst ` set (attempts w)" using attempts_grow [OF assms(2)] assms(3) by blast
  have c: "op_completed (world_op w) = (attempts w \<noteq> [])" "op_completed (world_op w') = (attempts w' \<noteq> [])"
    using attempts_complete inv inv' p assms(3) by blast+
  have "op_completed (world_op w) \<Longrightarrow> op_result (world_op w') = op_result (world_op w)"
    using completed_for_good [OF _ assms(2)] by blast
  with c inv' assms(3) show ?thesis
    by (auto simp: attempts_inv_def operation_defs simp del: kPending_def split: if_splits)
qed

definition aborted_world :: "nat op_world" where
  "aborted_world = (op_start (operation_new 0 2000))\<lparr>
     world_op := (operation_new 0 2000)\<lparr>op_result := VI_ERROR_ABORT\<rparr>, takers := 1,
     attempts := [(VI_ERROR_ABORT, True)]\<rparr>"

lemma reach_aborted: "op_step (op_start (operation_new 0 2000)) aborted_world"
  unfolding aborted_world_def
  using op_step.cas [of VI_ERROR_ABORT "op_start (operation_new 0 2000 :: nat operation)" True]
  by (simp add: op_start_def operation_new_def try_complete_def)

theorem completion_exactly_once_witness:
  "op_step (op_start (operation_new 0 2000)) aborted_world \<and>
   op_step aborted_world (aborted_world\<lparr>attempts := [(VI_SUCCESS, False), (VI_ERROR_ABORT, True)]\<rparr>) \<and>
   \<not> fst (request_timeout (world_op (aborted_world\<lparr>attempts := [(VI_SUCCESS, False), (VI_ERROR_ABORT, True)]\<rparr>)))"
proof -
  let ?w = "aborted_world\<lparr>attempts := [(VI_SUCCESS, False), (VI_ERROR_ABORT, True)]\<rparr>"
  have s: "op_step aborted_world ?w"
    using op_step.finish [of VI_SUCCESS aborted_world False]
    by (simp add: aborted_world_def op_start_def try_complete_def)
  have n: "kPending \<notin> fst ` set (attempts ?w)" by simp
  have r1: "op_step\<^sup>*\<^sup>* (op_start (operation_new 0 2000)) aborted_world"
    by (rule r_into_rtranclp) (rule reach_aborted)
  have r2: "op_step\<^sup>*\<^sup>* aborted_world ?w" by (rule r_into_rtranclp) (rule s)
  show ?thesis
    using completion_exactly_once [OF r1 r2 n] s reach_aborted by simp
qed

text \<open>C4. No cancellation handler runs twice, and none is lost: once a cancellation or timeout has won
  the race, then whenever no winner is still on its way to the handler, every handler ever
  registered has been run exactly once or had been cleared or replaced before.\<close>

theorem cancel_handlers_run_once:
  assumes "op_step\<^sup>*\<^sup>* (op_start (operation_new now timeout)) w"
    and "try_complete st (world_op w) = (True, op')" and "st \<in> {VI_ERROR_ABORT, VI_ERROR_TMO}"
    and "op_step\<^sup>*\<^sup>* (w\<lparr>world_op := op', takers := Suc (takers w), attempts := (st, True) # attempts w\<rparr>) w'"
  shows "distinct (invoked w') \<and> takers w' \<le> 1 \<and>
         (takers w' = 0 \<longrightarrow> registered w' = set (invoked w') \<union> dropped w' \<and> set (invoked w') \<inter> dropped w' = {})"
proof -
  let ?w1 = "w\<lparr>world_op := op', takers := Suc (takers w), attempts := (st, True) # attempts w\<rparr>"
  have "op_world_inv (op_start (operation_new now timeout) :: 'a op_world)"
    by (rule op_world_inv_start) (simp add: operation_new_def)
  with assms(1) have "op_world_inv w" by (rule ops.reach_inv)
  then have inv1: "op_world_inv ?w1" using op_step_inv [OF op_step.cas [OF assms(2,3)]] by simp
  have inv': "op_world_inv w'" by (rule ops.reach_inv [OF assms(4) inv1])
  have "cancel_published ?w1"
    using assms(2,3) by (auto simp: cancel_published_def operation_defs split: if_splits)
  then have "cancel_published w'"
    by (rule ops.reach_stable [OF assms(4) inv1]) (rule cancel_published_stable)
  with inv' show ?thesis by (auto simp: op_world_inv_def cancel_published_def replaced_handlers_def)
qed

theorem cancel_handlers_run_once_witness:
  "op_step aborted_world (aborted_world\<lparr>registered := {5}, invoked := [5]\<rparr>) \<and>
   distinct (invoked (aborted_world\<lparr>registered := {5}, invoked := [5]\<rparr>))"
proof -
  let ?op = "operation_new 0 2000 :: nat operation"
  have s: "op_step aborted_world (aborted_world\<lparr>registered := {5}, invoked := [5]\<rparr>)"
    using op_step.register [of 5 aborted_world "Some 5" "world_op aborted_world"]
    by (simp add: aborted_world_def op_start_def set_cancel_handler_def op_completed_def)
  have cas: "try_complete VI_ERROR_ABORT (world_op (op_start ?op)) = (True, ?op\<lparr>op_result := VI_ERROR_ABORT\<rparr>)"
    by (simp add: op_start_def operation_new_def try_complete_def)
  have to: "(op_start ?op)\<lparr>world_op := ?op\<lparr>op_result := VI_ERROR_ABORT\<rparr>, takers := Suc (takers (op_start ?op)),
    attempts := (VI_ERROR_ABORT, True) # attempts (op_start ?op)\<rparr>
    = aborted_world" by (simp add: aborted_world_def op_start_def)
  from s have r: "op_step\<^sup>*\<^sup>* ((op_start ?op)\<lparr>world_op := ?op\<lparr>op_result := VI_ERROR_ABORT\<rparr>,
      takers := Suc (takers (op_start ?op)), attempts := (VI_ERROR_ABORT, True) # attempts (op_start ?op)\<rparr>) (aborted_world\<lparr>registered := {5}, invoked := [5]\<rparr>)"
    unfolding to by (rule r_into_rtranclp)
  show ?thesis using cancel_handlers_run_once [OF rtranclp.rtrancl_refl cas _ r] s by simp
qed

end
