(* ===== verification/Lock_Manager.thy ===== *)
theory Lock_Manager
  imports Operation
begin

text \<open>
  The lock manager of \<open>src/core/lock_manager.{h,cpp}\<close>: exclusive and shared locks per canonical
  resource name, nested by the same session, with generated access keys. The unordered map of shared
  owners is an association list; the map of locks is a partial function. A call of \<open>acquire\<close> may
  block; what happens while it does is an explicit list of events, the operations of other threads
  among them, and the waiter looks at its predicate again only when the condition variable is
  notified or its deadline passes. \<open>None\<close> is a call that is still blocked when the events end.
\<close>

section \<open>State\<close>

record lock_state =
  ls_type :: u32
  exclusive_owner :: u32
  exclusive_depth :: u32
  shared_key :: string
  shared_owners :: "(u32 \<times> u32) list"

definition lock_state_empty :: lock_state where
  "lock_state_empty =
     \<lparr>ls_type = VI_NO_LOCK, exclusive_owner = VI_NULL, exclusive_depth = 0, shared_key = '''',
      shared_owners = []\<rparr>"

record lock_manager =
  lm_locks :: "string \<Rightarrow> lock_state option"
  next_key_id :: u64

definition lock_manager_empty :: lock_manager where
  "lock_manager_empty = \<lparr>lm_locks = Map.empty, next_key_id = 1\<rparr>"

definition lock_entry :: "lock_manager \<Rightarrow> string \<Rightarrow> lock_state" where
  "lock_entry m resource =
     (case lm_locks m resource of None \<Rightarrow> lock_state_empty | Some s \<Rightarrow> s)"

section \<open>Operations\<close>

definition can_grant :: "lock_state \<Rightarrow> u32 \<Rightarrow> u32 \<Rightarrow> string option \<Rightarrow> bool" where
  "can_grant state owner lock_type requested_key =
     (if ls_type state = VI_NO_LOCK then True
      else if lock_type = VI_EXCLUSIVE_LOCK then
        ls_type state = VI_EXCLUSIVE_LOCK \<and> exclusive_owner state = owner
      else if ls_type state \<noteq> VI_SHARED_LOCK then False
      else if map_of (shared_owners state) owner \<noteq> None then True
      else requested_key \<noteq> None \<and> shared_key state = the requested_key)"

definition next_key :: "lock_manager \<Rightarrow> string \<times> lock_manager" where
  "next_key m =
     (''WRVISA-'' @ print_radix 16 (unat (next_key_id m)), m\<lparr>next_key_id := next_key_id m + 1\<rparr>)"

definition put_lock :: "string \<Rightarrow> lock_state \<Rightarrow> lock_manager \<Rightarrow> lock_manager" where
  "put_lock resource s m = m\<lparr>lm_locks := (lm_locks m)(resource \<mapsto> s)\<rparr>"

definition erase_lock :: "string \<Rightarrow> lock_manager \<Rightarrow> lock_manager" where
  "erase_lock resource m = m\<lparr>lm_locks := (lm_locks m)(resource := None)\<rparr>"

text \<open>The part of \<open>acquire\<close> after the wait: the request is grantable and is entered.\<close>

definition acquire_grant ::
  "u32 \<Rightarrow> string \<Rightarrow> u32 \<Rightarrow> string \<Rightarrow> lock_manager \<Rightarrow> vi_status \<times> string \<times> lock_manager" where
  "acquire_grant owner resource lock_type access_key m =
     (let state = lock_entry m resource in
      if lock_type = VI_EXCLUSIVE_LOCK then
        if ls_type state = VI_EXCLUSIVE_LOCK then
          (VI_SUCCESS_NESTED_EXCLUSIVE, access_key,
           put_lock resource (state\<lparr>exclusive_depth := exclusive_depth state + 1\<rparr>) m)
        else (VI_SUCCESS, access_key,
              put_lock resource (state\<lparr>ls_type := VI_EXCLUSIVE_LOCK, exclusive_owner := owner,
                                       exclusive_depth := 1\<rparr>) m)
      else if ls_type state = VI_SHARED_LOCK then
        let depth = (case map_of (shared_owners state) owner of None \<Rightarrow> 0 | Some d \<Rightarrow> d) in
        (if depth \<noteq> 0 then VI_SUCCESS_NESTED_SHARED else VI_SUCCESS, shared_key state,
         put_lock resource
           (state\<lparr>shared_owners := AList.update owner (depth + 1) (shared_owners state)\<rparr>) m)
      else
        let (key, m') = next_key m in
        (VI_SUCCESS, key,
         put_lock resource
           (state\<lparr>ls_type := VI_SHARED_LOCK, shared_key := key,
                  shared_owners := AList.update owner 1 (shared_owners state)\<rparr>) m'))"

text \<open>The second component says whether the condition variable is notified.\<close>

definition lock_release :: "u32 \<Rightarrow> string \<Rightarrow> lock_manager \<Rightarrow> vi_status \<times> bool \<times> lock_manager" where
  "lock_release owner resource m =
     (case lm_locks m resource of
        None \<Rightarrow> (VI_ERROR_SESN_NLOCKED, False, m)
      | Some state \<Rightarrow>
          if ls_type state = VI_EXCLUSIVE_LOCK \<and> exclusive_owner state = owner then
            if exclusive_depth state - 1 = 0 then (VI_SUCCESS, True, erase_lock resource m)
            else (VI_SUCCESS, False,
                  put_lock resource (state\<lparr>exclusive_depth := exclusive_depth state - 1\<rparr>) m)
          else if ls_type state = VI_SHARED_LOCK then
            (case map_of (shared_owners state) owner of
               Some depth \<Rightarrow>
                 let owners = (if depth - 1 = 0 then AList.delete owner (shared_owners state)
                               else AList.update owner (depth - 1) (shared_owners state)) in
                 if owners = [] then (VI_SUCCESS, True, erase_lock resource m)
                 else (VI_SUCCESS, False, put_lock resource (state\<lparr>shared_owners := owners\<rparr>) m)
             | None \<Rightarrow> (VI_ERROR_SESN_NLOCKED, False, m))
          else (VI_ERROR_SESN_NLOCKED, False, m))"

definition lock_release_all :: "u32 \<Rightarrow> string \<Rightarrow> lock_manager \<Rightarrow> bool \<times> lock_manager" where
  "lock_release_all owner resource m =
     (case lm_locks m resource of
        None \<Rightarrow> (False, m)
      | Some state \<Rightarrow>
          if ls_type state = VI_EXCLUSIVE_LOCK \<and> exclusive_owner state = owner then
            (True, erase_lock resource m)
          else if ls_type state = VI_SHARED_LOCK then
            let changed = (map_of (shared_owners state) owner \<noteq> None);
                owners = AList.delete owner (shared_owners state) in
            (changed, if owners = [] then erase_lock resource m
                      else put_lock resource (state\<lparr>shared_owners := owners\<rparr>) m)
          else (False, m))"

definition lock_can_access :: "u32 \<Rightarrow> string \<Rightarrow> lock_manager \<Rightarrow> bool" where
  "lock_can_access owner resource m =
     (case lm_locks m resource of
        None \<Rightarrow> True
      | Some state \<Rightarrow>
          if ls_type state = VI_EXCLUSIVE_LOCK then exclusive_owner state = owner
          else map_of (shared_owners state) owner \<noteq> None)"

definition owned_lock_type :: "u32 \<Rightarrow> string \<Rightarrow> lock_manager \<Rightarrow> u32" where
  "owned_lock_type owner resource m =
     (case lm_locks m resource of
        None \<Rightarrow> VI_NO_LOCK
      | Some state \<Rightarrow>
          if ls_type state = VI_EXCLUSIVE_LOCK \<and> exclusive_owner state = owner then VI_EXCLUSIVE_LOCK
          else if ls_type state = VI_SHARED_LOCK \<and> map_of (shared_owners state) owner \<noteq> None
          then VI_SHARED_LOCK
          else VI_NO_LOCK)"

definition owned_lock_depth :: "u32 \<Rightarrow> string \<Rightarrow> lock_manager \<Rightarrow> u32" where
  "owned_lock_depth owner resource m =
     (case lm_locks m resource of
        None \<Rightarrow> 0
      | Some state \<Rightarrow>
          if ls_type state = VI_EXCLUSIVE_LOCK \<and> exclusive_owner state = owner
          then exclusive_depth state
          else if ls_type state = VI_SHARED_LOCK
          then (case map_of (shared_owners state) owner of Some depth \<Rightarrow> depth | None \<Rightarrow> 0)
          else 0)"

section \<open>Waiting\<close>

text \<open>What the other threads of the process do to the manager; a grant of theirs takes effect only
  when their request is grantable. The flag is the notification of the condition variable.\<close>

datatype lock_op =
    Grant_op u32 string u32 "string option"
  | Release_op u32 string
  | Release_all_op u32 string

fun exec_lock_op :: "lock_op \<Rightarrow> lock_manager \<Rightarrow> bool \<times> lock_manager" where
  "exec_lock_op (Grant_op owner resource lock_type key) m =
     (False,
      if lock_type \<in> {VI_EXCLUSIVE_LOCK, VI_SHARED_LOCK} \<and>
         can_grant (lock_entry m resource) owner lock_type key
      then snd (snd (acquire_grant owner resource lock_type [] m)) else m)"
| "exec_lock_op (Release_op owner resource) m = snd (lock_release owner resource m)"
| "exec_lock_op (Release_all_op owner resource) m = lock_release_all owner resource m"

datatype lock_event =
    Other_thread lock_op        \<comment> \<open>another thread changes the manager\<close>
  | Operation_done vi_status    \<comment> \<open>the waiter's operation is completed elsewhere\<close>
  | Notify                      \<comment> \<open>\<open>notify_waiters\<close>, or a spurious wake-up\<close>
  | Deadline                    \<comment> \<open>the deadline of the wait passes\<close>

datatype wait_result = Ready | Timed_out | Blocked

fun acquire_wait ::
  "bool \<Rightarrow> ('h operation option \<Rightarrow> lock_manager \<Rightarrow> bool) \<Rightarrow> lock_event list \<Rightarrow>
   'h operation option \<Rightarrow> lock_manager \<Rightarrow> wait_result \<times> 'h operation option \<times> lock_manager" where
  "acquire_wait forever grantable [] op m = (Blocked, op, m)"
| "acquire_wait forever grantable (Other_thread c # evs) op m =
     (let (notified, m') = exec_lock_op c m in
      if notified \<and> grantable op m' then (Ready, op, m')
      else acquire_wait forever grantable evs op m')"
| "acquire_wait forever grantable (Operation_done st # evs) op m =
     acquire_wait forever grantable evs (map_option (\<lambda>o'. snd (try_complete st o')) op) m"
| "acquire_wait forever grantable (Notify # evs) op m =
     (if grantable op m then (Ready, op, m) else acquire_wait forever grantable evs op m)"
| "acquire_wait forever grantable (Deadline # evs) op m =
     (if forever then acquire_wait forever grantable evs op m
      else if grantable op m then (Ready, op, m) else (Timed_out, op, m))"

definition operation_done :: "'h operation option \<Rightarrow> bool" where
  "operation_done op = (case op of None \<Rightarrow> False | Some o' \<Rightarrow> op_completed o')"

definition lock_acquire ::
  "u32 \<Rightarrow> string \<Rightarrow> u32 \<Rightarrow> u32 \<Rightarrow> string option \<Rightarrow> string \<Rightarrow> 'h operation option \<Rightarrow> lock_event list \<Rightarrow>
   lock_manager \<Rightarrow> (vi_status \<times> string \<times> 'h operation option \<times> lock_manager) option" where
  "lock_acquire owner resource lock_type timeout requested_key access_key op evs m =
     (if lock_type \<noteq> VI_EXCLUSIVE_LOCK \<and> lock_type \<noteq> VI_SHARED_LOCK
      then Some (VI_ERROR_INV_LOCK_TYPE, access_key, op, m)
      else if lock_type = VI_EXCLUSIVE_LOCK \<and> requested_key \<noteq> None \<and> the requested_key \<noteq> []
      then Some (VI_ERROR_INV_ACCESS_KEY, access_key, op, m)
      else
        let grantable = (\<lambda>op m. operation_done op \<or>
              can_grant (lock_entry m resource) owner lock_type requested_key);
            (result, op', m') =
              (if grantable op m then (Ready, op, m)
               else acquire_wait (timeout = VI_TMO_INFINITE) grantable evs op m) in
        case result of
          Blocked \<Rightarrow> None
        | Timed_out \<Rightarrow> Some (VI_ERROR_TMO, access_key, op', m')
        | Ready \<Rightarrow>
            if operation_done op' then Some (op_result (the op'), access_key, op', m')
            else let (status, key, m'') = acquire_grant owner resource lock_type access_key m' in
                 Some (status, key, op', m''))"

section \<open>Invariant\<close>

text \<open>A stored lock is exclusive with no shared owners, or shared with at least one owner.\<close>

definition lock_state_inv :: "lock_state \<Rightarrow> bool" where
  "lock_state_inv s \<longleftrightarrow>
     ls_type s = VI_EXCLUSIVE_LOCK \<and> shared_owners s = [] \<or>
     ls_type s = VI_SHARED_LOCK \<and> shared_owners s \<noteq> [] \<and> distinct (map fst (shared_owners s))"

definition lock_inv :: "lock_manager \<Rightarrow> bool" where
  "lock_inv m \<longleftrightarrow> (\<forall>r s. lm_locks m r = Some s \<longrightarrow> lock_state_inv s)"

named_theorems lock_simps \<open>unfolding the lock manager\<close>

lemmas [lock_simps] =
  lock_entry_def put_lock_def erase_lock_def next_key_def lock_state_empty_def Let_def

lemma lock_inv_empty [simp]: "lock_inv lock_manager_empty"
  by (simp add: lock_inv_def lock_manager_empty_def)

lemma lock_inv_put: "lock_inv m \<Longrightarrow> lock_state_inv s \<Longrightarrow> lock_inv (put_lock r s m)"
  by (simp add: lock_inv_def put_lock_def)

lemma lock_inv_erase: "lock_inv m \<Longrightarrow> lock_inv (erase_lock r m)"
  by (simp add: lock_inv_def erase_lock_def)

lemma lock_inv_key: "lock_inv m \<Longrightarrow> lock_inv (m\<lparr>next_key_id := k\<rparr>)"
  by (simp add: lock_inv_def)

lemma lock_inv_entry:
  "lock_inv m \<Longrightarrow> lock_entry m r = lock_state_empty \<or> lock_state_inv (lock_entry m r)"
  by (auto simp: lock_inv_def lock_entry_def split: option.splits)

lemma lock_state_empty_sel [simp]:
  "ls_type lock_state_empty = 0" "shared_owners lock_state_empty = []"
  by (simp_all add: lock_state_empty_def)

lemma first_key [simp]: "print_radix 16 (Suc 0) = ''1''"
  by code_simp

lemma acquire_grant_inv:
  assumes "lock_inv m" and "lock_type \<in> {VI_EXCLUSIVE_LOCK, VI_SHARED_LOCK}"
    and "can_grant (lock_entry m r) owner lock_type key"
  shows "lock_inv (snd (snd (acquire_grant owner r lock_type access_key m)))"
proof -
  from lock_inv_entry [OF assms(1), of r] assms show ?thesis
    by (auto simp: acquire_grant_def can_grant_def Let_def next_key_def lock_state_inv_def distinct_update
        intro!: lock_inv_put lock_inv_key)
qed

lemma lock_inv_at: "lock_inv m \<Longrightarrow> lm_locks m r = Some s \<Longrightarrow> lock_state_inv s"
  by (simp add: lock_inv_def)

lemma lock_state_cases [consumes 1, case_names exclusive shared]:
  assumes "lock_state_inv s"
  obtains "ls_type s = 1" "shared_owners s = []"
    | "ls_type s = 2" "shared_owners s \<noteq> []" "distinct (map fst (shared_owners s))"
  using assms by (auto simp: lock_state_inv_def)

lemma lock_release_inv:
  assumes "lock_inv m"
  shows "lock_inv (snd (snd (lock_release owner r m)))"
proof (cases "lm_locks m r")
  case None
  with assms show ?thesis by (simp add: lock_release_def)
next
  case (Some s)
  from lock_inv_at [OF assms Some] show ?thesis
    by (cases rule: lock_state_cases)
       (use assms Some in \<open>auto simp: lock_release_def Let_def lock_state_inv_def distinct_update
          distinct_delete split: option.splits intro!: lock_inv_put lock_inv_erase\<close>)
qed

lemma lock_release_all_inv:
  assumes "lock_inv m"
  shows "lock_inv (snd (lock_release_all owner r m))"
proof (cases "lm_locks m r")
  case None
  with assms show ?thesis by (simp add: lock_release_all_def)
next
  case (Some s)
  from lock_inv_at [OF assms Some] show ?thesis
    by (cases rule: lock_state_cases)
       (use assms Some in \<open>auto simp: lock_release_all_def Let_def lock_state_inv_def
          distinct_delete intro!: lock_inv_put lock_inv_erase\<close>)
qed

lemma exec_lock_op_inv: "lock_inv m \<Longrightarrow> lock_inv (snd (exec_lock_op c m))"
  by (cases c) (auto intro: acquire_grant_inv lock_release_inv lock_release_all_inv)

interpretation lock_run: invariant_component "\<lambda>c m. snd (exec_lock_op c m)" lock_inv
  by unfold_locales (rule exec_lock_op_inv)

lemma acquire_wait_inv:
  "lock_inv m \<Longrightarrow> acquire_wait f g evs op m = (r, op', m') \<Longrightarrow> lock_inv m'"
proof (induction f g evs op m rule: acquire_wait.induct)
  case (2 f g c evs op m)
  obtain notified m1 where e: "exec_lock_op c m = (notified, m1)" by (cases "exec_lock_op c m")
  with exec_lock_op_inv [OF 2(2), of c] have "lock_inv m1" by simp
  with 2 e show ?case by (auto split: if_splits)
qed (auto split: if_splits)

lemma acquire_wait_ready:
  "acquire_wait f g evs op m = (Ready, op', m') \<Longrightarrow> g op' m'"
  by (induction f g evs op m rule: acquire_wait.induct) (auto simp: Let_def split: if_splits prod.splits)

lemma lock_acquire_inv:
  assumes "lock_inv m"
    and "lock_acquire owner r lock_type timeout key access_key op evs m = Some (st, key', op', m')"
  shows "lock_inv m'"
proof -
  let ?g = "\<lambda>op m. operation_done op \<or> can_grant (lock_entry m r) owner lock_type key"
  obtain res op1 m1 where w: "(if ?g op m then (Ready, op, m)
      else acquire_wait (timeout = VI_TMO_INFINITE) ?g evs op m) = (res, op1, m1)"
    by (metis prod_cases3)
  have inv1: "lock_inv m1" using w assms(1) acquire_wait_inv by (fastforce split: if_splits)
  have "res = Ready \<Longrightarrow> ?g op1 m1" using w acquire_wait_ready by (fastforce split: if_splits)
  with assms inv1 w acquire_grant_inv [OF inv1, of lock_type r owner key access_key] show ?thesis
    by (auto simp: lock_acquire_def Let_def split: if_splits wait_result.splits prod.splits)
qed

section \<open>Who holds a lock\<close>

definition lock_holders :: "lock_manager \<Rightarrow> string \<Rightarrow> u32 set" where
  "lock_holders m r = {owner. owned_lock_type owner r m \<noteq> VI_NO_LOCK}"

definition state_holders :: "lock_state \<Rightarrow> u32 set" where
  "state_holders s =
     (if ls_type s = VI_EXCLUSIVE_LOCK then {exclusive_owner s}
      else if ls_type s = VI_SHARED_LOCK then dom (map_of (shared_owners s)) else {})"

lemma lock_holders_eq:
  "lock_holders m r = (case lm_locks m r of None \<Rightarrow> {} | Some s \<Rightarrow> state_holders s)"
  by (auto simp: lock_holders_def owned_lock_type_def state_holders_def split: option.splits if_splits)

lemma lock_holders_put [simp]:
  "lock_holders (put_lock r s m) = (lock_holders m)(r := state_holders s)"
  by (rule ext) (simp add: lock_holders_eq put_lock_def)

lemma lock_holders_erase [simp]: "lock_holders (erase_lock r m) = (lock_holders m)(r := {})"
  by (rule ext) (simp add: lock_holders_eq erase_lock_def)

lemma lock_holders_key [simp]: "lock_holders (m\<lparr>next_key_id := k\<rparr>) = lock_holders m"
  by (rule ext) (simp add: lock_holders_eq)

lemma state_holders_empty [simp]: "state_holders lock_state_empty = {}"
  by (simp add: state_holders_def)

lemma lock_holders_entry: "lock_holders m r = state_holders (lock_entry m r)"
  by (simp add: lock_holders_eq lock_entry_def split: option.splits)

lemma lock_holders_grant:
  assumes "lock_inv m" and "lock_type \<in> {VI_EXCLUSIVE_LOCK, VI_SHARED_LOCK}"
    and "can_grant (lock_entry m r) owner lock_type key"
  shows "lock_holders (snd (snd (acquire_grant owner r lock_type access_key m))) =
         (lock_holders m)(r := insert owner (lock_holders m r))"
  using lock_inv_entry [OF assms(1), of r] assms
  by (auto simp: acquire_grant_def can_grant_def Let_def next_key_def lock_state_inv_def
      lock_holders_entry state_holders_def)

lemma lock_holders_release:
  assumes "lock_inv m"
  shows "lock_holders (snd (snd (lock_release owner r m))) =
         (lock_holders m)(r := if owned_lock_depth owner r m = 1 then lock_holders m r - {owner}
                               else lock_holders m r)"
proof (cases "lm_locks m r")
  case None
  then show ?thesis by (simp add: lock_release_def owned_lock_depth_def)
next
  case (Some s)
  have h: "lock_holders m r = state_holders s" by (simp add: lock_holders_eq Some)
  from lock_inv_at [OF assms Some] show ?thesis
  proof (cases rule: lock_state_cases)
    case exclusive
    with Some h show ?thesis
      by (auto simp: lock_release_def owned_lock_depth_def state_holders_def fun_eq_iff)
  next
    case shared
    have "AList.delete owner (shared_owners s) = [] \<Longrightarrow> dom (map_of (shared_owners s)) \<subseteq> {owner}"
      using map_of_delete [of owner "shared_owners s"] by (auto simp: fun_eq_iff split: if_splits)
    with shared Some h show ?thesis
      by (auto simp: lock_release_def owned_lock_depth_def state_holders_def Let_def fun_eq_iff
          split: option.splits)
  qed
qed

lemma lock_holders_release_all:
  assumes "lock_inv m"
  shows "lock_holders (snd (lock_release_all owner r m)) =
         (lock_holders m)(r := lock_holders m r - {owner})"
proof (cases "lm_locks m r")
  case None
  then show ?thesis by (simp add: lock_release_all_def lock_holders_eq fun_upd_idem)
next
  case (Some s)
  have h: "lock_holders m r = state_holders s" by (simp add: lock_holders_eq Some)
  from lock_inv_at [OF assms Some] show ?thesis
  proof (cases rule: lock_state_cases)
    case exclusive
    with Some h show ?thesis
      by (auto simp: lock_release_all_def state_holders_def fun_upd_idem simp flip: h)
  next
    case shared
    have "AList.delete owner (shared_owners s) = [] \<Longrightarrow> dom (map_of (shared_owners s)) - {owner} = {}"
      using map_of_delete [of owner "shared_owners s"] by (auto simp: fun_eq_iff split: if_splits)
    with shared Some h show ?thesis
      by (auto simp: lock_release_all_def state_holders_def Let_def fun_eq_iff)
  qed
qed

lemma exclusive_sole_holder:
  "owned_lock_type owner r m = VI_EXCLUSIVE_LOCK \<Longrightarrow> lock_holders m r = {owner}"
  by (auto simp: owned_lock_type_def lock_holders_eq state_holders_def split: option.splits if_splits)

lemma can_access_iff:
  "lock_inv m \<Longrightarrow> lock_can_access owner r m \<longleftrightarrow> lock_holders m r = {} \<or> owner \<in> lock_holders m r"
proof (cases "lm_locks m r")
  case (Some s)
  assume "lock_inv m"
  from lock_inv_at [OF this Some] show ?thesis
    by (cases rule: lock_state_cases) (auto simp: lock_can_access_def lock_holders_eq state_holders_def Some)
qed (simp add: lock_can_access_def lock_holders_eq)

section \<open>What sessions rely on\<close>

text \<open>The lock service a session calls: the holders of each resource as sets, changed by a grant, a
  release or a release-all at that resource and owner only.\<close>

locale lock_service =
  fixes holders :: "'m \<Rightarrow> 'r \<Rightarrow> 'o set"
    and grant :: "'o \<Rightarrow> 'r \<Rightarrow> 'm \<Rightarrow> 'm"
    and release :: "'o \<Rightarrow> 'r \<Rightarrow> 'm \<Rightarrow> 'm"
    and drop_owner :: "'o \<Rightarrow> 'r \<Rightarrow> 'm \<Rightarrow> 'm"
    and invar :: "'m \<Rightarrow> bool"
  assumes holders_grant: "invar m \<Longrightarrow> holders (grant w r m) r' \<subseteq> holders m r' \<union> (if r' = r then {w} else {})"
    and holders_release: "invar m \<Longrightarrow> holders (release w r m) r' \<subseteq> holders m r'"
    and holders_drop: "invar m \<Longrightarrow> holders (drop_owner w r m) = (holders m)(r := holders m r - {w})"
    and invar_ops: "invar m \<Longrightarrow> invar (grant w r m)" "invar m \<Longrightarrow> invar (release w r m)"
      "invar m \<Longrightarrow> invar (drop_owner w r m)"
begin

lemma only_live_holders:
  assumes "invar m" and "\<And>r'. holders m r' \<subseteq> live"
  shows "w \<in> live \<Longrightarrow> holders (grant w r m) r' \<subseteq> live"
    and "holders (release w r m) r' \<subseteq> live"
    and "holders (drop_owner w r m) r' \<subseteq> live"
  using holders_grant [OF assms(1), of w r r'] holders_release [OF assms(1), of w r r'] assms
    assms(2) [of r'] by (auto simp: holders_drop split: if_splits)

lemma closed_holds_nothing:
  assumes "invar m" and "\<And>r'. w \<in> holders m r' \<Longrightarrow> r' = r"
  shows "w \<notin> holders (drop_owner w r m) r'"
  using assms by (auto simp: holders_drop)

end

definition grant_if_possible :: "u32 \<Rightarrow> string \<Rightarrow> u32 \<Rightarrow> string option \<Rightarrow> lock_manager \<Rightarrow> lock_manager" where
  "grant_if_possible owner r lock_type key m = snd (exec_lock_op (Grant_op owner r lock_type key) m)"

interpretation lm: lock_service lock_holders
  "\<lambda>owner r m. grant_if_possible owner r lock_type key m"
  "\<lambda>owner r m. snd (snd (lock_release owner r m))"
  "\<lambda>owner r m. snd (lock_release_all owner r m)" lock_inv for lock_type key
proof unfold_locales
  fix m w r r'
  assume inv: "lock_inv m"
  show "lock_holders (grant_if_possible w r lock_type key m) r' \<subseteq> lock_holders m r' \<union> (if r' = r then {w} else {})"
    using lock_holders_grant [OF inv, of lock_type r w key "[]"] by (auto simp: grant_if_possible_def)
  show "lock_holders (snd (snd (lock_release w r m))) r' \<subseteq> lock_holders m r'"
    using lock_holders_release [OF inv, of w r] by auto
qed (use exec_lock_op_inv [of _ "Grant_op _ _ lock_type key"] in
  \<open>auto simp: lock_holders_release_all grant_if_possible_def simp del: exec_lock_op.simps
     intro: lock_release_inv lock_release_all_inv\<close>)

section \<open>Nesting\<close>

lemma depth_grant:
  assumes "lock_inv m" and "lock_type \<in> {VI_EXCLUSIVE_LOCK, VI_SHARED_LOCK}"
    and "can_grant (lock_entry m r) owner lock_type key"
  shows "owned_lock_depth owner r (snd (snd (acquire_grant owner r lock_type access_key m))) =
         owned_lock_depth owner r m + 1"
    and "owned_lock_type owner r (snd (snd (acquire_grant owner r lock_type access_key m))) = lock_type"
  using lock_inv_entry [OF assms(1), of r] assms
  by (auto simp: acquire_grant_def can_grant_def lock_simps lock_state_inv_def owned_lock_depth_def
      owned_lock_type_def split: option.splits)

lemma delete_update_fresh:
  "map_of al k = None \<Longrightarrow> AList.delete k (AList.update k v al) = al"
  by (induction al) (auto simp: map_of_eq_None_iff AList.delete_eq intro: filter_id_conv [THEN iffD2])

lemma update_update_same: "AList.update k v (AList.update k v' al) = AList.update k v al"
  by (induction al) auto

lemma update_id: "map_of al k = Some v \<Longrightarrow> AList.update k v al = al"
  by (induction al) auto

lemma release_after_grant:
  assumes inv: "lock_inv m" and ty: "lock_type \<in> {VI_EXCLUSIVE_LOCK, VI_SHARED_LOCK}"
    and g: "can_grant (lock_entry m r) owner lock_type key"
    and d: "owner \<in> lock_holders m r \<Longrightarrow> owned_lock_depth owner r m \<noteq> 0"
  shows "lm_locks (snd (snd (lock_release owner r
           (snd (snd (acquire_grant owner r lock_type access_key m)))))) = lm_locks m"
proof (cases "lm_locks m r")
  case None
  with ty show ?thesis
    by (auto simp: acquire_grant_def lock_release_def lock_simps fun_upd_idem AList.delete_eq)
next
  case (Some s)
  have e: "lock_entry m r = s" by (simp add: lock_entry_def Some)
  from lock_inv_at [OF inv Some] show ?thesis
  proof (cases rule: lock_state_cases)
    case exclusive
    with ty g d Some e show ?thesis
      by (auto simp: acquire_grant_def lock_release_def can_grant_def put_lock_def owned_lock_depth_def
          lock_holders_eq state_holders_def fun_upd_idem)
  next
    case shared
    with ty g have ty2: "lock_type = 2" by (auto simp: can_grant_def e)
    show ?thesis
    proof (cases "map_of (shared_owners s) owner")
      case None
      with shared ty2 Some e show ?thesis
        by (simp add: acquire_grant_def lock_release_def put_lock_def Let_def delete_update_fresh fun_upd_idem)
    next
      case (Some depth)
      with d shared \<open>lm_locks m r = Some s\<close> have "depth \<noteq> 0"
        by (simp add: owned_lock_depth_def lock_holders_eq state_holders_def domIff)
      with Some shared ty2 \<open>lm_locks m r = Some s\<close> e show ?thesis
        by (simp add: acquire_grant_def lock_release_def put_lock_def Let_def update_update_same
            update_id fun_upd_idem)
    qed
  qed
qed

section \<open>Wake-ups\<close>

lemma lock_entry_put: "lock_entry (put_lock r s m) r' = (if r' = r then s else lock_entry m r')"
  by (simp add: lock_entry_def put_lock_def)

lemma can_grant_depth: "can_grant (s\<lparr>exclusive_depth := d\<rparr>) w t k = can_grant s w t k"
  by (simp add: can_grant_def)

lemma can_grant_fewer_owners:
  assumes "can_grant (s\<lparr>shared_owners := ow\<rparr>) w t k"
    and "\<And>v. map_of ow v \<noteq> None \<Longrightarrow> map_of (shared_owners s) v \<noteq> None"
  shows "can_grant s w t k"
  using assms(1) assms(2) [of w] by (auto simp: can_grant_def split: if_splits)

text \<open>Without a notification, a release leaves every entry as it was, or with a smaller set of
  owners, or with another depth: no request becomes grantable.\<close>

lemma release_unnotified:
  assumes "lock_release owner r m = (st, False, m')"
    and "can_grant (lock_entry m' r') w t k"
  shows "can_grant (lock_entry m r') w t k"
proof (cases "lm_locks m r")
  case None
  with assms show ?thesis by (simp add: lock_release_def)
next
  case (Some s)
  then have e: "lock_entry m r = s" by (simp add: lock_entry_def)
  consider "m' = m" | d where "m' = put_lock r (s\<lparr>exclusive_depth := d\<rparr>) m"
    | d where "map_of (shared_owners s) owner = Some d"
        "m' = put_lock r (s\<lparr>shared_owners := if d - 1 = 0 then AList.delete owner (shared_owners s)
                  else AList.update owner (d - 1) (shared_owners s)\<rparr>) m"
    using assms(1) Some by (auto simp: lock_release_def Let_def split: if_splits option.splits)
  then show ?thesis
  proof cases
    case 1
    with assms show ?thesis by simp
  next
    case 2
    with assms e show ?thesis by (auto simp: lock_entry_put can_grant_depth split: if_splits)
  next
    case 3
    with assms(2) e show ?thesis
      by (auto simp: lock_entry_put split: if_splits elim!: can_grant_fewer_owners)
  qed
qed

lemma release_all_unnotified:
  assumes "lock_inv m" and "lock_release_all owner r m = (False, m')"
  shows "m' = m"
proof (cases "lm_locks m r")
  case None
  with assms show ?thesis by (simp add: lock_release_all_def)
next
  case (Some s)
  from lock_inv_at [OF assms(1) Some] show ?thesis
  proof (cases rule: lock_state_cases)
    case exclusive
    with assms Some show ?thesis by (auto simp: lock_release_all_def split: if_splits)
  next
    case shared
    with assms Some have n: "map_of (shared_owners s) owner = None"
      by (auto simp: lock_release_all_def Let_def map_of_eq_None_iff)
    then have "AList.delete owner (shared_owners s) = shared_owners s"
      by (simp add: delete_idem map_of_eq_None_iff)
    with shared assms Some show ?thesis
      by (auto simp: lock_release_all_def Let_def put_lock_def fun_upd_idem)
  qed
qed

section \<open>Access keys\<close>

definition key_text :: "nat \<Rightarrow> string" where
  "key_text k = ''WRVISA-'' @ print_radix 16 k"

lemma key_text_inject: "key_text j = key_text k \<longleftrightarrow> j = k"
  by (simp add: key_text_def print_radix_inject)

definition key_inv :: "lock_manager \<Rightarrow> bool" where
  "key_inv m \<longleftrightarrow>
     (\<forall>r s. lm_locks m r = Some s \<longrightarrow> ls_type s = VI_SHARED_LOCK \<longrightarrow>
        (\<exists>k < unat (next_key_id m). shared_key s = key_text k \<and>
           (\<forall>r' s'. lm_locks m r' = Some s' \<longrightarrow> ls_type s' = VI_SHARED_LOCK \<longrightarrow>
              shared_key s' = key_text k \<longrightarrow> r' = r)))"

lemma key_invE:
  assumes "key_inv m" and "lm_locks m r = Some s" and "ls_type s = 2"
  obtains k where "k < unat (next_key_id m)" and "shared_key s = key_text k"
    and "\<And>r' s'. lm_locks m r' = Some s' \<Longrightarrow> ls_type s' = 2 \<Longrightarrow> shared_key s' = key_text k \<Longrightarrow> r' = r"
  using assms unfolding key_inv_def VI_SHARED_LOCK_def by blast

lemma key_inv_weaken:
  assumes "key_inv m" and "next_key_id m' = next_key_id m"
    and "\<And>r s. lm_locks m' r = Some s \<Longrightarrow> ls_type s = 2 \<Longrightarrow>
           \<exists>s0. lm_locks m r = Some s0 \<and> ls_type s0 = 2 \<and> shared_key s0 = shared_key s"
  shows "key_inv m'"
  unfolding key_inv_def
proof (intro allI impI)
  fix r s
  assume s: "lm_locks m' r = Some s" "ls_type s = VI_SHARED_LOCK"
  then obtain s0 where s0: "lm_locks m r = Some s0" "ls_type s0 = 2" "shared_key s0 = shared_key s"
    using assms(3) [of r s] by auto
  from key_invE [OF assms(1) s0(1,2)] s0(3)
  obtain k where k: "k < unat (next_key_id m)" "shared_key s = key_text k"
    "\<And>r' s'. lm_locks m r' = Some s' \<Longrightarrow> ls_type s' = 2 \<Longrightarrow> shared_key s' = key_text k \<Longrightarrow> r' = r"
    by (metis (no_types, lifting))
  have "r' = r" if "lm_locks m' r' = Some s'" "ls_type s' = 2" "shared_key s' = key_text k" for r' s'
    using assms(3) [OF that(1,2)] k(3) that(3) by metis
  with k assms(2) show "\<exists>k<unat (next_key_id m'). shared_key s = key_text k \<and>
      (\<forall>r' s'. lm_locks m' r' = Some s' \<longrightarrow> ls_type s' = VI_SHARED_LOCK \<longrightarrow>
         shared_key s' = key_text k \<longrightarrow> r' = r)"
    by (intro exI [of _ k]) auto
qed

lemma key_inv_new:
  assumes "key_inv m" and "unat (next_key_id m) + 1 < 2 ^ 64" and "lm_locks m r = None"
    and "shared_key s = key_text (unat (next_key_id m))"
  shows "key_inv (put_lock r s (m\<lparr>next_key_id := next_key_id m + 1\<rparr>))"
proof -
  let ?n = "unat (next_key_id m)"
  have n: "unat (next_key_id m + 1) = ?n + 1" using assms(2) by (simp add: unat_word_ariths)
  have old: "\<exists>k<?n. shared_key s' = key_text k \<and> (\<forall>r'' s''. lm_locks m r'' = Some s'' \<longrightarrow> ls_type s'' = 2 \<longrightarrow>
      shared_key s'' = key_text k \<longrightarrow> r'' = r')" if "lm_locks m r' = Some s'" "ls_type s' = 2" for r' s'
    using key_invE [OF assms(1) that] by metis
  show ?thesis
    unfolding key_inv_def
  proof (intro allI impI)
    fix r1 s1
    assume s1: "lm_locks (put_lock r s (m\<lparr>next_key_id := next_key_id m + 1\<rparr>)) r1 = Some s1"
      "ls_type s1 = VI_SHARED_LOCK"
    show "\<exists>k<unat (next_key_id (put_lock r s (m\<lparr>next_key_id := next_key_id m + 1\<rparr>))).
        shared_key s1 = key_text k \<and>
        (\<forall>r' s'. lm_locks (put_lock r s (m\<lparr>next_key_id := next_key_id m + 1\<rparr>)) r' = Some s' \<longrightarrow>
           ls_type s' = VI_SHARED_LOCK \<longrightarrow> shared_key s' = key_text k \<longrightarrow> r' = r1)"
    proof (cases "r1 = r")
      case True
      with s1 assms(4) have k1: "shared_key s1 = key_text ?n" by (simp add: put_lock_def)
      have "r' = r1" if "r' \<noteq> r" "lm_locks m r' = Some s'" "ls_type s' = 2" "shared_key s' = key_text ?n" for r' s'
        using old [OF that(2,3)] that(4) by (auto simp: key_text_inject)
      with k1 True n show ?thesis by (intro exI [of _ ?n]) (auto simp: put_lock_def split: if_splits)
    next
      case False
      with s1 have "lm_locks m r1 = Some s1" "ls_type s1 = 2" by (auto simp: put_lock_def)
      from old [OF this] obtain k where k: "k < ?n" "shared_key s1 = key_text k"
        "\<forall>r'' s''. lm_locks m r'' = Some s'' \<longrightarrow> ls_type s'' = 2 \<longrightarrow> shared_key s'' = key_text k \<longrightarrow> r'' = r1" by blast
      with n assms(4) False show ?thesis
        by (intro exI [of _ k]) (auto simp: put_lock_def key_text_inject split: if_splits)
    qed
  qed
qed

lemma key_inv_exec:
  assumes inv: "lock_inv m" and key: "key_inv m" and n: "unat (next_key_id m) + 1 < 2 ^ 64"
  shows "key_inv (snd (exec_lock_op c m)) \<and>
         unat (next_key_id (snd (exec_lock_op c m))) \<le> unat (next_key_id m) + 1"
proof (cases c)
  case (Grant_op owner r lock_type rk)
  show ?thesis
  proof (cases "lock_type \<in> {VI_EXCLUSIVE_LOCK, VI_SHARED_LOCK} \<and> can_grant (lock_entry m r) owner lock_type rk")
    case g: True
    have bound: "unat (next_key_id m + 1) \<le> unat (next_key_id m) + 1"
      by (simp add: unat_word_ariths)
    show ?thesis
    proof (cases "lm_locks m r")
      case None
      then have e: "lock_entry m r = lock_state_empty" by (simp add: lock_entry_def)
      show ?thesis
      proof (cases "lock_type = 2")
        case True
        with Grant_op g e bound key_inv_new [OF key n None] show ?thesis
          by (simp add: acquire_grant_def Let_def next_key_def put_lock_def key_text_def)
      next
        case False
        with Grant_op g e show ?thesis
          by (auto simp: acquire_grant_def Let_def put_lock_def intro!: key_inv_weaken [OF key] split: if_splits)
      qed
    next
      case (Some s)
      then have e: "lock_entry m r = s" by (simp add: lock_entry_def)
      from lock_inv_at [OF inv Some] show ?thesis
        by (cases rule: lock_state_cases)
           (use Grant_op g e Some in \<open>auto simp: acquire_grant_def can_grant_def Let_def put_lock_def
              intro!: key_inv_weaken [OF key] split: if_splits\<close>)
    qed
  qed (use Grant_op key in auto)
next
  case (Release_op owner r)
  have "next_key_id (snd (snd (lock_release owner r m))) = next_key_id m"
    by (simp add: lock_release_def Let_def put_lock_def erase_lock_def split: option.splits)
  moreover have "key_inv (snd (snd (lock_release owner r m)))"
    by (rule key_inv_weaken [OF key])
       (auto simp: lock_release_def Let_def put_lock_def erase_lock_def split: option.splits if_splits)
  ultimately show ?thesis using Release_op by simp
next
  case (Release_all_op owner r)
  have "next_key_id (snd (lock_release_all owner r m)) = next_key_id m"
    by (simp add: lock_release_all_def Let_def put_lock_def erase_lock_def split: option.splits)
  moreover have "key_inv (snd (lock_release_all owner r m))"
    by (rule key_inv_weaken [OF key])
       (auto simp: lock_release_all_def Let_def put_lock_def erase_lock_def split: option.splits if_splits)
  ultimately show ?thesis using Release_all_op by simp
qed

lemma key_inv_run:
  "lock_inv m \<Longrightarrow> key_inv m \<Longrightarrow> unat (next_key_id m) + length cs < 2 ^ 64 \<Longrightarrow>
   key_inv (fold (\<lambda>c m. snd (exec_lock_op c m)) cs m)"
proof (induction cs arbitrary: m)
  case (Cons c cs)
  from key_inv_exec [OF Cons.prems(1,2), of c] exec_lock_op_inv [OF Cons.prems(1), of c] Cons.prems(3)
  show ?case by (auto intro: Cons.IH)
qed simp

section \<open>The whole acquire call\<close>

lemma acquire_wait_others:
  "acquire_wait f g evs op m = (r, op', m') \<Longrightarrow>
   \<exists>cs. Other_thread ` set cs \<subseteq> set evs \<and> m' = fold (\<lambda>c m. snd (exec_lock_op c m)) cs m"
proof (induction f g evs op m rule: acquire_wait.induct)
  case (2 f g c evs op m)
  obtain notified m1 where e: "exec_lock_op c m = (notified, m1)" by (cases "exec_lock_op c m")
  show ?case
  proof (cases "notified \<and> g op m1")
    case True
    with 2(2) e show ?thesis by (intro exI [of _ "[c]"]) simp
  next
    case False
    with 2(1) [OF e [symmetric]] 2(2) e obtain cs where
      "Other_thread ` set cs \<subseteq> set evs" "m' = fold (\<lambda>c m. snd (exec_lock_op c m)) cs m1" by auto
    with e show ?thesis by (intro exI [of _ "c # cs"]) auto
  qed
next
  case (4 f g evs op m)
  then show ?case by (cases "g op m") (auto intro: exI [of _ "[]"])
next
  case (5 f g evs op m)
  then show ?case by (cases f; cases "g op m") (auto intro: exI [of _ "[]"])
qed (auto intro: exI [of _ "[]"])

text \<open>Every outcome of \<open>acquire\<close>: it was refused, timed out or cancelled and has changed nothing, or
  it was granted in a state that the other threads left and that admits the request.\<close>

lemma lock_acquire_cases:
  assumes "lock_acquire owner r lock_type timeout key access_key op evs m = Some (st, key', op', m')"
  obtains (unchanged) cs where "Other_thread ` set cs \<subseteq> set evs"
      and "m' = fold (\<lambda>c m. snd (exec_lock_op c m)) cs m" and "key' = access_key"
      and "st < 0 \<or> operation_done op'"
    | (granted) cs m1 where "Other_thread ` set cs \<subseteq> set evs"
      and "m1 = fold (\<lambda>c m. snd (exec_lock_op c m)) cs m"
      and "lock_type \<in> {VI_EXCLUSIVE_LOCK, VI_SHARED_LOCK}"
      and "can_grant (lock_entry m1 r) owner lock_type key"
      and "acquire_grant owner r lock_type access_key m1 = (st, key', m')"
      and "\<not> operation_done op'"
proof -
  let ?g = "\<lambda>op m. operation_done op \<or> can_grant (lock_entry m r) owner lock_type key"
  obtain res op1 m1 where w: "(if ?g op m then (Ready, op, m)
      else acquire_wait (timeout = VI_TMO_INFINITE) ?g evs op m) = (res, op1, m1)"
    by (metis prod_cases3)
  obtain cs where cs: "Other_thread ` set cs \<subseteq> set evs" "m1 = fold (\<lambda>c m. snd (exec_lock_op c m)) cs m"
  proof (cases "?g op m")
    case True
    with w that [of "[]"] show ?thesis by auto
  next
    case False
    with w acquire_wait_others [of _ ?g evs op m res op1 m1] that show ?thesis by auto
  qed
  have ready: "res = Ready \<Longrightarrow> ?g op1 m1" using w acquire_wait_ready by (fastforce split: if_splits)
  show thesis
  proof (cases "(lock_type \<noteq> VI_EXCLUSIVE_LOCK \<and> lock_type \<noteq> VI_SHARED_LOCK) \<or>
      (lock_type = VI_EXCLUSIVE_LOCK \<and> key \<noteq> None \<and> the key \<noteq> [])")
    case True
    with assms show thesis
      by (intro unchanged [of "[]"]) (auto simp: lock_acquire_def split: if_splits)
  next
    case False
    then have ty: "lock_type \<in> {VI_EXCLUSIVE_LOCK, VI_SHARED_LOCK}" by auto
    from False w assms have "(case res of Blocked \<Rightarrow> None
        | Timed_out \<Rightarrow> Some (VI_ERROR_TMO, access_key, op1, m1)
        | Ready \<Rightarrow> if operation_done op1 then Some (op_result (the op1), access_key, op1, m1)
            else let (status, k, m'') = acquire_grant owner r lock_type access_key m1 in
                 Some (status, k, op1, m'')) = Some (st, key', op', m')"
      by (auto simp: lock_acquire_def Let_def split: if_splits)
    note out = this
    show thesis
    proof (cases res)
      case Ready
      show thesis
      proof (cases "operation_done op1")
        case True
        with out Ready cs show thesis by (intro unchanged [OF cs(1)]) auto
      next
        case nd: False
        with out Ready ready have "acquire_grant owner r lock_type access_key m1 = (st, key', m')" "op' = op1"
          "can_grant (lock_entry m1 r) owner lock_type key" by (auto split: prod.splits)
        with nd cs ty show thesis by (intro granted [OF cs]) auto
      qed
    next
      case Timed_out
      with out cs show thesis by (intro unchanged [OF cs(1)]) auto
    qed (use out in simp)
  qed
qed

lemma acquire_grant_status: "0 \<le> fst (acquire_grant owner r lock_type access_key m)"
  by (simp add: acquire_grant_def Let_def split: prod.splits)

section \<open>Exclusive locks under interference\<close>











section \<open>Properties\<close>




text \<open>C37. A successful \<open>acquire\<close> really holds: whatever the other threads did while it waited, when the
  call returns a non-negative status and its operation was not completed by someone else, the caller
  holds the requested kind of lock, may access the resource, and its nesting depth is one more than
  in the state in which it was granted.\<close>

theorem acquire_success_holds:
  assumes "lock_inv m"
    and "lock_acquire owner r lock_type timeout key access_key op evs m = Some (st, key', op', m')"
    and "st \<ge> VI_SUCCESS" and "\<not> operation_done op'"
  shows "owned_lock_type owner r m' = lock_type \<and> lock_can_access owner r m' \<and>
         (\<exists>cs. Other_thread ` set cs \<subseteq> set evs \<and>
           owned_lock_depth owner r m' =
             owned_lock_depth owner r (fold (\<lambda>c m. snd (exec_lock_op c m)) cs m) + 1)"
  using assms(2)
proof (cases rule: lock_acquire_cases)
  case (unchanged cs)
  with assms(3,4) show ?thesis by simp
next
  case (granted cs m1)
  have inv1: "lock_inv m1" unfolding granted(2) by (rule lock_run.run_inv [OF assms(1)])
  note g = depth_grant [OF inv1 granted(3,4), of access_key, unfolded granted(5)]
  have "owner \<in> lock_holders m' r" using g(2) granted(3) by (auto simp: lock_holders_def)
  with can_access_iff [OF lock_acquire_inv [OF assms(1,2)]] g granted(1,2) show ?thesis by auto
qed

theorem acquire_success_holds_witness:
  "lock_acquire 2 ''R'' VI_EXCLUSIVE_LOCK 100 None [] (None :: unit operation option)
     [Notify, Other_thread (Release_op 1 ''R'')]
     (snd (exec_lock_op (Grant_op 1 ''R'' VI_EXCLUSIVE_LOCK None) lock_manager_empty)) =
     Some (VI_SUCCESS, [], None, snd (exec_lock_op (Grant_op 2 ''R'' VI_EXCLUSIVE_LOCK None) lock_manager_empty)) \<and>
   owned_lock_type 2 ''R'' (snd (exec_lock_op (Grant_op 2 ''R'' VI_EXCLUSIVE_LOCK None) lock_manager_empty))
     = VI_EXCLUSIVE_LOCK"
proof -
  have inv: "lock_inv (snd (exec_lock_op (Grant_op 1 ''R'' VI_EXCLUSIVE_LOCK None) lock_manager_empty))"
    by (rule exec_lock_op_inv) simp
  have a: "lock_acquire 2 ''R'' VI_EXCLUSIVE_LOCK 100 None [] (None :: unit operation option)
     [Notify, Other_thread (Release_op 1 ''R'')]
     (snd (exec_lock_op (Grant_op 1 ''R'' VI_EXCLUSIVE_LOCK None) lock_manager_empty)) =
     Some (VI_SUCCESS, [], None, snd (exec_lock_op (Grant_op 2 ''R'' VI_EXCLUSIVE_LOCK None) lock_manager_empty))"
    by (simp add: lock_acquire_def lock_manager_empty_def lock_simps can_grant_def acquire_grant_def
        operation_done_def lock_release_def)
  show ?thesis using acquire_success_holds [OF inv a] a by (simp add: operation_done_def)
qed

text \<open>A failed \<open>acquire\<close> changes nothing: when the call returns an error (bad lock type, bad key,
  timeout or cancellation), the manager is what the other threads made of it, and the caller's
  access key is untouched.\<close>

theorem acquire_failure_changes_nothing:
  assumes "lock_acquire owner r lock_type timeout key access_key op evs m = Some (st, key', op', m')"
    and "st < VI_SUCCESS"
  shows "key' = access_key \<and>
         (\<exists>cs. Other_thread ` set cs \<subseteq> set evs \<and> m' = fold (\<lambda>c m. snd (exec_lock_op c m)) cs m)"
  using assms(1)
proof (cases rule: lock_acquire_cases)
  case (granted cs m1)
  with acquire_grant_status [of owner r lock_type access_key m1] assms(2) show ?thesis by simp
qed auto

theorem acquire_failure_changes_nothing_witness:
  "lock_acquire 1 ''R'' VI_EXCLUSIVE_LOCK 100 (Some ''k'') ''old'' (None :: unit operation option) [] lock_manager_empty
     = Some (VI_ERROR_INV_ACCESS_KEY, ''old'', None, lock_manager_empty) \<and>
   (\<exists>cs. Other_thread ` set cs \<subseteq> {} \<and>
      lock_manager_empty = fold (\<lambda>c m. snd (exec_lock_op c m)) cs lock_manager_empty)"
proof -
  have a: "lock_acquire 1 ''R'' VI_EXCLUSIVE_LOCK 100 (Some ''k'') ''old'' (None :: unit operation option) [] lock_manager_empty
     = Some (VI_ERROR_INV_ACCESS_KEY, ''old'', None, lock_manager_empty)"
    by (simp add: lock_acquire_def)
  show ?thesis using acquire_failure_changes_nothing [OF a] a by simp
qed

text \<open>Releasing undoes acquiring: granting a grantable request and then releasing once gives back
  exactly the lock table from before, nested or not, for exclusive and shared locks, as long as the
  32-bit nesting counter of a current holder has not wrapped to zero.\<close>

theorem release_undoes_grant:
  assumes "lock_inv m" and "lock_type \<in> {VI_EXCLUSIVE_LOCK, VI_SHARED_LOCK}"
    and "can_grant (lock_entry m r) owner lock_type key"
    and "owner \<in> lock_holders m r \<Longrightarrow> owned_lock_depth owner r m \<noteq> 0"
    and "acquire_grant owner r lock_type access_key m = (st, key', m')"
    and "lock_release owner r m' = (st', notified, m'')"
  shows "lm_locks m'' = lm_locks m"
  using release_after_grant [OF assms(1-4), of access_key] assms(5,6) by simp

theorem release_undoes_grant_witness:
  "lock_inv lock_manager_empty \<and>
   (\<exists>st key' m' st' n m''. acquire_grant 1 ''R'' VI_SHARED_LOCK [] lock_manager_empty = (st, key', m') \<and>
      lock_release 1 ''R'' m' = (st', n, m'') \<and> lm_locks m'' = lm_locks lock_manager_empty)"
proof -
  obtain st key' m' where a: "acquire_grant 1 ''R'' VI_SHARED_LOCK [] lock_manager_empty = (st, key', m')"
    by (metis prod_cases3)
  obtain st' n m'' where b: "lock_release 1 ''R'' m' = (st', n, m'')" by (metis prod_cases3)
  have g: "can_grant (lock_entry lock_manager_empty ''R'') 1 VI_SHARED_LOCK None"
    by (simp add: can_grant_def lock_simps lock_manager_empty_def)
  have h: "1 \<in> lock_holders lock_manager_empty ''R'' \<Longrightarrow> owned_lock_depth 1 ''R'' lock_manager_empty \<noteq> 0"
    by (simp add: lock_holders_eq lock_manager_empty_def)
  have "lm_locks m'' = lm_locks lock_manager_empty"
    by (rule release_undoes_grant [OF lock_inv_empty _ g h a b]) simp
  with a b show ?thesis by auto
qed

text \<open>C20. No release loses a wake-up: whenever \<open>release\<close> or \<open>release_all\<close> turns a request that was not
  grantable into a grantable one, it notifies the condition variable on which that request waits.\<close>

theorem release_notifies_whom_it_enables:
  assumes "lock_inv m" and "c = Release_op owner r \<or> c = Release_all_op owner r"
    and "exec_lock_op c m = (notified, m')"
    and "\<not> can_grant (lock_entry m r') w lock_type key"
    and "can_grant (lock_entry m' r') w lock_type key"
  shows "notified"
proof (rule ccontr)
  assume "\<not> notified"
  with assms release_unnotified [of owner r m _ m' r' w lock_type key]
    release_all_unnotified [OF assms(1), of owner r m'] show False
    by (metis exec_lock_op.simps(2,3) prod.collapse)
qed

theorem release_notifies_whom_it_enables_witness:
  "fst (exec_lock_op (Release_op 1 ''R'')
     (snd (exec_lock_op (Grant_op 1 ''R'' VI_EXCLUSIVE_LOCK None) lock_manager_empty)))"
proof -
  let ?m = "snd (exec_lock_op (Grant_op 1 ''R'' VI_EXCLUSIVE_LOCK None) lock_manager_empty)"
  have inv: "lock_inv ?m" by (rule exec_lock_op_inv) simp
  have c: "Release_op 1 ''R'' = Release_op 1 ''R'' \<or> Release_op 1 ''R'' = Release_all_op 1 ''R''" by simp
  have no: "\<not> can_grant (lock_entry ?m ''R'') 2 VI_SHARED_LOCK None"
    by (simp add: lock_manager_empty_def lock_simps can_grant_def acquire_grant_def)
  have yes: "can_grant (lock_entry (snd (exec_lock_op (Release_op 1 ''R'') ?m)) ''R'') 2 VI_SHARED_LOCK None"
    by (simp add: lock_manager_empty_def lock_simps can_grant_def acquire_grant_def lock_release_def)
  show ?thesis
    by (rule release_notifies_whom_it_enables [OF inv c _ no yes]) (rule prod.collapse [symmetric])
qed

text \<open>A grant is not announced: when session 2 is granted a shared lock with the right key, a second
  request of session 2 without a key becomes grantable, but no notification is sent, and with an
  infinite timeout that request is still blocked.\<close>

theorem grant_does_not_wake_own_waiter:
  "let m = snd (exec_lock_op (Grant_op 1 ''R'' VI_SHARED_LOCK None) lock_manager_empty);
       grant = Grant_op 2 ''R'' VI_SHARED_LOCK (Some ''WRVISA-1'') in
   \<not> can_grant (lock_entry m ''R'') 2 VI_SHARED_LOCK None \<and>
   can_grant (lock_entry (snd (exec_lock_op grant m)) ''R'') 2 VI_SHARED_LOCK None \<and>
   \<not> fst (exec_lock_op grant m) \<and>
   lock_acquire 2 ''R'' VI_SHARED_LOCK VI_TMO_INFINITE None [] (None :: unit operation option)
     [Other_thread grant] m = None"
  by (simp add: lock_manager_empty_def lock_simps can_grant_def acquire_grant_def lock_acquire_def
      operation_done_def)

text \<open>Access keys are unique: after fewer than \<open>2^64 - 1\<close> lock operations, two shared locks of
  different resources never have the same access key.\<close>

theorem access_keys_unique:
  assumes "m = fold (\<lambda>c m. snd (exec_lock_op c m)) cs lock_manager_empty"
    and "length cs < 2 ^ 64 - 1"
    and "lm_locks m r = Some s" and "ls_type s = VI_SHARED_LOCK"
    and "lm_locks m r' = Some s'" and "ls_type s' = VI_SHARED_LOCK" and "r \<noteq> r'"
  shows "shared_key s \<noteq> shared_key s'"
proof -
  have "key_inv lock_manager_empty" by (simp add: key_inv_def lock_manager_empty_def)
  then have "key_inv m" unfolding assms(1)
    by (rule key_inv_run [OF lock_inv_empty]) (use assms(2) in \<open>simp add: lock_manager_empty_def\<close>)
  from key_invE [OF this assms(3)] assms(4-7) show ?thesis by (metis VI_SHARED_LOCK_def)
qed

definition two_shared_locks :: lock_manager where
  "two_shared_locks = fold (\<lambda>c m. snd (exec_lock_op c m))
     [Grant_op 1 ''R'' VI_SHARED_LOCK None, Grant_op 1 ''S'' VI_SHARED_LOCK None] lock_manager_empty"

theorem access_keys_unique_witness:
  "\<exists>s s'. lm_locks two_shared_locks ''R'' = Some s \<and> lm_locks two_shared_locks ''S'' = Some s' \<and>
          shared_key s \<noteq> shared_key s'"
proof -
  obtain s s' where s: "lm_locks two_shared_locks ''R'' = Some s" "ls_type s = VI_SHARED_LOCK"
    and s': "lm_locks two_shared_locks ''S'' = Some s'" "ls_type s' = VI_SHARED_LOCK"
    by (simp add: two_shared_locks_def lock_manager_empty_def lock_simps can_grant_def acquire_grant_def)
  have "''R'' \<noteq> ''S''" by simp
  with access_keys_unique [OF two_shared_locks_def _ s s'] s s' show ?thesis by auto
qed

end
