(* ===== verification/Resource_Parser.thy ===== *)
theory Resource_Parser
  imports Visa_Prelude
begin

text \<open>
  The resource-string parser of \<open>src/resource/resource_parser.{h,cpp}\<close>: splitting a resource string
  at \<open>::\<close> outside brackets, the grammars of the five families of resource names, and the canonical
  name each descriptor carries. The functions follow the source line by line; \<open>None\<close> is
  \<open>std::nullopt\<close>, and the empty list returned by \<open>split\<close> is its failure. The lemmas characterise
  the strings the splitter accepts and relate a descriptor to its canonical name.
\<close>

section \<open>Descriptors\<close>

datatype resource_kind =
    Asrl_instr | Gpib_instr | Gpib_intfc | Tcpip_instr | Tcpip_socket | Usb_instr | Usb_raw
  | Project_mock

datatype tcpip_protocol = Tcpip_none | Vxi11 | Hislip | Tcpip_unsupported

record resource_descriptor =
  rd_kind :: resource_kind
  interface_type :: u16
  interface_number :: u16
  resource_class :: string
  canonical_name :: string
  rd_host :: string
  rd_port :: u16
  device_name :: string
  rd_tcpip_protocol :: tcpip_protocol
  usb_vendor_id :: u16
  usb_product_id :: u16
  usb_serial_number :: string
  usb_interface_number :: u16
  gpib_primary_address :: u16
  gpib_secondary_address :: u16
  gpib_has_secondary_address :: bool

text \<open>The aggregate initialisation shared by all families: the members not named are zero, empty
  or \<open>none\<close>.\<close>

definition descriptor ::
  "resource_kind \<Rightarrow> u16 \<Rightarrow> u16 \<Rightarrow> string \<Rightarrow> string \<Rightarrow> resource_descriptor" where
  "descriptor kind intf board cls canonical =
     \<lparr>rd_kind = kind, interface_type = intf, interface_number = board, resource_class = cls,
      canonical_name = canonical, rd_host = [], rd_port = 0, device_name = [],
      rd_tcpip_protocol = Tcpip_none, usb_vendor_id = 0, usb_product_id = 0,
      usb_serial_number = [], usb_interface_number = 0, gpib_primary_address = 0,
      gpib_secondary_address = 0, gpib_has_secondary_address = False\<rparr>"

section \<open>Splitting\<close>

text \<open>The loop of \<open>split\<close>: whether the scan is inside brackets, the part read so far
  (\<open>value[start, index)\<close>), the parts already pushed, and the unread input.\<close>

fun split_loop :: "bool \<Rightarrow> string \<Rightarrow> string list \<Rightarrow> string \<Rightarrow> string list" where
  "split_loop bracketed part parts [] =
     (if part = [] then [] else if bracketed then [] else parts @ [part])"
| "split_loop bracketed part parts (c # rest) =
     (if c = CHR ''['' then
        if bracketed then [] else split_loop True (part @ [c]) parts rest
      else if c = CHR '']'' then
        if \<not> bracketed then [] else split_loop False (part @ [c]) parts rest
      else if \<not> bracketed \<and> rest \<noteq> [] \<and> c = CHR '':'' \<and> hd rest = CHR '':'' then
        if part = [] then [] else split_loop bracketed [] (parts @ [part]) (tl rest)
      else split_loop bracketed (part @ [c]) parts rest)"

definition split_resource :: "string \<Rightarrow> string list" where
  "split_resource value = split_loop False [] [] value"

section \<open>Numbers and prefixes\<close>

definition parse_decimal :: "string \<Rightarrow> nat \<Rightarrow> u16 option" where
  "parse_decimal value maximum =
     (if value = [] then None
      else case from_chars 10 (2 ^ 32) value of
        None \<Rightarrow> None
      | Some (parsed, rest) \<Rightarrow>
          if rest \<noteq> [] \<or> parsed > maximum then None else Some (of_nat parsed))"

definition parse_hex_id :: "string \<Rightarrow> u16 option" where
  "parse_hex_id value =
     (if length value \<noteq> 6 \<or> value ! 0 \<noteq> CHR ''0'' \<or>
         (value ! 1 \<noteq> CHR ''x'' \<and> value ! 1 \<noteq> CHR ''X'') then None
      else case from_chars 16 (2 ^ 32) (drop 2 value) of
        None \<Rightarrow> None
      | Some (parsed, rest) \<Rightarrow>
          if rest \<noteq> [] \<or> parsed > 65535 then None else Some (of_nat parsed))"

definition parse_prefix :: "string \<Rightarrow> string \<Rightarrow> u16 option" where
  "parse_prefix token name =
     (if length token < length name \<or> upper_string (take (length name) token) \<noteq> name then None
      else let suffix = drop (length name) token in
        if suffix = [] then Some 0 else parse_decimal suffix 65535)"

definition board_prefix :: "string \<Rightarrow> u16 \<Rightarrow> string" where
  "board_prefix name board = name @ to_string (unat board)"

definition starts_with :: "string \<Rightarrow> string \<Rightarrow> bool" where
  "starts_with p s \<longleftrightarrow> take (length p) s = p"

definition tcpip_protocol_of :: "string \<Rightarrow> tcpip_protocol" where
  "tcpip_protocol_of device =
     (let name = upper_string device in
      if starts_with ''HISLIP'' name then
        if length name = 6 \<or> \<not> list_all isalnum (drop 6 name) then Tcpip_unsupported else Hislip
      else if starts_with ''INST'' name \<or> starts_with ''VXI'' name \<or> starts_with ''GPIB'' name
      then Vxi11
      else Tcpip_unsupported)"

section \<open>The families of resource names\<close>

definition parse_asrl :: "string list \<Rightarrow> resource_descriptor option" where
  "parse_asrl parts =
     (case parse_prefix (parts ! 0) ''ASRL'' of
        None \<Rightarrow> None
      | Some board \<Rightarrow>
          if length parts > 2 \<or> (length parts = 2 \<and> upper_string (parts ! 1) \<noteq> ''INSTR'') then None
          else Some (descriptor Asrl_instr VI_INTF_ASRL board ''INSTR''
                       (board_prefix ''ASRL'' board @ ''::INSTR'')))"

definition parse_gpib :: "string list \<Rightarrow> resource_descriptor option" where
  "parse_gpib parts =
     (case parse_prefix (parts ! 0) ''GPIB'' of
        None \<Rightarrow> None
      | Some board \<Rightarrow>
          if length parts < 2 \<or> length parts > 4 then None
          else if length parts = 2 \<and> upper_string (parts ! 1) = ''INTFC'' then
            Some (descriptor Gpib_intfc VI_INTF_GPIB board ''INTFC''
                    (board_prefix ''GPIB'' board @ ''::INTFC''))
          else case parse_decimal (parts ! 1) 30 of
            None \<Rightarrow> None
          | Some primary \<Rightarrow>
              let wants_secondary = (length parts \<ge> 3 \<and> upper_string (parts ! 2) \<noteq> ''INSTR'');
                  secondary = (if wants_secondary then parse_decimal (parts ! 2) 30 else None);
                  expected_size = (if secondary \<noteq> None then 4 else 3) in
              if wants_secondary \<and> secondary = None then None
              else if length parts = expected_size \<and> upper_string (last parts) \<noteq> ''INSTR'' then None
              else if length parts > expected_size \<or> (length parts = 4 \<and> secondary = None) then None
              else
                let canonical = board_prefix ''GPIB'' board @ ''::'' @ to_string (unat primary) @
                      (case secondary of None \<Rightarrow> [] | Some s \<Rightarrow> ''::'' @ to_string (unat s)) @
                      ''::INSTR'';
                    d = (descriptor Gpib_instr VI_INTF_GPIB board ''INSTR'' canonical)
                          \<lparr>gpib_primary_address := primary\<rparr> in
                Some (case secondary of
                        None \<Rightarrow> d
                      | Some s \<Rightarrow> d\<lparr>gpib_secondary_address := s, gpib_has_secondary_address := True\<rparr>))"

definition parse_tcpip :: "string list \<Rightarrow> resource_descriptor option" where
  "parse_tcpip parts =
     (case parse_prefix (parts ! 0) ''TCPIP'' of
        None \<Rightarrow> None
      | Some board \<Rightarrow>
          if length parts < 2 \<or> length parts > 4 \<or> parts ! 1 = [] then None
          else
            let display_host = parts ! 1;
                bracketed = (length display_host \<ge> 2 \<and> hd display_host = CHR ''['' \<and>
                             last display_host = CHR '']'');
                host = (if bracketed then butlast (tl display_host) else display_host) in
            if \<not> bracketed \<and> CHR '':'' \<in> set host then None
            else if host = [] then None
            else if length parts = 4 \<and> upper_string (parts ! 3) = ''SOCKET'' then
              (case parse_decimal (parts ! 2) 65535 of
                 None \<Rightarrow> None
               | Some port \<Rightarrow>
                   if port = 0 then None
                   else Some ((descriptor Tcpip_socket VI_INTF_TCPIP board ''SOCKET''
                                 (board_prefix ''TCPIP'' board @ ''::'' @ display_host @ ''::'' @
                                  to_string (unat port) @ ''::SOCKET''))
                                \<lparr>rd_host := host, rd_port := port\<rparr>))
            else if length parts = 4 \<and> upper_string (parts ! 3) \<noteq> ''INSTR'' then None
            else
              let device = (if length parts = 3 \<and> upper_string (parts ! 2) \<noteq> ''INSTR'' then parts ! 2
                            else if length parts = 4 then parts ! 2
                            else ''inst0'') in
              Some ((descriptor Tcpip_instr VI_INTF_TCPIP board ''INSTR''
                       (board_prefix ''TCPIP'' board @ ''::'' @ display_host @ ''::'' @ device @
                        ''::INSTR''))
                      \<lparr>rd_host := host, device_name := device,
                       rd_tcpip_protocol := tcpip_protocol_of device\<rparr>))"

text \<open>\<open>std::hex << std::uppercase << std::setw(4) << std::setfill('0')\<close>.\<close>

definition hex4 :: "u16 \<Rightarrow> string" where
  "hex4 w = (let s = print_radix 16 (unat w) in replicate (4 - length s) (CHR ''0'') @ s)"

definition parse_usb :: "string list \<Rightarrow> resource_descriptor option" where
  "parse_usb parts =
     (case parse_prefix (parts ! 0) ''USB'' of
        None \<Rightarrow> None
      | Some board \<Rightarrow>
          if length parts < 4 \<or> length parts > 6 then None
          else case (parse_hex_id (parts ! 1), parse_hex_id (parts ! 2)) of
            (Some vendor, Some product) \<Rightarrow>
              if parts ! 3 = [] then None
              else
                let wants_interface = (length parts \<ge> 5 \<and> upper_string (parts ! 4) \<noteq> ''INSTR'' \<and>
                                       upper_string (parts ! 4) \<noteq> ''RAW'');
                    parsed = (if wants_interface then parse_decimal (parts ! 4) 65535 else None) in
                if wants_interface \<and> parsed = None then None
                else
                  let interface_nr = (case parsed of None \<Rightarrow> 0 | Some n \<Rightarrow> n);
                      has_interface = (parsed \<noteq> None);
                      class_index = (if has_interface then 5 else 4);
                      cls = (if length parts > class_index then upper_string (parts ! class_index)
                             else ''INSTR'') in
                  if length parts > class_index \<and> cls \<noteq> ''INSTR'' \<and> cls \<noteq> ''RAW'' then None
                  else if length parts > class_index + 1 \<or> (length parts = 6 \<and> \<not> has_interface) then None
                  else
                    Some ((descriptor (if cls = ''RAW'' then Usb_raw else Usb_instr) VI_INTF_USB board cls
                             (''USB'' @ to_string (unat board) @ ''::0x'' @ hex4 vendor @ ''::0x'' @
                              hex4 product @ ''::'' @ parts ! 3 @ ''::'' @
                              to_string (unat interface_nr) @ ''::'' @ cls))
                            \<lparr>usb_vendor_id := vendor, usb_product_id := product,
                             usb_serial_number := parts ! 3, usb_interface_number := interface_nr\<rparr>)
          | _ \<Rightarrow> None)"

definition parse_resource :: "string \<Rightarrow> resource_descriptor option" where
  "parse_resource value =
     (if value = [] \<or> length value \<ge> VI_FIND_BUFLEN then None
      else if upper_string value = WRVISA_MOCK_RESOURCE then
        Some (descriptor Project_mock WRVISA_INTF_MOCK 0 ''INSTR'' WRVISA_MOCK_RESOURCE)
      else let parts = split_resource value in
        if parts = [] then None
        else let first = upper_string (parts ! 0) in
          if starts_with ''ASRL'' first then parse_asrl parts
          else if starts_with ''GPIB'' first then parse_gpib parts
          else if starts_with ''TCPIP'' first then parse_tcpip parts
          else if starts_with ''USB'' first then parse_usb parts
          else None)"

section \<open>What the splitter accepts\<close>

text \<open>A string that the scan reads as (the rest of) one part: its brackets match without nesting and
  no \<open>::\<close> stands outside them. The first argument says whether the scan starts inside brackets.\<close>

fun one_part :: "bool \<Rightarrow> string \<Rightarrow> bool" where
  "one_part b [] = (\<not> b)"
| "one_part b (c # rest) =
     (if c = CHR ''['' then \<not> b \<and> one_part True rest
      else if c = CHR '']'' then b \<and> one_part False rest
      else \<not> (\<not> b \<and> rest \<noteq> [] \<and> c = CHR '':'' \<and> hd rest = CHR '':'') \<and> one_part b rest)"

text \<open>A list of parts: each is read as one part, and no part but the last ends in a colon.\<close>

fun parts_ok :: "string list \<Rightarrow> bool" where
  "parts_ok [] = False"
| "parts_ok [p] = (p \<noteq> [] \<and> one_part False p)"
| "parts_ok (p # q # ps) =
     (p \<noteq> [] \<and> one_part False p \<and> last p \<noteq> CHR '':'' \<and> parts_ok (q # ps))"

fun join_parts :: "string list \<Rightarrow> string" where
  "join_parts [] = []"
| "join_parts [p] = p"
| "join_parts (p # q # ps) = p @ ''::'' @ join_parts (q # ps)"

lemma join_parts_Cons: "ps \<noteq> [] \<Longrightarrow> join_parts (p # ps) = p @ ''::'' @ join_parts ps"
  by (cases ps) auto

lemma split_loop_end:
  "one_part b q \<Longrightarrow> part @ q \<noteq> [] \<Longrightarrow> split_loop b part parts q = parts @ [part @ q]"
  by (induction q arbitrary: b part) (auto split: if_splits)

lemma split_loop_separator:
  "one_part b q \<Longrightarrow> part @ q \<noteq> [] \<Longrightarrow> q = [] \<or> last q \<noteq> CHR '':'' \<Longrightarrow>
   split_loop b part parts (q @ CHR '':'' # CHR '':'' # rest) =
     split_loop False [] (parts @ [part @ q]) rest"
proof (induction q arbitrary: b part)
  case (Cons c q)
  then show ?case by (cases "q = []") (auto split: if_splits)
qed simp

lemma split_loop_join: "parts_ok ps \<Longrightarrow> split_loop False [] acc (join_parts ps) = acc @ ps"
proof (induction ps arbitrary: acc rule: parts_ok.induct)
  case (3 p q ps)
  then show ?case by (simp add: split_loop_separator [of _ p "[]"])
qed (auto simp: split_loop_end)

definition split_result :: "bool \<Rightarrow> string \<Rightarrow> string list \<Rightarrow> string \<Rightarrow> string list \<Rightarrow> bool" where
  "split_result b part parts s ps \<longleftrightarrow>
     (\<exists>q qs. ps = parts @ (part @ q) # qs \<and> s = join_parts (q # qs) \<and> one_part b q \<and>
        part @ q \<noteq> [] \<and> (qs \<noteq> [] \<longrightarrow> (q = [] \<or> last q \<noteq> CHR '':'') \<and> parts_ok qs))"

lemma split_result_step:
  assumes "split_result b' (part @ [c]) parts rest ps"
    and "\<not> (\<not> b \<and> rest \<noteq> [] \<and> c = CHR '':'' \<and> hd rest = CHR '':'')"
    and "c = CHR ''['' \<and> \<not> b \<and> b' \<or> c = CHR '']'' \<and> b \<and> \<not> b' \<or>
         c \<noteq> CHR ''['' \<and> c \<noteq> CHR '']'' \<and> b' = b"
  shows "split_result b part parts (c # rest) ps"
proof -
  from assms(1) obtain q qs where q: "ps = parts @ (part @ c # q) # qs" "rest = join_parts (q # qs)"
    "one_part b' q" "qs \<noteq> [] \<longrightarrow> (q = [] \<or> last q \<noteq> CHR '':'') \<and> parts_ok qs"
    by (auto simp: split_result_def)
  have rest: "rest = q @ (if qs = [] then [] else CHR '':'' # CHR '':'' # join_parts qs)"
    using q(2) by (cases qs) auto
  have "c # rest = join_parts ((c # q) # qs)" using q(2) by (cases qs) auto
  moreover have "one_part b (c # q)"
    using assms(2,3) q(3) rest by (cases "q = []") auto
  moreover have "qs \<noteq> [] \<longrightarrow> last (c # q) \<noteq> CHR '':''"
    using assms(2,3) q(3,4) rest by (cases "q = []") auto
  ultimately show ?thesis using q(1,4) unfolding split_result_def by fastforce
qed

lemma split_result_separator:
  assumes "split_result False [] (parts @ [part]) rest ps" and "part \<noteq> []"
  shows "split_result False part parts (CHR '':'' # CHR '':'' # rest) ps"
proof -
  from assms(1) obtain q qs where q: "ps = (parts @ [part]) @ q # qs" "rest = join_parts (q # qs)"
    "one_part False q" "q \<noteq> []" "qs \<noteq> [] \<longrightarrow> last q \<noteq> CHR '':'' \<and> parts_ok qs"
    by (auto simp: split_result_def)
  then have "parts_ok (q # qs)" by (cases qs) auto
  with q assms(2) show ?thesis unfolding split_result_def
    by (intro exI [of _ "[]"] exI [of _ "q # qs"]) auto
qed

lemma split_loop_result:
  "split_loop b part parts s = ps \<Longrightarrow> ps \<noteq> [] \<Longrightarrow> split_result b part parts s ps"
proof (induction b part parts s rule: split_loop.induct)
  case (1 b part parts)
  then show ?case by (auto simp: split_result_def split: if_splits)
next
  case (2 b part parts c rest)
  show ?case
  proof (cases "\<not> b \<and> rest \<noteq> [] \<and> c = CHR '':'' \<and> hd rest = CHR '':''")
    case True
    then obtain rest' where r: "rest = CHR '':'' # rest'" by (cases rest) auto
    with True 2 show ?thesis by (auto intro: split_result_separator split: if_splits)
  next
    case False
    with 2 show ?thesis
      by (auto split: if_splits intro: split_result_step)
  qed
qed

lemma split_resource_ok:
  assumes "split_resource s = ps" and "ps \<noteq> []"
  shows "s = join_parts ps" and "parts_ok ps"
proof -
  have "split_result False [] [] s ps"
    using assms by (simp add: split_resource_def split_loop_result)
  then obtain q qs where "ps = q # qs" "s = join_parts (q # qs)" "one_part False q" "q \<noteq> []"
    "qs \<noteq> [] \<longrightarrow> last q \<noteq> CHR '':'' \<and> parts_ok qs"
    by (auto simp: split_result_def)
  then show "s = join_parts ps" "parts_ok ps" by (cases qs; auto)+
qed

lemma split_resource_join: "parts_ok ps \<Longrightarrow> split_resource (join_parts ps) = ps"
  by (simp add: split_resource_def split_loop_join)

lemma parts_ok_nth:
  "parts_ok ps \<Longrightarrow> i < length ps \<Longrightarrow>
   ps ! i \<noteq> [] \<and> one_part False (ps ! i) \<and> (Suc i < length ps \<longrightarrow> last (ps ! i) \<noteq> CHR '':'')"
proof (induction ps arbitrary: i rule: parts_ok.induct)
  case (3 p q ps)
  then show ?case by (cases i) auto
qed auto

lemma parts_ok_part:
  assumes "parts_ok ps" and "i < length ps" and "last (join_parts ps) \<noteq> CHR '':''"
  shows "ps ! i \<noteq> [] \<and> one_part False (ps ! i) \<and> last (ps ! i) \<noteq> CHR '':''"
proof -
  have "last (join_parts ps) = last (last ps)"
    using assms(1) by (induction ps rule: parts_ok.induct) (auto simp: join_parts_Cons)
  moreover have "ps ! i = last ps" if "\<not> Suc i < length ps"
    using that assms(2) by (cases ps rule: rev_cases) (auto simp: nth_append)
  ultimately show ?thesis using parts_ok_nth [OF assms(1,2)] assms(3) by metis
qed

section \<open>Printing and parsing the fields\<close>

text \<open>A string none of whose characters means anything to the splitter.\<close>

definition plain :: "string \<Rightarrow> bool" where
  "plain s \<longleftrightarrow> s \<noteq> [] \<and> list_all (\<lambda>c. c \<noteq> CHR ''['' \<and> c \<noteq> CHR '']'' \<and> c \<noteq> CHR '':'') s"

lemma plain_one_part: "plain s \<Longrightarrow> s \<noteq> [] \<and> one_part False s \<and> last s \<noteq> CHR '':''"
proof -
  have "list_all (\<lambda>c. c \<noteq> CHR ''['' \<and> c \<noteq> CHR '']'' \<and> c \<noteq> CHR '':'') s \<Longrightarrow> one_part False s"
    by (induction s) auto
  then show "plain s \<Longrightarrow> ?thesis" by (auto simp: plain_def list_all_iff)
qed

lemma radix_digit_not_special: "\<not> radix_digit 16 (CHR ''['')" "\<not> radix_digit 16 (CHR '']'')"
  "\<not> radix_digit 16 (CHR '':'')"
  by (simp_all add: radix_digit_def digit_value_def)

lemma radix_digit_mono: "radix_digit b c \<Longrightarrow> b \<le> b' \<Longrightarrow> radix_digit b' c"
  by (auto simp: radix_digit_def split: option.splits)

lemma digits_plain: "s \<noteq> [] \<Longrightarrow> list_all (radix_digit 16) s \<Longrightarrow> plain s"
  by (auto simp: plain_def list_all_iff radix_digit_not_special)

lemma print_digits: "2 \<le> b \<Longrightarrow> b \<le> 16 \<Longrightarrow> list_all (radix_digit 16) (print_radix b n)"
  by (auto simp: list_all_iff intro: radix_digit_mono dest!: print_radix_digits [rotated 2])

lemma to_string_plain [simp]: "plain (to_string n)"
  by (intro digits_plain print_digits) simp_all

lemma plain_append: "plain s \<Longrightarrow> plain t \<Longrightarrow> plain (s @ t)"
  by (simp add: plain_def)

lemma upper_to_string [simp]: "upper_string (to_string n) = to_string n"
proof -
  have "toupper c = c" if "radix_digit 10 c" for c
    using that by (auto simp: radix_digit_def digit_value_def toupper_def Let_def split: if_splits)
  with print_radix_digits [of 10 _ n] show ?thesis by (simp add: map_idI)
qed

lemma to_string_not_word:
  assumes "\<not> radix_digit 10 c" shows "to_string n \<noteq> c # s"
  using print_radix_digits [of 10 c n] assms by auto

lemma to_string_not_class [simp]:
  "to_string n \<noteq> ''INSTR''" "to_string n \<noteq> ''RAW''" "to_string n \<noteq> ''INTFC''"
  by (rule to_string_not_word, simp add: radix_digit_def digit_value_def)+

lemma parse_decimal_print:
  assumes "unat w \<le> maximum"
  shows "parse_decimal (to_string (unat w)) maximum = Some w"
proof -
  have "unat w < 2 ^ 32" using unsigned_less [of w, where ?'a = nat] by simp
  then show ?thesis using assms by (simp add: parse_decimal_def from_chars_print)
qed

lemma parse_decimal_bound:
  assumes "parse_decimal s maximum = Some w" and "maximum \<le> 65535"
  shows "unat w \<le> maximum"
proof -
  from assms(1) obtain n where "n \<le> maximum" and "w = of_nat n"
    by (auto simp: parse_decimal_def not_less split: if_splits option.splits)
  with assms(2) show ?thesis by (simp add: unat_of_nat take_bit_eq_mod)
qed

lemma u16_bound [simp]: "unat (w :: u16) \<le> 65535"
  using unsigned_less [of w, where ?'a = nat] by simp

lemma parse_prefix_board: "upper_string name = name \<Longrightarrow> parse_prefix (board_prefix name b) name = Some b"
  by (simp add: parse_prefix_def board_prefix_def parse_decimal_print)

lemma length_hex: "0 < k \<Longrightarrow> n < 16 ^ k \<Longrightarrow> length (print_radix 16 n) \<le> k"
proof (induction k arbitrary: n)
  case (Suc k)
  show ?case
  proof (cases "n < 16")
    case True
    then show ?thesis by (subst print_radix.simps) simp
  next
    case False
    with Suc.prems have "0 < k" by (cases k) auto
    moreover have "n div 16 < 16 ^ k" using Suc.prems by (simp add: less_mult_imp_div_less mult.commute)
    ultimately have "length (print_radix 16 (n div 16)) \<le> k" by (rule Suc.IH)
    with False show ?thesis by (subst print_radix.simps) simp
  qed
qed simp

lemma hex4_props: "length (hex4 w) = 4" "list_all (radix_digit 16) (hex4 w)" "radix_value 16 (hex4 w) = unat w"
proof -
  have "unat w < 16 ^ 4" using unsigned_less [of w, where ?'a = nat] by simp
  then have "length (print_radix 16 (unat w)) \<le> 4" by (rule length_hex [rotated]) simp
  then show "length (hex4 w) = 4" by (simp add: hex4_def Let_def)
  have "radix_digit 16 (CHR ''0'')" by (simp add: radix_digit_def digit_value_def)
  with print_digits [of 16 "unat w"] show "list_all (radix_digit 16) (hex4 w)"
    by (auto simp: hex4_def Let_def list_all_iff)
  have "radix_value b (replicate k (CHR ''0'') @ s) = radix_value b s" for b k s
    by (induction k) (simp_all add: radix_value_def digit_value_def)
  then show "radix_value 16 (hex4 w) = unat w" by (simp add: hex4_def Let_def radix_value_print)
qed

lemma parse_hex_id_print: "parse_hex_id (''0x'' @ hex4 w) = Some w"
proof -
  have [simp]: "takeWhile (radix_digit 16) (hex4 w) = hex4 w"
    using hex4_props(2) by (simp add: takeWhile_eq_all_conv list_all_iff)
  have "unat w < 2 ^ 32" using unsigned_less [of w, where ?'a = nat] by simp
  moreover have "hex4 w \<noteq> []" using hex4_props(1) [of w] by auto
  ultimately show ?thesis
    using hex4_props(1) [of w] by (simp add: parse_hex_id_def from_chars_def hex4_props not_less Let_def)
qed

section \<open>Canonical names\<close>

text \<open>The canonical name of a family's descriptor: the join of parts the same family reads back as
  the same descriptor.\<close>

definition reads_back ::
  "(string list \<Rightarrow> resource_descriptor option) \<Rightarrow> string \<Rightarrow> resource_descriptor \<Rightarrow> bool" where
  "reads_back parse name d \<longleftrightarrow>
     (\<exists>ps b. canonical_name d = join_parts ps \<and> parts_ok ps \<and> parse ps = Some d \<and>
        ps ! 0 = board_prefix name b)"

lemma board_prefix_plain: "plain name \<Longrightarrow> plain (board_prefix name b)"
  by (simp add: board_prefix_def plain_append)

lemma plain_names [simp]: "plain ''ASRL''" "plain ''GPIB''" "plain ''TCPIP''" "plain ''USB''"
  "plain ''INSTR''" "plain ''INTFC''" "plain ''SOCKET''" "plain ''RAW''" "plain ''inst0''"
  by (simp_all add: plain_def)

lemma upper_names [simp]: "upper_string ''ASRL'' = ''ASRL''" "upper_string ''GPIB'' = ''GPIB''"
  "upper_string ''TCPIP'' = ''TCPIP''" "upper_string ''USB'' = ''USB''" 
  "upper_string ''INSTR'' = ''INSTR''" "upper_string ''INTFC'' = ''INTFC''"
  "upper_string ''SOCKET'' = ''SOCKET''" "upper_string ''RAW'' = ''RAW''"
  by (simp_all add: toupper_def)

lemma descriptor_sel [simp]: "canonical_name (descriptor k i b c n) = n"
  by (simp add: descriptor_def)

lemmas prefix_simps =
  board_prefix_plain [THEN plain_one_part] parse_prefix_board plain_one_part

lemma asrl_reads_back: "parse_asrl parts = Some d \<Longrightarrow> reads_back parse_asrl ''ASRL'' d"
proof -
  assume "parse_asrl parts = Some d"
  then obtain b where d: "d = descriptor Asrl_instr VI_INTF_ASRL b ''INSTR'' (board_prefix ''ASRL'' b @ ''::INSTR'')"
    by (auto simp: parse_asrl_def split: option.splits if_splits)
  show ?thesis unfolding reads_back_def
    by (rule exI [of _ "[board_prefix ''ASRL'' b, ''INSTR'']"], rule exI [of _ b])
       (simp add: d prefix_simps parse_asrl_def del: list.map)
qed

lemma gpib_reads_back: "parse_gpib parts = Some d \<Longrightarrow> reads_back parse_gpib ''GPIB'' d"
proof -
  assume p: "parse_gpib parts = Some d"
  then obtain b where b: "parse_prefix (parts ! 0) ''GPIB'' = Some b" 
    by (auto simp: parse_gpib_def split: option.splits)
  let ?mk = "\<lambda>c. descriptor Gpib_instr VI_INTF_GPIB b ''INSTR'' c"
  consider (intfc) "d = descriptor Gpib_intfc VI_INTF_GPIB b ''INTFC'' (board_prefix ''GPIB'' b @ ''::INTFC'')"
    | (primary) a where "unat a \<le> 30" "d = (?mk (board_prefix ''GPIB'' b @ ''::'' @ to_string (unat a) @ ''::INSTR''))
         \<lparr>gpib_primary_address := a\<rparr>"
    | (secondary) a s where "unat a \<le> 30" "unat s \<le> 30"
        "d = (?mk (board_prefix ''GPIB'' b @ ''::'' @ to_string (unat a) @ ''::'' @ to_string (unat s) @ ''::INSTR''))
         \<lparr>gpib_primary_address := a, gpib_secondary_address := s, gpib_has_secondary_address := True\<rparr>"
    using p b parse_decimal_bound [of "parts ! 1" 30] parse_decimal_bound [of "parts ! 2" 30]
    by (simp add: parse_gpib_def Let_def split: option.splits if_splits)
  then show ?thesis
  proof cases
    case intfc
    show ?thesis unfolding reads_back_def
      by (rule exI [of _ "[board_prefix ''GPIB'' b, ''INTFC'']"], rule exI [of _ b])
         (simp add: intfc prefix_simps parse_gpib_def del: list.map)
  next
    case primary
    show ?thesis unfolding reads_back_def
      by (rule exI [of _ "[board_prefix ''GPIB'' b, to_string (unat a), ''INSTR'']"], rule exI [of _ b])
         (simp add: primary prefix_simps parse_gpib_def parse_decimal_print del: list.map)
  next
    case secondary
    show ?thesis unfolding reads_back_def
      by (rule exI [of _ "[board_prefix ''GPIB'' b, to_string (unat a), to_string (unat s), ''INSTR'']"],
          rule exI [of _ b])
         (simp add: secondary prefix_simps parse_gpib_def parse_decimal_print del: list.map)
  qed
qed

lemma parse_tcpip_four:
  assumes "parse_prefix p ''TCPIP'' = Some b" and "h \<noteq> []"
    and "br \<longleftrightarrow> length h \<ge> 2 \<and> hd h = CHR ''['' \<and> last h = CHR '']''"
    and "host = (if br then butlast (tl h) else h)" and "\<not> (\<not> br \<and> CHR '':'' \<in> set host)" and "host \<noteq> []"
  shows "parse_tcpip [p, h, x, y] =
    (if upper_string y = ''SOCKET'' then
       (case parse_decimal x 65535 of
          None \<Rightarrow> None
        | Some port \<Rightarrow>
            if port = 0 then None
            else Some ((descriptor Tcpip_socket VI_INTF_TCPIP b ''SOCKET''
                          (board_prefix ''TCPIP'' b @ ''::'' @ h @ ''::'' @ to_string (unat port) @ ''::SOCKET''))
                         \<lparr>rd_host := host, rd_port := port\<rparr>))
     else if upper_string y \<noteq> ''INSTR'' then None
     else Some ((descriptor Tcpip_instr VI_INTF_TCPIP b ''INSTR''
                   (board_prefix ''TCPIP'' b @ ''::'' @ h @ ''::'' @ x @ ''::INSTR''))
                  \<lparr>rd_host := host, device_name := x, rd_tcpip_protocol := tcpip_protocol_of x\<rparr>))"
  using assms by (cases br) (auto simp: parse_tcpip_def Let_def split: option.splits)

lemma tcpip_form:
  assumes p: "parse_tcpip parts = Some d"
  obtains b br host dev where "2 \<le> length parts"
    and "br \<longleftrightarrow> length (parts ! 1) \<ge> 2 \<and> hd (parts ! 1) = CHR ''['' \<and> last (parts ! 1) = CHR '']''"
    and "host = (if br then butlast (tl (parts ! 1)) else parts ! 1)"
    and "dev = (if length parts = 3 \<and> upper_string (parts ! 2) \<noteq> ''INSTR'' then parts ! 2
                else if length parts = 4 then parts ! 2 else ''inst0'')"
    and "\<not> (\<not> br \<and> CHR '':'' \<in> set host)" and "host \<noteq> []"
    and "(\<exists>port. port \<noteq> 0 \<and> d = (descriptor Tcpip_socket VI_INTF_TCPIP b ''SOCKET''
              (board_prefix ''TCPIP'' b @ ''::'' @ parts ! 1 @ ''::'' @ to_string (unat port) @ ''::SOCKET''))
            \<lparr>rd_host := host, rd_port := port\<rparr>) \<or>
         d = (descriptor Tcpip_instr VI_INTF_TCPIP b ''INSTR''
              (board_prefix ''TCPIP'' b @ ''::'' @ parts ! 1 @ ''::'' @ dev @ ''::INSTR''))
            \<lparr>rd_host := host, device_name := dev, rd_tcpip_protocol := tcpip_protocol_of dev\<rparr>"
proof -
  from p obtain b where b: "parse_prefix (parts ! 0) ''TCPIP'' = Some b"
    by (auto simp: parse_tcpip_def split: option.splits)
  have len: "2 \<le> length parts"
    using p b by (auto simp: parse_tcpip_def split: if_splits)
  let ?h = "parts ! 1"
  define br where "br \<longleftrightarrow> length ?h \<ge> 2 \<and> hd ?h = CHR ''['' \<and> last ?h = CHR '']''"
  define host where "host = (if br then butlast (tl ?h) else ?h)"
  define dev where "dev = (if length parts = 3 \<and> upper_string (parts ! 2) \<noteq> ''INSTR'' then parts ! 2
                           else if length parts = 4 then parts ! 2 else ''inst0'')"
  note defs = br_def [symmetric] host_def [symmetric] dev_def [symmetric]
  from p b have good: "\<not> (\<not> br \<and> CHR '':'' \<in> set host)" "host \<noteq> []"
    unfolding parse_tcpip_def Let_def by (simp_all only: option.case defs split: if_splits) simp_all
  show thesis
    apply (rule that [OF len br_def host_def dev_def good])
    using p b unfolding parse_tcpip_def Let_def
    by (simp only: option.case defs split: if_splits option.splits) auto
qed

lemma tcpip_reads_back:
  assumes p: "parse_tcpip parts = Some d" and ok: "parts_ok parts" and l: "last (join_parts parts) \<noteq> CHR '':''"
  shows "reads_back parse_tcpip ''TCPIP'' d"
proof -
  from p obtain b br host dev where len: "2 \<le> length parts"
    and br: "br \<longleftrightarrow> length (parts ! 1) \<ge> 2 \<and> hd (parts ! 1) = CHR ''['' \<and> last (parts ! 1) = CHR '']''"
    and host: "host = (if br then butlast (tl (parts ! 1)) else parts ! 1)"
    and dev: "dev = (if length parts = 3 \<and> upper_string (parts ! 2) \<noteq> ''INSTR'' then parts ! 2
                     else if length parts = 4 then parts ! 2 else ''inst0'')"
    and good: "\<not> (\<not> br \<and> CHR '':'' \<in> set host)" "host \<noteq> []"
    and form: "(\<exists>port. port \<noteq> 0 \<and> d = (descriptor Tcpip_socket VI_INTF_TCPIP b ''SOCKET''
              (board_prefix ''TCPIP'' b @ ''::'' @ parts ! 1 @ ''::'' @ to_string (unat port) @ ''::SOCKET''))
            \<lparr>rd_host := host, rd_port := port\<rparr>) \<or>
         d = (descriptor Tcpip_instr VI_INTF_TCPIP b ''INSTR''
              (board_prefix ''TCPIP'' b @ ''::'' @ parts ! 1 @ ''::'' @ dev @ ''::INSTR''))
            \<lparr>rd_host := host, device_name := dev, rd_tcpip_protocol := tcpip_protocol_of dev\<rparr>"
    by (rule tcpip_form)
  let ?h = "parts ! 1"
  have h: "?h \<noteq> []" "one_part False ?h" "last ?h \<noteq> CHR '':''"
    using parts_ok_part [OF ok _ l, of 1] len by simp_all
  have dev: "dev \<noteq> [] \<and> one_part False dev \<and> last dev \<noteq> CHR '':''"
    using parts_ok_part [OF ok _ l, of 2] by (auto simp: dev)
  note four = parse_tcpip_four [OF parse_prefix_board [OF upper_names(3), of b] h(1) br host good]
  from form consider (socket) port where "port \<noteq> 0" "d = (descriptor Tcpip_socket VI_INTF_TCPIP b ''SOCKET''
              (board_prefix ''TCPIP'' b @ ''::'' @ parts ! 1 @ ''::'' @ to_string (unat port) @ ''::SOCKET''))
            \<lparr>rd_host := host, rd_port := port\<rparr>"
    | (instr) "d = (descriptor Tcpip_instr VI_INTF_TCPIP b ''INSTR''
              (board_prefix ''TCPIP'' b @ ''::'' @ parts ! 1 @ ''::'' @ dev @ ''::INSTR''))
            \<lparr>rd_host := host, device_name := dev, rd_tcpip_protocol := tcpip_protocol_of dev\<rparr>" by blast
  then show ?thesis
  proof cases
    case socket
    have "parse_tcpip [board_prefix ''TCPIP'' b, ?h, to_string (unat port), ''SOCKET''] = Some d"
      unfolding four using socket by (simp add: parse_decimal_print del: list.map)
    with socket(2) h show ?thesis unfolding reads_back_def
      by (intro exI [of _ "[board_prefix ''TCPIP'' b, ?h, to_string (unat port), ''SOCKET'']"] exI [of _ b])
         (simp add: prefix_simps)
  next
    case instr
    have "parse_tcpip [board_prefix ''TCPIP'' b, ?h, dev, ''INSTR''] = Some d"
      unfolding four using instr by (simp del: list.map)
    with instr h dev show ?thesis unfolding reads_back_def
      by (intro exI [of _ "[board_prefix ''TCPIP'' b, ?h, dev, ''INSTR'']"] exI [of _ b])
         (simp add: prefix_simps)
  qed
qed

lemma hex4_part: "one_part False (''0x'' @ hex4 w) \<and> last (''0x'' @ hex4 w) \<noteq> CHR '':''"
proof -
  have "plain (hex4 w)"
    using hex4_props [of w] by (intro digits_plain) auto
  then have "plain (''0x'' @ hex4 w)" by (intro plain_append) (simp_all add: plain_def)
  then show ?thesis using plain_one_part by blast
qed

lemma parse_usb_six:
  assumes "parse_prefix p ''USB'' = Some b" "parse_hex_id hv = Some v" "parse_hex_id hq = Some q"
    and "s \<noteq> []" and "c = ''INSTR'' \<or> c = ''RAW''"
  shows "parse_usb [p, hv, hq, s, to_string (unat i), c] =
    Some ((descriptor (if c = ''RAW'' then Usb_raw else Usb_instr) VI_INTF_USB b c
              (''USB'' @ to_string (unat b) @ ''::0x'' @ hex4 v @ ''::0x'' @ hex4 q @ ''::'' @ s @ ''::'' @
               to_string (unat i) @ ''::'' @ c))
            \<lparr>usb_vendor_id := v, usb_product_id := q, usb_serial_number := s, usb_interface_number := i\<rparr>)"
proof -
  have "upper_string c = c" using assms(5) by (auto simp: toupper_def)
  with assms show ?thesis
    by (simp add: parse_usb_def parse_decimal_print Let_def del: list.map)
qed

lemma usb_form:
  assumes p: "parse_usb parts = Some d"
  obtains b v q i c where "4 \<le> length parts" "parts ! 3 \<noteq> []" "c = ''INSTR'' \<or> c = ''RAW''"
    "d = (descriptor (if c = ''RAW'' then Usb_raw else Usb_instr) VI_INTF_USB b c
              (''USB'' @ to_string (unat b) @ ''::0x'' @ hex4 v @ ''::0x'' @ hex4 q @ ''::'' @ parts ! 3 @ ''::'' @
               to_string (unat i) @ ''::'' @ c))
            \<lparr>usb_vendor_id := v, usb_product_id := q, usb_serial_number := parts ! 3, usb_interface_number := i\<rparr>"
proof -
  from p obtain b where b: "parse_prefix (parts ! 0) ''USB'' = Some b"
    by (auto simp: parse_usb_def split: option.splits)
  have len: "4 \<le> length parts" "parts ! 3 \<noteq> []"
    using p b by (auto simp: parse_usb_def split: if_splits option.splits)
  define want where "want \<longleftrightarrow> length parts \<ge> 5 \<and> upper_string (parts ! 4) \<noteq> ''INSTR'' \<and>
    upper_string (parts ! 4) \<noteq> ''RAW''"
  define intf where "intf = (if want then parse_decimal (parts ! 4) 65535 else None)"
  define k where "k = (if intf \<noteq> None then 5 else 4 :: nat)"
  define c where "c = (if length parts > k then upper_string (parts ! k) else ''INSTR'')"
  define i where "i = (case intf of None \<Rightarrow> 0 | Some n \<Rightarrow> n)"
  define kd where "kd = (if c = ''RAW'' then Usb_raw else Usb_instr)"
  note defs = kd_def [symmetric] want_def [symmetric] intf_def [symmetric] k_def [symmetric] c_def [symmetric]
    i_def [symmetric]
  from p b obtain v q where cls: "length parts > k \<longrightarrow> c = ''INSTR'' \<or> c = ''RAW''"
    and d: "Some d = Some ((descriptor kd VI_INTF_USB b c
              (''USB'' @ to_string (unat b) @ ''::0x'' @ hex4 v @ ''::0x'' @ hex4 q @ ''::'' @ parts ! 3 @ ''::'' @
               to_string (unat i) @ ''::'' @ c))
            \<lparr>usb_vendor_id := v, usb_product_id := q, usb_serial_number := parts ! 3, usb_interface_number := i\<rparr>)"
    unfolding parse_usb_def Let_def by (simp only: option.case defs split: option.splits prod.splits if_splits) blast+
  have "c = ''INSTR'' \<or> c = ''RAW''" using cls by (auto simp: c_def)
  then show thesis using d unfolding kd_def by (intro that [OF len]) simp_all
qed

lemma usb_reads_back:
  assumes p: "parse_usb parts = Some d" and ok: "parts_ok parts" and l: "last (join_parts parts) \<noteq> CHR '':''"
  shows "reads_back parse_usb ''USB'' d"
proof -
  from p obtain b v q i c where len: "4 \<le> length parts" and cls: "c = ''INSTR'' \<or> c = ''RAW''" and
    d: "d = (descriptor (if c = ''RAW'' then Usb_raw else Usb_instr) VI_INTF_USB b c
              (''USB'' @ to_string (unat b) @ ''::0x'' @ hex4 v @ ''::0x'' @ hex4 q @ ''::'' @ parts ! 3 @ ''::'' @
               to_string (unat i) @ ''::'' @ c))
            \<lparr>usb_vendor_id := v, usb_product_id := q, usb_serial_number := parts ! 3, usb_interface_number := i\<rparr>"
    by (rule usb_form)
  let ?s = "parts ! 3"
  have serial: "?s \<noteq> []" "one_part False ?s" "last ?s \<noteq> CHR '':''"
    using parts_ok_part [OF ok _ l, of 3] len by simp_all
  have "c \<noteq> [] \<and> one_part False c" using cls by auto
  moreover define hv hq where "hv = ''0x'' @ hex4 v" and "hq = ''0x'' @ hex4 q"
  moreover have "hv \<noteq> [] \<and> one_part False hv \<and> last hv \<noteq> CHR '':''" "hq \<noteq> [] \<and> one_part False hq \<and> last hq \<noteq> CHR '':''"
    unfolding hv_def hq_def using hex4_part by blast+
  ultimately have "parts_ok [board_prefix ''USB'' b, hv, hq, ?s, to_string (unat i), c]"
    using serial by (simp add: prefix_simps)
  moreover have "parse_usb [board_prefix ''USB'' b, hv, hq, ?s, to_string (unat i), c] = Some d"
    unfolding d
    by (rule parse_usb_six) (use serial cls in \<open>simp_all add: hv_def hq_def parse_hex_id_print parse_prefix_board
      del: list.map append_Cons append_Nil\<close>)
  moreover have "canonical_name d = join_parts [board_prefix ''USB'' b, hv, hq, ?s, to_string (unat i), c]"
    using d by (simp add: hv_def hq_def board_prefix_def)
  ultimately show ?thesis unfolding reads_back_def by (metis nth_Cons_0)
qed

lemma starts_with_board [simp]:
  "upper_string name = name \<Longrightarrow> starts_with name (upper_string (board_prefix name b))"
  by (simp add: starts_with_def board_prefix_def)

lemma parse_resource_dispatch:
  assumes "parts_ok ps" and "length (join_parts ps) < 256" and "ps ! 0 = board_prefix name b"
    and "(name, parse) \<in> {(''ASRL'', parse_asrl), (''GPIB'', parse_gpib), (''TCPIP'', parse_tcpip),
                          (''USB'', parse_usb)}"
  shows "parse_resource (join_parts ps) = parse ps"
proof -
  obtain q qs where q: "ps = q # qs" using assms(1) by (cases ps) auto
  then have hd: "join_parts ps \<noteq> []" "hd (join_parts ps) = hd q"
    using assms(1) by (cases qs; simp)+
  have "upper_string (join_parts ps) \<noteq> WRVISA_MOCK_RESOURCE"
  proof
    assume "upper_string (join_parts ps) = WRVISA_MOCK_RESOURCE"
    then have "hd (upper_string (join_parts ps)) = hd WRVISA_MOCK_RESOURCE" by (rule arg_cong)
    then have "toupper (hd q) = CHR ''W''"
      using hd by (simp add: hd_map WRVISA_MOCK_RESOURCE_def)
    moreover have "q = board_prefix name b" using assms(3) q by simp
    then have "hd q \<in> {CHR ''A'', CHR ''G'', CHR ''T'', CHR ''U''}"
      using assms(4) by (auto simp: board_prefix_def)
    then have "toupper (hd q) \<noteq> CHR ''W''" by (auto simp: toupper_def)
    ultimately show False by simp
  qed
  with hd(1) assms(1,2) have "parse_resource (join_parts ps) =
      (let first = upper_string (ps ! 0) in
       if starts_with ''ASRL'' first then parse_asrl ps
       else if starts_with ''GPIB'' first then parse_gpib ps
       else if starts_with ''TCPIP'' first then parse_tcpip ps
       else if starts_with ''USB'' first then parse_usb ps else None)"
    by (auto simp: parse_resource_def split_resource_join Let_def)
  with assms(3,4) show ?thesis
    by (auto simp: Let_def starts_with_def board_prefix_def toupper_def)
qed

lemma mock_reads_back:
  "parse_resource WRVISA_MOCK_RESOURCE =
     Some (descriptor Project_mock WRVISA_INTF_MOCK 0 ''INSTR'' WRVISA_MOCK_RESOURCE)"
  by (simp add: parse_resource_def WRVISA_MOCK_RESOURCE_def toupper_def)

lemma canonical_name_reads_back:
  assumes "parse_resource s = Some d" and "last s \<noteq> CHR '':''"
    and "length (canonical_name d) < VI_FIND_BUFLEN"
  shows "parse_resource (canonical_name d) = Some d"
proof (cases "upper_string s = WRVISA_MOCK_RESOURCE")
  case True
  with assms(1) have "d = descriptor Project_mock WRVISA_INTF_MOCK 0 ''INSTR'' WRVISA_MOCK_RESOURCE"
    by (auto simp: parse_resource_def split: if_splits)
  then show ?thesis by (simp add: mock_reads_back del: WRVISA_INTF_MOCK_def)
next
  case False
  define ps where "ps = split_resource s"
  have ne: "ps \<noteq> []" and "(\<exists>name parse. (name, parse) \<in> {(''ASRL'', parse_asrl), (''GPIB'', parse_gpib),
        (''TCPIP'', parse_tcpip), (''USB'', parse_usb)} \<and> parse ps = Some d)"
    using assms(1) False by (auto simp: parse_resource_def Let_def ps_def split: if_splits)
  then obtain name parse where np: "(name, parse) \<in> {(''ASRL'', parse_asrl), (''GPIB'', parse_gpib),
        (''TCPIP'', parse_tcpip), (''USB'', parse_usb)}" and p: "parse ps = Some d" by blast
  note ok = split_resource_ok [OF ps_def [symmetric] ne]
  have "reads_back parse name d"
    using np p ok assms(2) asrl_reads_back gpib_reads_back tcpip_reads_back usb_reads_back by auto
  then obtain qs b where "canonical_name d = join_parts qs" "parts_ok qs" "parse qs = Some d"
    "qs ! 0 = board_prefix name b" unfolding reads_back_def by blast
  with parse_resource_dispatch [OF _ _ _ np] assms(3) show ?thesis by simp
qed

lemma descriptor_fields [simp]:
  "rd_kind (descriptor k i b c n) = k" "interface_type (descriptor k i b c n) = i"
  "resource_class (descriptor k i b c n) = c"
  "rd_host (descriptor k i b c n) = []" "rd_port (descriptor k i b c n) = 0"
  "usb_serial_number (descriptor k i b c n) = []"
  "gpib_primary_address (descriptor k i b c n) = 0" "gpib_secondary_address (descriptor k i b c n) = 0"
  "gpib_has_secondary_address (descriptor k i b c n) = False"
  by (simp_all add: descriptor_def)

lemmas parse_eval = parse_resource_def split_resource_def starts_with_def parse_prefix_def parse_decimal_def
  parse_hex_id_def WRVISA_MOCK_RESOURCE_def parse_gpib_def parse_tcpip_def parse_usb_def hex4_def
  board_prefix_def char_eval

text \<open>The resource class that belongs to a kind, and the fields of each family.\<close>

definition class_of_kind :: "resource_kind \<Rightarrow> string" where
  "class_of_kind k =
     (if k = Gpib_intfc then ''INTFC'' else if k = Tcpip_socket then ''SOCKET''
      else if k = Usb_raw then ''RAW'' else ''INSTR'')"

lemma gpib_fields:
  "parse_gpib parts = Some d \<Longrightarrow>
     unat (gpib_primary_address d) \<le> 30 \<and> unat (gpib_secondary_address d) \<le> 30 \<and>
     (gpib_secondary_address d = 0 \<or> gpib_has_secondary_address d) \<and>
     rd_kind d \<in> {Gpib_instr, Gpib_intfc} \<and> resource_class d = class_of_kind (rd_kind d) \<and>
     rd_port d = 0 \<and> rd_host d = [] \<and> usb_serial_number d = []"
  using parse_decimal_bound [of "parts ! 1" 30] parse_decimal_bound [of "parts ! 2" 30]
  by (simp add: parse_gpib_def class_of_kind_def Let_def split: option.splits if_splits) auto

lemma tcpip_fields:
  assumes "parse_tcpip parts = Some d"
  shows "gpib_primary_address d = 0 \<and> gpib_secondary_address d = 0 \<and> usb_serial_number d = [] \<and>
     rd_host d \<noteq> [] \<and> rd_kind d \<in> {Tcpip_instr, Tcpip_socket} \<and>
     resource_class d = class_of_kind (rd_kind d) \<and> (rd_kind d = Tcpip_socket \<longleftrightarrow> rd_port d \<noteq> 0)"
  by (rule tcpip_form [OF assms]) (elim disjE exE conjE; simp add: class_of_kind_def)

lemma usb_fields:
  assumes "parse_usb parts = Some d"
  shows "gpib_primary_address d = 0 \<and> gpib_secondary_address d = 0 \<and> usb_serial_number d \<noteq> [] \<and>
     rd_host d = [] \<and> rd_kind d \<in> {Usb_instr, Usb_raw} \<and> resource_class d = class_of_kind (rd_kind d) \<and>
     rd_port d = 0"
  by (rule usb_form [OF assms]) (elim disjE exE conjE; simp add: class_of_kind_def)

section \<open>Properties\<close>

text \<open>Splitting a resource string is exact: \<open>split\<close> yields the non-empty list of parts \<open>ps\<close> if and
  only if the string is \<open>ps\<close> joined by double colons, every part is non-empty with matching, unnested
  brackets and no double colon outside them, and no part but the last ends in a colon. In particular
  nothing of an accepted string is lost, and the split is unambiguous.\<close>

theorem split_resource_exact:
  "split_resource s = ps \<and> ps \<noteq> [] \<longleftrightarrow> parts_ok ps \<and> s = join_parts ps"
  using split_resource_ok [of s ps] split_resource_join [of ps] by auto

text \<open>C17. The canonical name of a parsed resource is a resource name for the same resource: parsing it
  gives the same descriptor, canonical name included, unless the input ended in a colon or the
  canonical name does not fit the 256-byte limit.\<close>

theorem canonical_name_fixpoint:
  assumes "parse_resource s = Some d" and "last s \<noteq> CHR '':''"
    and "length (canonical_name d) < VI_FIND_BUFLEN"
  shows "parse_resource (canonical_name d) = Some d"
  using assms by (rule canonical_name_reads_back)

theorem canonical_name_fixpoint_witness:
  "map_option canonical_name (parse_resource ''usb::0x1ab1::0x0588::dm1::raw'') =
     Some ''USB0::0x1AB1::0x0588::dm1::0::RAW'' \<and>
   parse_resource ''USB0::0x1AB1::0x0588::dm1::0::RAW'' = parse_resource ''usb::0x1ab1::0x0588::dm1::raw''"
proof -
  have c: "map_option canonical_name (parse_resource ''usb::0x1ab1::0x0588::dm1::raw'') =
     Some ''USB0::0x1AB1::0x0588::dm1::0::RAW''" by (simp add: parse_eval)
  then obtain d where d: "parse_resource ''usb::0x1ab1::0x0588::dm1::raw'' = Some d"
    "canonical_name d = ''USB0::0x1AB1::0x0588::dm1::0::RAW''" by auto
  then have "parse_resource (canonical_name d) = Some d"
    by (intro canonical_name_fixpoint [OF d(1)]) simp_all
  with c d show ?thesis by simp
qed

text \<open>Canonical names identify resources: two strings that parse to the same canonical name parse to
  the same descriptor, so that locks and duplicate checks keyed by the canonical name never confuse
  two resources (same provisos as for the canonical name itself).\<close>

theorem canonical_name_identifies:
  assumes "parse_resource s = Some d" and "parse_resource s' = Some d'"
    and "last s \<noteq> CHR '':''" and "last s' \<noteq> CHR '':''"
    and "canonical_name d = canonical_name d'" and "length (canonical_name d) < VI_FIND_BUFLEN"
  shows "d = d'"
  using canonical_name_reads_back [OF assms(1,3,6)] canonical_name_reads_back [OF assms(2,4)] assms(5,6)
  by simp

theorem canonical_name_identifies_witness:
  "parse_resource ''TCPIP::[fe80::1]::inst0::INSTR'' = parse_resource ''tcpip0::[fe80::1]::instr'' \<and>
   map_option rd_host (parse_resource ''TCPIP::[fe80::1]::inst0::INSTR'') = Some ''fe80::1''"
proof -
  have "map_option canonical_name (parse_resource ''TCPIP::[fe80::1]::inst0::INSTR'') =
     Some ''TCPIP0::[fe80::1]::inst0::INSTR''"
    "map_option canonical_name (parse_resource ''tcpip0::[fe80::1]::instr'') =
     Some ''TCPIP0::[fe80::1]::inst0::INSTR''"
    and h: "map_option rd_host (parse_resource ''TCPIP::[fe80::1]::inst0::INSTR'') = Some ''fe80::1''"
    by (simp_all add: parse_eval)
  then obtain d d' where d: "parse_resource ''TCPIP::[fe80::1]::inst0::INSTR'' = Some d"
    "parse_resource ''tcpip0::[fe80::1]::instr'' = Some d'"
    "canonical_name d = ''TCPIP0::[fe80::1]::inst0::INSTR''" "canonical_name d' = canonical_name d" by auto
  have "d = d'"
    by (rule canonical_name_identifies [OF d(1,2)]) (use d(3,4) in simp_all)
  then show ?thesis using d(1,2) h by simp
qed

text \<open>C18. Every parsed descriptor is within the ranges the backends rely on: GPIB addresses are at most
  30 and a secondary address is set only with its flag, a socket has a host and a non-zero port, a VXI-11 or
  HiSLIP resource has a host, a USB resource has a serial number, and the resource class agrees with
  the kind.\<close>

theorem parsed_descriptor_ranges:
  assumes "parse_resource s = Some d"
  shows "unat (gpib_primary_address d) \<le> 30 \<and> unat (gpib_secondary_address d) \<le> 30 \<and>
    (gpib_secondary_address d \<noteq> 0 \<longrightarrow> gpib_has_secondary_address d) \<and>
    (rd_kind d = Tcpip_socket \<longleftrightarrow> rd_port d \<noteq> 0) \<and>
    (rd_kind d \<in> {Tcpip_instr, Tcpip_socket} \<longleftrightarrow> rd_host d \<noteq> []) \<and>
    (rd_kind d \<in> {Usb_instr, Usb_raw} \<longleftrightarrow> usb_serial_number d \<noteq> []) \<and>
    resource_class d = class_of_kind (rd_kind d)"
proof -
  consider "d = descriptor Project_mock WRVISA_INTF_MOCK 0 ''INSTR'' WRVISA_MOCK_RESOURCE"
    | "parse_asrl (split_resource s) = Some d" | "parse_gpib (split_resource s) = Some d"
    | "parse_tcpip (split_resource s) = Some d" | "parse_usb (split_resource s) = Some d"
    using assms by (auto simp: parse_resource_def Let_def split: if_splits)
  then show ?thesis
    by cases (auto simp: class_of_kind_def parse_asrl_def
      dest: gpib_fields tcpip_fields usb_fields split: option.splits if_splits)
qed

theorem parsed_descriptor_ranges_witness:
  "\<exists>d. parse_resource ''GPIB1::9::21::INSTR'' = Some d \<and> unat (gpib_primary_address d) = 9 \<and>
       unat (gpib_secondary_address d) \<le> 30 \<and> gpib_has_secondary_address d"
proof -
  have "map_option (\<lambda>d. (unat (gpib_primary_address d), unat (gpib_secondary_address d)))
     (parse_resource ''GPIB1::9::21::INSTR'') = Some (9, 21)" by (simp add: parse_eval)
  then obtain d where d: "parse_resource ''GPIB1::9::21::INSTR'' = Some d"
    "unat (gpib_primary_address d) = 9" "unat (gpib_secondary_address d) = 21" by auto
  with parsed_descriptor_ranges [OF d(1)] show ?thesis by auto
qed

text \<open>The proviso on a trailing colon is needed: a USB serial number (and likewise a VXI-11 device
  name) that ends in a colon is accepted, but its canonical name is refused by the same parser, so
  the session's reported name cannot be opened again.\<close>

theorem trailing_colon_breaks_canonical_name:
  "map_option canonical_name (parse_resource ''USB::0x1234::0x5678::abc:'') =
     Some ''USB0::0x1234::0x5678::abc:::0::INSTR'' \<and>
   parse_resource ''USB0::0x1234::0x5678::abc:::0::INSTR'' = None \<and>
   map_option canonical_name (parse_resource ''TCPIP::host::dev:'') =
     Some ''TCPIP0::host::dev:::INSTR'' \<and>
   parse_resource ''TCPIP0::host::dev:::INSTR'' = None"
  by (simp add: parse_eval)

end
