(* ===== verification/Find_Expression.thy ===== *)
theory Find_Expression
  imports Resource_Parser "HOL-Library.While_Combinator"
begin

text \<open>
  The find expressions of \<open>src/resource/find_expression.{h,cpp}\<close>: the recursive-descent parser of
  the pattern language, the parser of attribute filters, the set-of-positions matcher and
  \<open>FindExpression::compile\<close> and \<open>matches\<close>. A parser's state is the unread input and the number of
  nodes made so far. The two parsers are mutually recursive functions with fuel: \<open>Out_of_fuel\<close> is a
  call that has not returned, and is proved not to happen with the fuel that \<open>compile\<close> passes. The
  closure loop of the matcher is a \<open>while_option\<close>, proved to end. The matcher is related to the
  regular language a pattern denotes.
\<close>

section \<open>Patterns\<close>

datatype find_node =
    Empty
  | Literal char
  | Any
  | Character_class bool "(char \<times> char) list"   \<comment> \<open>negated, ranges\<close>
  | Concatenation "find_node list"
  | Alternate "find_node list"
  | Repeat bool find_node                          \<comment> \<open>one or more\<close>

definition fold_char :: "char \<Rightarrow> char" where
  "fold_char c = toupper c"

text \<open>\<open>char\<close> is a signed type: its bytes from 128 on compare as negative numbers.\<close>

definition schar :: "char \<Rightarrow> int" where
  "schar c = (if (of_char c :: nat) < 128 then of_char c else of_char c - 256)"

section \<open>Parser results\<close>

type_synonym pstate = "string \<times> nat"   \<comment> \<open>unread input, nodes made\<close>

datatype 'a parsed = Out_of_fuel | Failed string | Parsed 'a pstate

fun and_then :: "'a parsed \<Rightarrow> ('a \<Rightarrow> pstate \<Rightarrow> 'b parsed) \<Rightarrow> 'b parsed" where
  "and_then Out_of_fuel f = Out_of_fuel"
| "and_then (Failed e) f = Failed e"
| "and_then (Parsed x s) f = f x s"

definition at :: "string \<Rightarrow> char \<Rightarrow> bool" where
  "at rest c \<longleftrightarrow> rest \<noteq> [] \<and> hd rest = c"

section \<open>The pattern parser\<close>

definition make_node :: "find_node \<Rightarrow> pstate \<Rightarrow> find_node parsed" where
  "make_node node s =
     (let nodes = snd s + 1 in
      if nodes > 512 then Failed ''expression is too complex'' else Parsed node (fst s, nodes))"

definition class_character :: "pstate \<Rightarrow> char parsed" where
  "class_character s =
     (case fst s of
        [] \<Rightarrow> Failed ''unclosed character class''
      | c # rest \<Rightarrow>
          if c = CHR 0x5C then
            (case rest of
               [] \<Rightarrow> Failed ''dangling class escape''
             | e # rest' \<Rightarrow> Parsed (fold_char e) (rest', snd s))
          else Parsed (fold_char c) (rest, snd s))"

text \<open>The loop of \<open>parse_class\<close>, with the ranges collected so far. Each turn consumes input, so that
  its length bounds the number of turns.\<close>

fun class_loop :: "nat \<Rightarrow> bool \<Rightarrow> (char \<times> char) list \<Rightarrow> pstate \<Rightarrow> find_node parsed" where
  "class_loop 0 negated ranges s = Out_of_fuel"
| "class_loop (Suc fuel) negated ranges s =
     (if fst s \<noteq> [] \<and> hd (fst s) \<noteq> CHR '']'' then
        and_then (class_character s) (\<lambda>first s1.
          if length (fst s1) > 1 \<and> fst s1 ! 0 = CHR ''-'' \<and> fst s1 ! 1 \<noteq> CHR '']'' then
            (case class_character (tl (fst s1), snd s1) of
               Out_of_fuel \<Rightarrow> Out_of_fuel
             | Failed e \<Rightarrow> Failed ''invalid character range''
             | Parsed last_char s2 \<Rightarrow>
                 if schar first > schar last_char then Failed ''invalid character range''
                 else class_loop fuel negated (ranges @ [(first, last_char)]) s2)
          else class_loop fuel negated (ranges @ [(first, first)]) s1)
      else if ranges = [] \<or> \<not> at (fst s) (CHR '']'') then
        Failed ''empty or unclosed character class''
      else make_node (Character_class negated ranges) (tl (fst s), snd s))"

definition parse_class :: "pstate \<Rightarrow> find_node parsed" where
  "parse_class s =
     (let negated = at (fst s) (CHR ''^'');
          s' = (if negated then (tl (fst s), snd s) else s) in
      class_loop (length (fst s') + 1) negated [] s')"

function (sequential) parse_alternate :: "nat \<Rightarrow> nat \<Rightarrow> pstate \<Rightarrow> find_node parsed"
and alternate_loop :: "nat \<Rightarrow> nat \<Rightarrow> find_node list \<Rightarrow> pstate \<Rightarrow> find_node parsed"
and concatenation_loop :: "nat \<Rightarrow> nat \<Rightarrow> find_node list \<Rightarrow> pstate \<Rightarrow> find_node parsed"
and parse_atom :: "nat \<Rightarrow> nat \<Rightarrow> pstate \<Rightarrow> find_node parsed" where
  "parse_alternate 0 depth s = Out_of_fuel"
| "parse_alternate (Suc fuel) depth s =
     (if depth > 32 then Failed ''expression nesting is too deep''
      else and_then (concatenation_loop fuel depth [] s)
             (\<lambda>branch s'. alternate_loop fuel depth [branch] s'))"
| "alternate_loop 0 depth branches s = Out_of_fuel"
| "alternate_loop (Suc fuel) depth branches s =
     (if at (fst s) (CHR ''|'') then
        and_then (concatenation_loop fuel depth [] (tl (fst s), snd s))
          (\<lambda>branch s'. alternate_loop fuel depth (branches @ [branch]) s')
      else if length branches = 1 then Parsed (hd branches) s
      else make_node (Alternate branches) s)"
| "concatenation_loop 0 depth sequence s = Out_of_fuel"
| "concatenation_loop (Suc fuel) depth sequence s =
     (if fst s \<noteq> [] \<and> hd (fst s) \<noteq> CHR '')'' \<and> hd (fst s) \<noteq> CHR ''|'' then
        and_then (parse_atom fuel depth s) (\<lambda>atom s1.
          if at (fst s1) (CHR ''*'') \<or> at (fst s1) (CHR ''+'') then
            and_then (make_node (Repeat (hd (fst s1) = CHR ''+'') atom) (tl (fst s1), snd s1))
              (\<lambda>rep s2.
                if at (fst s2) (CHR ''*'') \<or> at (fst s2) (CHR ''+'') then Failed ''repeated quantifier''
                else concatenation_loop fuel depth (sequence @ [rep]) s2)
          else concatenation_loop fuel depth (sequence @ [atom]) s1)
      else if sequence = [] then Failed ''empty branch''
      else if length sequence = 1 then Parsed (hd sequence) s
      else make_node (Concatenation sequence) s)"
| "parse_atom 0 depth s = Out_of_fuel"
| "parse_atom (Suc fuel) depth s =
     (if fst s = [] then Failed ''missing atom''
      else
        let token = hd (fst s); s1 = (tl (fst s), snd s) in
        if token = CHR ''('' then
          and_then (parse_alternate fuel (depth + 1) s1) (\<lambda>group s2.
            if \<not> at (fst s2) (CHR '')'') then Failed ''unclosed group''
            else Parsed group (tl (fst s2), snd s2))
        else if token = CHR ''['' then parse_class s1
        else if token = CHR ''?'' then make_node Any s1
        else if token = CHR ''*'' \<or> token = CHR ''+'' \<or> token = CHR '')'' then
          Failed ''operator without atom''
        else if token = CHR 0x5C then
          if fst s1 = [] then Failed ''dangling escape''
          else make_node (Literal (fold_char (hd (fst s1)))) (tl (fst s1), snd s1)
        else make_node (Literal (fold_char token)) s1)"

  by pat_completeness auto
termination
  by (relation "measure (case_sum (case_sum fst fst) (case_sum fst fst))") auto

definition find_fuel :: "string \<Rightarrow> nat" where
  "find_fuel input = 4 * length input + 4"

definition parse_pattern :: "string \<Rightarrow> find_node parsed" where
  "parse_pattern input =
     (if input = [] \<or> length input \<ge> 256 \<or> CHR 0x7B \<in> set input \<or> CHR 0x7D \<in> set input then
        Failed ''empty, oversized, or attribute-filter expression''
      else and_then (parse_alternate (find_fuel input) 0 (input, 0))
             (\<lambda>root s. if fst s \<noteq> [] then Failed ''unexpected token'' else Parsed root s))"

section \<open>The attribute-filter parser\<close>

datatype find_attribute = Intf_type | Intf_num | Rsrc_class | Rsrc_name | Asrl_baud

datatype find_compare =
  Equal | Not_equal | Less_than | Less_equal | Greater_than | Greater_equal

datatype find_attribute_node =
    Number_relation find_attribute find_compare int
  | String_relation find_attribute find_compare string
  | Logical_and find_attribute_node find_attribute_node
  | Logical_or find_attribute_node find_attribute_node
  | Logical_not find_attribute_node

definition attr_make :: "find_attribute_node \<Rightarrow> pstate \<Rightarrow> find_attribute_node parsed" where
  "attr_make node s =
     (let nodes = snd s + 1 in
      if nodes > 256 then Failed ''attribute expression is too complex''
      else Parsed node (fst s, nodes))"

definition skip_space :: "pstate \<Rightarrow> pstate" where
  "skip_space s = (dropWhile isspace (fst s), snd s)"

definition consume :: "string \<Rightarrow> pstate \<Rightarrow> bool \<times> pstate" where
  "consume token s =
     (let s' = skip_space s in
      if take (length token) (fst s') \<noteq> token then (False, s')
      else (True, (drop (length token) (fst s'), snd s')))"

definition attribute_id :: "string \<Rightarrow> find_attribute option" where
  "attribute_id ident =
     (let name = upper_string ident in
      if name = ''VI_ATTR_INTF_TYPE'' then Some Intf_type
      else if name = ''VI_ATTR_INTF_NUM'' then Some Intf_num
      else if name = ''VI_ATTR_RSRC_CLASS'' then Some Rsrc_class
      else if name = ''VI_ATTR_RSRC_NAME'' then Some Rsrc_name
      else if name = ''VI_ATTR_ASRL_BAUD'' then Some Asrl_baud
      else None)"

definition attr_identifier :: "pstate \<Rightarrow> string option \<times> pstate" where
  "attr_identifier s =
     (let s' = skip_space s; word = (\<lambda>c. isalnum c \<or> c = CHR ''_'') in
      if fst s' = [] \<or> \<not> isalpha (hd (fst s')) then (None, s')
      else (Some (hd (fst s') # takeWhile word (tl (fst s'))),
            (dropWhile word (tl (fst s')), snd s')))"

text \<open>The operators in the order the source tries them.\<close>

definition compare_tokens :: "(string \<times> find_compare) list" where
  "compare_tokens =
     [(''=='', Equal), (''!='', Not_equal), (''>='', Greater_equal), (''<='', Less_equal),
      (''>'', Greater_than), (''<'', Less_than)]"

fun try_tokens :: "(string \<times> 'a) list \<Rightarrow> pstate \<Rightarrow> 'a option \<times> pstate" where
  "try_tokens [] s = (None, s)"
| "try_tokens ((token, v) # rest) s =
     (let (found, s') = consume token s in
      if found then (Some v, s') else try_tokens rest s')"

definition compare_operator :: "pstate \<Rightarrow> find_compare option \<times> pstate" where
  "compare_operator s = try_tokens compare_tokens s"

definition string_literal :: "pstate \<Rightarrow> string parsed" where
  "string_literal s =
     (let s' = skip_space s in
      if \<not> at (fst s') (CHR 0x22) then Failed ''string attribute requires a quoted value''
      else
        let body = tl (fst s'); value = takeWhile (\<lambda>c. c \<noteq> CHR 0x22) body;
            rest = dropWhile (\<lambda>c. c \<noteq> CHR 0x22) body in
        if rest = [] then Failed ''unclosed attribute string'' else Parsed value (tl rest, snd s'))"

definition isxdigit :: "char \<Rightarrow> bool" where
  "isxdigit c \<longleftrightarrow> radix_digit 16 c"

definition number_literal :: "pstate \<Rightarrow> int parsed" where
  "number_literal s =
     (let s' = skip_space s; negative = at (fst s') (CHR ''-'');
          r = (if negative then tl (fst s') else fst s');
          hex = (length r > 1 \<and> r ! 0 = CHR ''0'' \<and> (r ! 1 = CHR ''x'' \<or> r ! 1 = CHR ''X'')) in
      if hex \<and> negative then Failed ''negative hexadecimal attribute value is not supported''
      else
        let base = (if hex then 16 else 10); body = (if hex then drop 2 r else r);
            is_digit = (if hex then isxdigit else isdigit);
            digits = takeWhile is_digit body; rest = dropWhile is_digit body;
            magnitude = int (radix_value base digits);
            value = (if negative then - magnitude else magnitude) in
        if digits = [] then Failed ''numeric attribute requires a number''
        else if value < - (2 ^ 63) \<or> value \<ge> 2 ^ 63 then Failed ''attribute number is out of range''
        else Parsed value (rest, snd s'))"

definition parse_relation :: "pstate \<Rightarrow> find_attribute_node parsed" where
  "parse_relation s =
     (case attr_identifier s of
        (None, _) \<Rightarrow> Failed ''missing attribute identifier''
      | (Some raw, s1) \<Rightarrow>
          (case attribute_id raw of
             None \<Rightarrow> Failed ''unsupported or non-global attribute''
           | Some attribute \<Rightarrow>
               (case compare_operator s1 of
                  (None, _) \<Rightarrow> Failed ''missing attribute comparison operator''
                | (Some comparison, s2) \<Rightarrow>
                    if attribute = Rsrc_class \<or> attribute = Rsrc_name then
                      if comparison \<noteq> Equal \<and> comparison \<noteq> Not_equal then
                        Failed ''string attributes only support == and !=''
                      else and_then (string_literal s2)
                             (\<lambda>text s3. attr_make (String_relation attribute comparison text) s3)
                    else and_then (number_literal s2)
                           (\<lambda>number s3. attr_make (Number_relation attribute comparison number) s3))))"

text \<open>The loops of \<open>parse_or\<close> and \<open>parse_and\<close> carry \<open>left\<close>, which is null (\<open>Inl\<close>) once \<open>make\<close>
  has refused a node; the loop goes on all the same.\<close>

definition attr_join ::
  "(find_attribute_node \<Rightarrow> find_attribute_node \<Rightarrow> find_attribute_node) \<Rightarrow> string + find_attribute_node \<Rightarrow>
   find_attribute_node \<Rightarrow> pstate \<Rightarrow> (string + find_attribute_node) \<times> pstate" where
  "attr_join c left right s =
     (case left of
        Inl e \<Rightarrow> (Inl e, (fst s, snd s + 1))
      | Inr l \<Rightarrow>
          (case attr_make (c l right) s of
             Parsed node s' \<Rightarrow> (Inr node, s')
           | _ \<Rightarrow> (Inl ''attribute expression is too complex'', (fst s, snd s + 1))))"

definition attr_result :: "string + find_attribute_node \<Rightarrow> pstate \<Rightarrow> find_attribute_node parsed" where
  "attr_result left s = (case left of Inl e \<Rightarrow> Failed e | Inr l \<Rightarrow> Parsed l s)"

function (sequential) parse_or :: "nat \<Rightarrow> nat \<Rightarrow> pstate \<Rightarrow> find_attribute_node parsed"
and or_loop :: "nat \<Rightarrow> nat \<Rightarrow> string + find_attribute_node \<Rightarrow> pstate \<Rightarrow> find_attribute_node parsed"
and parse_and :: "nat \<Rightarrow> nat \<Rightarrow> pstate \<Rightarrow> find_attribute_node parsed"
and and_loop :: "nat \<Rightarrow> nat \<Rightarrow> string + find_attribute_node \<Rightarrow> pstate \<Rightarrow> find_attribute_node parsed"
and parse_factor :: "nat \<Rightarrow> nat \<Rightarrow> pstate \<Rightarrow> find_attribute_node parsed" where
  "parse_or 0 depth s = Out_of_fuel"
| "parse_or (Suc fuel) depth s =
     and_then (parse_and fuel depth s) (\<lambda>left s'. or_loop fuel depth (Inr left) s')"
| "or_loop 0 depth left s = Out_of_fuel"
| "or_loop (Suc fuel) depth left s =
     (if fst (consume ''||'' s) then
        and_then (parse_and fuel depth (snd (consume ''||'' s))) (\<lambda>right s2.
          or_loop fuel depth (fst (attr_join Logical_or left right s2))
            (snd (attr_join Logical_or left right s2)))
      else attr_result left (snd (consume ''||'' s)))"
| "parse_and 0 depth s = Out_of_fuel"
| "parse_and (Suc fuel) depth s =
     and_then (parse_factor fuel depth s) (\<lambda>left s'. and_loop fuel depth (Inr left) s')"
| "and_loop 0 depth left s = Out_of_fuel"
| "and_loop (Suc fuel) depth left s =
     (if fst (consume ''&&'' s) then
        and_then (parse_factor fuel depth (snd (consume ''&&'' s))) (\<lambda>right s2.
          and_loop fuel depth (fst (attr_join Logical_and left right s2))
            (snd (attr_join Logical_and left right s2)))
      else attr_result left (snd (consume ''&&'' s)))"
| "parse_factor 0 depth s = Out_of_fuel"
| "parse_factor (Suc fuel) depth s =
     (if depth > 32 then Failed ''attribute-expression nesting is too deep''
      else if fst (consume ''!'' s) then
        and_then (parse_factor fuel (depth + 1) (snd (consume ''!'' s)))
          (\<lambda>child s2. attr_make (Logical_not child) s2)
      else let s1 = snd (consume ''!'' s) in
        if fst (consume ''('' s1) then
          and_then (parse_or fuel (depth + 1) (snd (consume ''('' s1))) (\<lambda>child s3.
            if fst (consume '')'' s3) then Parsed child (snd (consume '')'' s3))
            else Failed ''unclosed attribute-expression group'')
        else parse_relation (snd (consume ''('' s1)))"

  by pat_completeness auto
termination
  by (relation "measure (case_sum (case_sum fst fst) (case_sum fst (case_sum fst fst)))") auto

definition parse_attributes :: "string \<Rightarrow> find_attribute_node parsed" where
  "parse_attributes input =
     and_then (parse_or (find_fuel input) 0 (input, 0)) (\<lambda>result s.
       if fst (skip_space s) \<noteq> [] then Failed ''unexpected attribute-expression token''
       else Parsed result (skip_space s))"

section \<open>Matching\<close>

text \<open>\<open>repeat_closure\<close>: the positions reached and the frontier; the loop body collects the positions
  the child reaches from the frontier that were not reached before.\<close>

definition closure_step :: "(nat \<Rightarrow> nat set) \<Rightarrow> nat set \<times> nat set \<Rightarrow> nat set \<times> nat set" where
  "closure_step child s =
     (let next = (\<Union>position \<in> snd s. child position) - fst s in (fst s \<union> next, next))"

definition repeat_closure :: "(nat \<Rightarrow> nat set) \<Rightarrow> nat set \<Rightarrow> (nat set \<times> nat set) option" where
  "repeat_closure child initial =
     while_option (\<lambda>s. snd s \<noteq> {}) (closure_step child) (initial, initial)"

fun match_node :: "find_node \<Rightarrow> string \<Rightarrow> nat \<Rightarrow> nat set"
and match_concatenation :: "find_node list \<Rightarrow> string \<Rightarrow> nat set \<Rightarrow> nat set"
and match_alternate :: "find_node list \<Rightarrow> string \<Rightarrow> nat \<Rightarrow> nat set" where
  "match_node Empty value position = {position}"
| "match_node (Literal c) value position =
     (if position < length value \<and> fold_char (value ! position) = c then {position + 1} else {})"
| "match_node Any value position = (if position < length value then {position + 1} else {})"
| "match_node (Character_class negated ranges) value position =
     (if position \<ge> length value then {}
      else
        let character = fold_char (value ! position);
            contained = list_ex (\<lambda>r. schar (fst r) \<le> schar character \<and> schar character \<le> schar (snd r)) ranges in
        if contained \<noteq> negated then {position + 1} else {})"
| "match_node (Concatenation children) value position = match_concatenation children value {position}"
| "match_node (Alternate children) value position = match_alternate children value position"
| "match_node (Repeat one_or_more child) value position =
     (if \<not> one_or_more then fst (the (repeat_closure (match_node child value) {position}))
      else fst (the (repeat_closure (match_node child value) (match_node child value position))))"
| "match_concatenation [] value positions = positions"
| "match_concatenation (child # children) value positions =
     (let next = (\<Union>current \<in> positions. match_node child value current) in
      if next = {} then next else match_concatenation children value next)"
| "match_alternate [] value position = {}"
| "match_alternate (child # children) value position =
     match_node child value position \<union> match_alternate children value position"

fun compare_number :: "int \<Rightarrow> find_compare \<Rightarrow> int \<Rightarrow> bool" where
  "compare_number left Equal right = (left = right)"
| "compare_number left Not_equal right = (left \<noteq> right)"
| "compare_number left Less_than right = (left < right)"
| "compare_number left Less_equal right = (left \<le> right)"
| "compare_number left Greater_than right = (left > right)"
| "compare_number left Greater_equal right = (left \<ge> right)"

definition compare_string :: "string \<Rightarrow> find_compare \<Rightarrow> string \<Rightarrow> bool" where
  "compare_string left comparison right =
     (if comparison = Equal then left = right
      else if comparison = Not_equal then left \<noteq> right
      else False)"

text \<open>A relation holds the text or the number the parser found for its attribute; the member that is
  not set is empty or zero.\<close>

definition match_relation ::
  "find_attribute \<Rightarrow> find_compare \<Rightarrow> int \<Rightarrow> string \<Rightarrow> resource_descriptor \<Rightarrow> bool" where
  "match_relation attribute comparison number text resource =
     (case attribute of
        Intf_type \<Rightarrow> compare_number (uint (interface_type resource)) comparison number
      | Intf_num \<Rightarrow> compare_number (uint (interface_number resource)) comparison number
      | Rsrc_class \<Rightarrow> compare_string (resource_class resource) comparison text
      | Rsrc_name \<Rightarrow> compare_string (canonical_name resource) comparison text
      | Asrl_baud \<Rightarrow> rd_kind resource = Asrl_instr \<and> compare_number 9600 comparison number)"

fun match_attributes :: "find_attribute_node \<Rightarrow> resource_descriptor \<Rightarrow> bool" where
  "match_attributes (Logical_and l r) resource =
     (match_attributes l resource \<and> match_attributes r resource)"
| "match_attributes (Logical_or l r) resource =
     (match_attributes l resource \<or> match_attributes r resource)"
| "match_attributes (Logical_not n) resource = (\<not> match_attributes n resource)"
| "match_attributes (Number_relation attribute comparison number) resource =
     match_relation attribute comparison number [] resource"
| "match_attributes (String_relation attribute comparison text) resource =
     match_relation attribute comparison 0 text resource"

section \<open>Find expressions\<close>

record find_expression =
  fe_root :: find_node
  fe_attributes :: "find_attribute_node option"

definition find_open :: "string \<Rightarrow> nat option" where
  "find_open e = (if CHR 0x7B \<in> set e then Some (length (takeWhile (\<lambda>c. c \<noteq> CHR 0x7B) e)) else None)"

definition find_compile :: "string \<Rightarrow> find_expression parsed" where
  "find_compile expression =
     (if expression = [] \<or> length expression \<ge> VI_FIND_BUFLEN then
        Failed ''empty or oversized expression''
      else
        let opening = find_open expression;
            bad = (case opening of
              Some o' \<Rightarrow>
                o' = 0 \<or> last expression \<noteq> CHR 0x7D \<or> CHR 0x7B \<in> set (drop (o' + 1) expression) \<or>
                length (takeWhile (\<lambda>c. c \<noteq> CHR 0x7D) expression) \<noteq> length expression - 1
            | None \<Rightarrow> CHR 0x7D \<in> set expression);
            regular = (case opening of Some o' \<Rightarrow> take o' expression | None \<Rightarrow> expression);
            attributes = (case opening of
              Some o' \<Rightarrow> take (length expression - o' - 2) (drop (o' + 1) expression)
            | None \<Rightarrow> []) in
        if bad then Failed ''malformed attribute-filter delimiter''
        else if opening \<noteq> None \<and> attributes = [] then Failed ''empty attribute expression''
        else and_then (parse_pattern regular) (\<lambda>root s.
          if attributes = [] then Parsed \<lparr>fe_root = root, fe_attributes = None\<rparr> s
          else and_then (parse_attributes attributes) (\<lambda>attrs s'.
                 Parsed \<lparr>fe_root = root, fe_attributes = Some attrs\<rparr> s')))"

definition matches_name :: "find_expression \<Rightarrow> string \<Rightarrow> bool" where
  "matches_name e value =
     (if length value \<notin> match_node (fe_root e) value 0 then False
      else case fe_attributes e of
        None \<Rightarrow> True
      | Some attributes \<Rightarrow>
          (case parse_resource value of
             None \<Rightarrow> False
           | Some resource \<Rightarrow> match_attributes attributes resource))"

definition matches_resource :: "find_expression \<Rightarrow> resource_descriptor \<Rightarrow> bool" where
  "matches_resource e resource \<longleftrightarrow>
     length (canonical_name resource) \<in> match_node (fe_root e) (canonical_name resource) 0 \<and>
     (case fe_attributes e of None \<Rightarrow> True | Some attributes \<Rightarrow> match_attributes attributes resource)"

section \<open>The language of a pattern\<close>

definition conc :: "string set \<Rightarrow> string set \<Rightarrow> string set" where
  "conc A B = {u @ v |u v. u \<in> A \<and> v \<in> B}"

inductive_set star :: "string set \<Rightarrow> string set" for A where
  star_Nil: "[] \<in> star A"
| star_append: "u \<in> A \<Longrightarrow> v \<in> star A \<Longrightarrow> u @ v \<in> star A"

definition in_class :: "bool \<Rightarrow> (char \<times> char) list \<Rightarrow> char \<Rightarrow> bool" where
  "in_class negated ranges c \<longleftrightarrow>
     list_ex (\<lambda>r. schar (fst r) \<le> schar (fold_char c) \<and> schar (fold_char c) \<le> schar (snd r)) ranges \<noteq> negated"

fun lang :: "find_node \<Rightarrow> string set" where
  "lang Empty = {[]}"
| "lang (Literal c) = {[x] |x. fold_char x = c}"
| "lang Any = {[x] |x. True}"
| "lang (Character_class negated ranges) = {[x] |x. in_class negated ranges x}"
| "lang (Concatenation ns) = foldr (\<lambda>n A. conc (lang n) A) ns {[]}"
| "lang (Alternate ns) = \<Union> (lang ` set ns)"
| "lang (Repeat one_or_more n) = (if one_or_more then conc (lang n) (star (lang n)) else star (lang n))"

text \<open>Where a match that starts at \<open>p\<close> can end.\<close>

definition spans :: "string set \<Rightarrow> string \<Rightarrow> nat \<Rightarrow> nat set" where
  "spans A v p = {q. p \<le> q \<and> q \<le> length v \<and> take (q - p) (drop p v) \<in> A}"

lemma slice_append:
  "p \<le> q \<Longrightarrow> q \<le> r \<Longrightarrow> take (r - p) (drop p v) = take (q - p) (drop p v) @ take (r - q) (drop q v)"
  using take_add [of "q - p" "r - q" "drop p v"] by simp

lemma spans_bound: "q \<in> spans A v p \<Longrightarrow> p \<le> q \<and> q \<le> length v"
  by (simp add: spans_def)

lemma spans_Nil: "p \<le> length v \<Longrightarrow> spans {[]} v p = {p}"
  by (auto simp: spans_def)

lemma spans_char:
  "spans {[x] |x. P x} v p = (if p < length v \<and> P (v ! p) then {p + 1} else {})"
proof -
  have "take (q - p) (drop p v) = [x] \<longleftrightarrow> p < length v \<and> q = p + 1 \<and> v ! p = x"
    if "p \<le> q" "q \<le> length v" for q x
  proof
    assume a: "take (q - p) (drop p v) = [x]"
    then have "length (take (q - p) (drop p v)) = 1" by simp
    with that have q: "q = p + 1" by simp
    moreover from q that have "drop p v = v ! p # drop (Suc p) v" by (simp add: Cons_nth_drop_Suc)
    ultimately show "p < length v \<and> q = p + 1 \<and> v ! p = x" using a that by simp
  next
    assume "p < length v \<and> q = p + 1 \<and> v ! p = x"
    then show "take (q - p) (drop p v) = [x]" by (simp add: Cons_nth_drop_Suc [symmetric])
  qed
  moreover have "p < length v \<Longrightarrow> take (Suc 0) (drop p v) = [v ! p]"
    by (simp add: Cons_nth_drop_Suc [symmetric])
  ultimately show ?thesis by (auto simp: spans_def)
qed

lemma spans_conc: "spans (conc A B) v p = (\<Union>q \<in> spans A v p. spans B v q)"
proof (intro equalityI subsetI)
  fix r assume "r \<in> spans (conc A B) v p"
  then obtain a b where r: "p \<le> r" "r \<le> length v" "take (r - p) (drop p v) = a @ b" "a \<in> A" "b \<in> B"
    by (auto simp: spans_def conc_def)
  define q where "q = p + length a"
  have "length a + length b = r - p" using arg_cong [OF r(3), of length] r(1,2) by simp
  then have q: "p \<le> q" "q \<le> r" using r(1) by (auto simp: q_def)
  have "take (q - p) (drop p v) @ take (r - q) (drop q v) = a @ b" using slice_append [OF q] r(3) by metis
  moreover have "length (take (q - p) (drop p v)) = length a" using q r(2) by (simp add: q_def)
  ultimately have "take (q - p) (drop p v) = a" "take (r - q) (drop q v) = b" by simp_all
  with q r show "r \<in> (\<Union>q \<in> spans A v p. spans B v q)" by (auto simp: spans_def)
next
  fix r assume "r \<in> (\<Union>q \<in> spans A v p. spans B v q)"
  then obtain q where "p \<le> q" "q \<le> r" "r \<le> length v" "take (q - p) (drop p v) \<in> A" "take (r - q) (drop q v) \<in> B"
    by (auto simp: spans_def)
  with slice_append [of p q r v] show "r \<in> spans (conc A B) v p" by (auto simp: spans_def conc_def)
qed

lemma spans_star:
  assumes "p \<le> length v"
  shows "spans (star A) v p = {q. (\<lambda>p q. q \<in> spans A v p)\<^sup>*\<^sup>* p q}"
proof (intro equalityI subsetI CollectI)
  have *: "w \<in> star A \<Longrightarrow> \<forall>p q. p \<le> q \<and> q \<le> length v \<and> take (q - p) (drop p v) = w \<longrightarrow>
      (\<lambda>p q. q \<in> spans A v p)\<^sup>*\<^sup>* p q" for w
  proof (induction rule: star.induct)
    case star_Nil
    have "p = q" if "p \<le> q \<and> q \<le> length v \<and> take (q - p) (drop p v) = []" for p q
      using that by auto
    then show ?case by (metis (no_types, lifting) rtranclp.rtrancl_refl)
  next
    case (star_append a b)
    show ?case
    proof (intro allI impI)
      fix p q assume q: "p \<le> q \<and> q \<le> length v \<and> take (q - p) (drop p v) = a @ b"
      define m where "m = p + length a"
      from q have "length (a @ b) = min (length v - p) (q - p)" by (metis length_take length_drop)
      moreover have le: "p \<le> q" "q \<le> length v" using q by auto
      ultimately have "length a + length b = q - p" by simp
      then have m: "p \<le> m" "m \<le> q" using q by (auto simp: m_def)
      have "take (m - p) (drop p v) @ take (q - m) (drop m v) = a @ b" using slice_append [OF m] q by metis
      moreover have "length (take (m - p) (drop p v)) = length a" using m le by (simp add: m_def)
      ultimately have s: "take (m - p) (drop p v) = a" "take (q - m) (drop m v) = b" by simp_all
      then have "m \<in> spans A v p" using star_append(1) m q by (auto simp: spans_def)
      moreover have "(\<lambda>p q. q \<in> spans A v p)\<^sup>*\<^sup>* m q" using star_append.IH m q s(2) by blast
      ultimately show "(\<lambda>p q. q \<in> spans A v p)\<^sup>*\<^sup>* p q" by (rule converse_rtranclp_into_rtranclp)
    qed
  qed
  fix q assume "q \<in> spans (star A) v p"
  then show "(\<lambda>p q. q \<in> spans A v p)\<^sup>*\<^sup>* p q" using * by (auto simp: spans_def)
next
  fix q assume "q \<in> {q. (\<lambda>p q. q \<in> spans A v p)\<^sup>*\<^sup>* p q}"
  then have "(\<lambda>p q. q \<in> spans A v p)\<^sup>*\<^sup>* p q" by simp
  then show "q \<in> spans (star A) v p" using assms
  proof (induction rule: converse_rtranclp_induct)
    case base
    then show ?case by (simp add: spans_def star.star_Nil)
  next
    case (step p m)
    then have "q \<in> spans (star A) v m" using spans_bound by blast
    with step.hyps(1) slice_append [of p m q v] show ?case by (auto simp: spans_def intro: star.star_append)
  qed
qed

section \<open>The matcher computes the language\<close>

lemma closure_step_keeps:
  assumes "closure_step child (r, fr) = (r', fr')" and "fr \<subseteq> r" and "r \<subseteq> {..n}"
    and "\<And>p. p \<le> n \<Longrightarrow> child p \<subseteq> {..n}" and "\<And>p q. p \<in> R \<Longrightarrow> q \<in> child p \<Longrightarrow> q \<in> R"
    and "r \<subseteq> R" and "\<forall>p \<in> r - fr. child p \<subseteq> r"
  shows "r \<subseteq> r' \<and> fr' \<subseteq> r' \<and> r' \<subseteq> {..n} \<and> r' \<subseteq> R \<and> (\<forall>p \<in> r' - fr'. child p \<subseteq> r')"
    and "fr \<noteq> {} \<Longrightarrow> 2 * card ({..n} - r') + (if fr' = {} then 0 else 1) <
                      2 * card ({..n} - r) + (if fr = {} then 0 else 1)"
proof -
  have fr': "fr' = (\<Union>p \<in> fr. child p) - r" and r': "r' = r \<union> fr'"
    using assms(1) by (auto simp: closure_step_def Let_def)
  have "q \<le> n \<and> q \<in> R" if "q \<in> fr'" for q
  proof -
    from that fr' obtain p where p: "p \<in> fr" "q \<in> child p" by auto
    then have "p \<le> n" "p \<in> R" using assms(2,3,6) by auto
    with p assms(4) [of p] assms(5) [of p q] show ?thesis by auto
  qed
  then have bound: "fr' \<subseteq> {..n}" and R: "fr' \<subseteq> R" by auto
  have "child p \<subseteq> r'" if "p \<in> r' - fr'" for p
    using that assms(7) fr' r' by (cases "p \<in> fr") blast+
  with bound R r' assms(3,6)
  show "r \<subseteq> r' \<and> fr' \<subseteq> r' \<and> r' \<subseteq> {..n} \<and> r' \<subseteq> R \<and> (\<forall>p \<in> r' - fr'. child p \<subseteq> r')" by blast
  show "2 * card ({..n} - r') + (if fr' = {} then 0 else 1) <
        2 * card ({..n} - r) + (if fr = {} then 0 else 1)" if "fr \<noteq> {}"
  proof (cases "fr' = {}")
    case True
    then show ?thesis using that r' by simp
  next
    case False
    then have "{..n} - r' \<subset> {..n} - r" using bound fr' r' by blast
    then have "card ({..n} - r') < card ({..n} - r)" by (intro psubset_card_mono) auto
    then show ?thesis by simp
  qed
qed

lemma repeat_closure_reaches:
  assumes "initial \<subseteq> {..n}" and "\<And>p. p \<le> n \<Longrightarrow> child p \<subseteq> {..n}"
  shows "repeat_closure child initial = Some ({q. \<exists>p\<in>initial. (\<lambda>p q. q \<in> child p)\<^sup>*\<^sup>* p q}, {})"
proof -
  define R where "R = {q. \<exists>p\<in>initial. (\<lambda>p q. q \<in> child p)\<^sup>*\<^sup>* p q}"
  have closed: "q \<in> R" if "p \<in> R" "q \<in> child p" for p q
    using that unfolding R_def by (blast intro: rtranclp.rtrancl_into_rtrancl)
  define inv where "inv s \<longleftrightarrow> initial \<subseteq> fst s \<and> snd s \<subseteq> fst s \<and> fst s \<subseteq> {..n} \<and> fst s \<subseteq> R \<and>
    (\<forall>p \<in> fst s - snd s. child p \<subseteq> fst s)" for s
  define f where "f s = 2 * card ({..n} - fst s) + (if snd s = {} then 0 else 1)" for s :: "nat set \<times> nat set"
  have step: "inv (closure_step child s) \<and> f (closure_step child s) < f s" if "inv s" "snd s \<noteq> {}" for s
  proof -
    obtain r fr r' fr' where s: "s = (r, fr)" and c: "closure_step child (r, fr) = (r', fr')"
      by (metis prod.exhaust)
    from that s show ?thesis
      using closure_step_keeps [OF c, of n R] assms(2) closed c unfolding inv_def f_def by simp blast
  qed
  have "initial \<subseteq> R" unfolding R_def by blast
  then have init: "inv (initial, initial)" using assms(1) by (simp add: inv_def)
  obtain t where t: "while_option (\<lambda>s. snd s \<noteq> {}) (closure_step child) (initial, initial) = Some t"
    using measure_while_option_Some [where P = inv and f = f and b = "\<lambda>s. snd s \<noteq> {}", OF step init] by blast
  have fin: "snd t = {}" using while_option_stop [OF t] by simp
  have inv: "inv t" by (rule while_option_rule [where P = inv, OF _ t init]) (use step in blast)
  have "q \<in> fst t" if "q \<in> R" for q
  proof -
    from that obtain p where p: "p \<in> initial" "(\<lambda>p q. q \<in> child p)\<^sup>*\<^sup>* p q" by (auto simp: R_def)
    from p(2) show ?thesis
      by (induction rule: rtranclp_induct) (use inv fin p(1) in \<open>auto simp: inv_def\<close>)
  qed
  with inv have "fst t = R" by (auto simp: inv_def)
  with fin t show ?thesis unfolding repeat_closure_def R_def by (metis prod.collapse)
qed

lemma spans_closed: "spans A v p \<subseteq> {..length v}"
  by (auto simp: spans_def)

lemma rtranclp_restrict:
  assumes "\<And>p. p \<le> n \<Longrightarrow> f p = g p" and "\<And>p q. q \<in> g p \<Longrightarrow> q \<le> n" and "p \<le> (n :: nat)"
  shows "(\<lambda>p q. q \<in> f p)\<^sup>*\<^sup>* p q \<longleftrightarrow> (\<lambda>p q. q \<in> g p)\<^sup>*\<^sup>* p q"
proof
  have *: "(\<lambda>p q. q \<in> f p)\<^sup>*\<^sup>* p q \<Longrightarrow> (\<lambda>p q. q \<in> g p)\<^sup>*\<^sup>* p q \<and> q \<le> n" 
    by (induction rule: rtranclp_induct) (use assms in \<open>auto intro: rtranclp.rtrancl_into_rtrancl\<close>)
  then show "(\<lambda>p q. q \<in> f p)\<^sup>*\<^sup>* p q \<Longrightarrow> (\<lambda>p q. q \<in> g p)\<^sup>*\<^sup>* p q" by blast
  have "(\<lambda>p q. q \<in> g p)\<^sup>*\<^sup>* p q \<Longrightarrow> (\<lambda>p q. q \<in> f p)\<^sup>*\<^sup>* p q \<and> q \<le> n"
    by (induction rule: rtranclp_induct) (use assms in \<open>auto intro: rtranclp.rtrancl_into_rtrancl\<close>)
  then show "(\<lambda>p q. q \<in> g p)\<^sup>*\<^sup>* p q \<Longrightarrow> (\<lambda>p q. q \<in> f p)\<^sup>*\<^sup>* p q" by blast
qed

lemma repeat_closure_spans:
  assumes "\<And>p. p \<le> length v \<Longrightarrow> child p = spans A v p" and "initial \<subseteq> {..length v}"
  shows "repeat_closure child initial = Some (\<Union>p\<in>initial. spans (star A) v p, {})"
proof -
  have "repeat_closure child initial = Some ({q. \<exists>p\<in>initial. (\<lambda>p q. q \<in> child p)\<^sup>*\<^sup>* p q}, {})"
    by (rule repeat_closure_reaches [OF assms(2)]) (use assms(1) spans_closed in blast)
  moreover have "(\<lambda>p q. q \<in> child p)\<^sup>*\<^sup>* p q \<longleftrightarrow> q \<in> spans (star A) v p" if "p \<in> initial" for p q
    using rtranclp_restrict [of "length v" child "\<lambda>p. spans A v p" p q] assms that spans_star [of p v A]
    by (auto dest: spans_bound)
  ultimately show ?thesis by auto
qed

lemma match_node_spans:
  shows "p \<le> length v \<Longrightarrow> match_node n v p = spans (lang n) v p"
    and "ps \<subseteq> {..length v} \<Longrightarrow>
      match_concatenation ns v ps = (\<Union>p\<in>ps. spans (foldr (\<lambda>n A. conc (lang n) A) ns {[]}) v p)"
    and "p \<le> length v \<Longrightarrow> match_alternate ns v p = spans (\<Union> (lang ` set ns)) v p"
proof (induction n v p and ns v ps and ns v p rule: match_node_match_concatenation_match_alternate.induct)
  case (3 v p)
  then show ?case using spans_char [of "\<lambda>_. True" v p] by simp
next
  case (7 plus n v p)
  then show ?case
    using repeat_closure_spans [of v "match_node n v" "lang n"] spans_closed
    by (auto simp: spans_conc)
next
  case (8 v ps)
  then show ?case using spans_Nil [of _ v] by auto
next
  case (9 n ns v ps)
  have m: "(\<Union>c \<in> ps. match_node n v c) = (\<Union>c \<in> ps. spans (lang n) v c)"
    by (rule SUP_cong) (use 9 in auto)
  have "(\<Union>c \<in> ps. spans (lang n) v c) \<subseteq> {..length v}" using spans_closed by blast
  with 9(2) [OF refl] show ?case by (auto simp: spans_conc Let_def m)
next
  case (10 v p)
  then show ?case by (simp add: spans_def)
next
  case (11 n ns v p)
  then show ?case by (auto simp: spans_def)
qed (auto simp: spans_Nil spans_char in_class_def Let_def)

section \<open>The parsers return\<close>

text \<open>A call returns, and what it parses satisfies \<open>P\<close> and leaves at most \<open>n\<close> characters.\<close>

definition yields :: "('a \<Rightarrow> bool) \<Rightarrow> 'a parsed \<Rightarrow> nat \<Rightarrow> bool" where
  "yields P r n \<longleftrightarrow>
     (case r of Out_of_fuel \<Rightarrow> False | Failed e \<Rightarrow> True | Parsed x s \<Rightarrow> P x \<and> length (fst s) \<le> n)"

lemma yields_simps [simp]:
  "\<not> yields P Out_of_fuel n" "yields P (Failed e) n"
  "yields P (Parsed x s) n \<longleftrightarrow> P x \<and> length (fst s) \<le> n"
  by (simp_all add: yields_def)

lemma yields_and_then:
  assumes "yields P r n" and "\<And>x s. P x \<Longrightarrow> length (fst s) \<le> n \<Longrightarrow> yields Q (f x s) m"
  shows "yields Q (and_then r f) m"
  using assms by (cases r) simp_all

lemma at_length: "at s c \<Longrightarrow> length s \<ge> 1"
  by (cases s) (auto simp: at_def)

lemma yields_make: "P node \<Longrightarrow> length (fst s) \<le> n \<Longrightarrow> yields P (make_node node s) n"
  by (simp add: make_node_def Let_def)

text \<open>What the pattern parser builds: literals are case-folded, classes are non-empty with ordered
  ranges, sequences and alternatives have at least two members.\<close>

fun find_wf :: "find_node \<Rightarrow> bool" where
  "find_wf Empty = False"
| "find_wf (Literal c) = (fold_char c = c)"
| "find_wf Any = True"
| "find_wf (Character_class negated ranges) =
     (ranges \<noteq> [] \<and> list_all (\<lambda>r. schar (fst r) \<le> schar (snd r)) ranges)"
| "find_wf (Concatenation ns) = (length ns \<ge> 2 \<and> list_all find_wf ns)"
| "find_wf (Alternate ns) = (length ns \<ge> 2 \<and> list_all find_wf ns)"
| "find_wf (Repeat one_or_more n) = find_wf n"

lemma class_character_yields:
  "fst s \<noteq> [] \<Longrightarrow> yields (\<lambda>_. True) (class_character s) (length (fst s) - 1)"
  by (auto simp: class_character_def split: list.splits)

lemma yields_mono: "yields P r n \<Longrightarrow> n \<le> m \<Longrightarrow> yields P r m"
  by (cases r) auto

lemma class_loop_yields:
  "length (fst s) < fuel \<Longrightarrow> list_all (\<lambda>r. schar (fst r) \<le> schar (snd r)) ranges \<Longrightarrow>
   yields find_wf (class_loop fuel negated ranges s) (length (fst s))"
proof (induction fuel arbitrary: ranges s)
  case (Suc fuel)
  have go: "yields find_wf (class_loop fuel negated (ranges @ [(a, b)]) s2) (length (fst s))"
    if "length (fst s2) < length (fst s)" "schar a \<le> schar b" for a b s2
    by (rule yields_mono [OF Suc.IH]) (use that Suc.prems in auto)
  show ?case
  proof (cases "fst s \<noteq> [] \<and> hd (fst s) \<noteq> CHR '']''")
    case True
    have "yields find_wf (case class_character (tl (fst s1), snd s1) of
               Out_of_fuel \<Rightarrow> Out_of_fuel
             | Failed e \<Rightarrow> Failed ''invalid character range''
             | Parsed last_char s2 \<Rightarrow>
                 if schar first > schar last_char then Failed ''invalid character range''
                 else class_loop fuel negated (ranges @ [(first, last_char)]) s2) (length (fst s))"
      if "length (fst s1) > 1" "length (fst s1) \<le> length (fst s) - 1" for first s1
      using that go class_character_yields [of "(tl (fst s1), snd s1)"]
      by (cases "class_character (tl (fst s1), snd s1)") (auto simp flip: length_greater_0_conv)
    moreover have "length (fst s1) < length (fst s)" if "length (fst s1) \<le> length (fst s) - 1" for s1 :: pstate
      using that True by (cases "fst s") auto
    ultimately show ?thesis using True go
      by (auto intro!: yields_and_then [OF class_character_yields])
  next
    case False
    with Suc.prems show ?thesis by (auto intro!: yields_make)
  qed
qed simp

lemma parse_class_yields: "yields find_wf (parse_class s) (length (fst s))"
proof -
  have "yields find_wf (class_loop (length (fst s') + 1) negated [] s') (length (fst s))"
    if "length (fst s') \<le> length (fst s)" for s' negated
    by (rule yields_mono [OF class_loop_yields that]) simp_all
  then show ?thesis by (simp add: parse_class_def Let_def)
qed

lemma length_ge_two: "xs \<noteq> [] \<Longrightarrow> length xs \<noteq> 1 \<Longrightarrow> 2 \<le> length xs"
  by (cases xs; cases "tl xs") auto

lemma pattern_yields:
  shows "4 * length (fst s) + 4 \<le> fuel \<Longrightarrow> yields find_wf (parse_alternate fuel depth s) (length (fst s))"
    and "4 * length (fst s) + 3 \<le> fuel \<Longrightarrow> branches \<noteq> [] \<Longrightarrow> list_all find_wf branches \<Longrightarrow>
      yields find_wf (alternate_loop fuel depth branches s) (length (fst s))"
    and "4 * length (fst s) + 3 \<le> fuel \<Longrightarrow> list_all find_wf sequence \<Longrightarrow>
      yields find_wf (concatenation_loop fuel depth sequence s) (length (fst s))"
    and "4 * length (fst s) + 1 \<le> fuel \<Longrightarrow> yields find_wf (parse_atom fuel depth s) (length (fst s) - 1)"
proof (induction fuel arbitrary: depth s branches sequence)
  case (Suc fuel)
  {
    case 1
    then show ?case
      by (auto intro!: yields_and_then [OF Suc(3)] intro: yields_mono [OF Suc(2)])
  next
    case 2
    have loop: "yields find_wf (and_then (concatenation_loop fuel depth [] (tl (fst s), snd s))
          (\<lambda>branch s'. alternate_loop fuel depth (branches @ [branch]) s')) (length (fst s))"
      if "at (fst s) (CHR ''|'')"
      using 2 at_length [OF that]
      by (intro yields_and_then [OF Suc(3)]) (auto intro: yields_mono [OF Suc(2)])
    have "list_all find_wf branches \<Longrightarrow> branches \<noteq> [] \<Longrightarrow> find_wf (hd branches)" by (cases branches) auto
    moreover note length_ge_two [of branches]
    ultimately show ?case using 2 loop by (auto intro: yields_make)
  next
    case 3
    have "list_all find_wf sequence \<Longrightarrow> sequence \<noteq> [] \<Longrightarrow> find_wf (hd sequence)" by (cases sequence) auto
    moreover note length_ge_two [of sequence]
    moreover have "yields find_wf (and_then (parse_atom fuel depth s) (\<lambda>atom s1.
          if at (fst s1) (CHR ''*'') \<or> at (fst s1) (CHR ''+'') then
            and_then (make_node (Repeat (hd (fst s1) = CHR ''+'') atom) (tl (fst s1), snd s1))
              (\<lambda>rep s2.
                if at (fst s2) (CHR ''*'') \<or> at (fst s2) (CHR ''+'') then Failed ''repeated quantifier''
                else concatenation_loop fuel depth (sequence @ [rep]) s2)
          else concatenation_loop fuel depth (sequence @ [atom]) s1)) (length (fst s))"
      if "fst s \<noteq> []"
    proof (rule yields_and_then [OF Suc(4)])
      show "4 * length (fst s) + 1 \<le> fuel" using 3 by simp
      fix atom and s1 :: pstate assume a: "find_wf atom" "length (fst s1) \<le> length (fst s) - 1"
      have lt: "length (fst s1) < length (fst s)" using a(2) that by (cases "fst s") auto
      have go: "yields find_wf (concatenation_loop fuel depth (sequence @ [n]) s2) (length (fst s))"
        if "find_wf n" "length (fst s2) \<le> length (fst s1)" for n s2
        by (rule yields_mono [OF Suc(3)]) (use 3 lt that in auto)
      show "yields find_wf (if at (fst s1) (CHR ''*'') \<or> at (fst s1) (CHR ''+'') then
            and_then (make_node (Repeat (hd (fst s1) = CHR ''+'') atom) (tl (fst s1), snd s1))
              (\<lambda>rep s2.
                if at (fst s2) (CHR ''*'') \<or> at (fst s2) (CHR ''+'') then Failed ''repeated quantifier''
                else concatenation_loop fuel depth (sequence @ [rep]) s2)
          else concatenation_loop fuel depth (sequence @ [atom]) s1) (length (fst s))"
        using a(1) go by (auto intro!: yields_and_then [OF yields_make [where P = find_wf and n = "length (fst s1)"]])
    qed
    ultimately show ?case using 3 by (auto intro: yields_make)
  next
    case 4
    have group: "yields find_wf (and_then (parse_alternate fuel (depth + 1) (tl (fst s), snd s)) (\<lambda>group s2.
            if \<not> at (fst s2) (CHR '')'') then Failed ''unclosed group''
            else Parsed group (tl (fst s2), snd s2))) (length (fst s) - 1)" if "fst s \<noteq> []"
    proof (rule yields_and_then [OF Suc(1)])
      show "4 * length (fst (tl (fst s), snd s)) + 4 \<le> fuel" using 4 that by (cases "fst s") auto
    qed auto
    have "yields find_wf (parse_class (tl (fst s), snd s)) (length (fst s) - 1)"
      using parse_class_yields [of "(tl (fst s), snd s)"] by simp
    with group show ?case by (auto simp: Let_def fold_char_def intro!: yields_make)
  }
qed simp_all

lemma parse_pattern_yields: "yields find_wf (parse_pattern input) 0"
proof -
  have "yields find_wf (parse_alternate (find_fuel input) 0 (input, 0)) (length input)"
    using pattern_yields(1) [of "(input, 0)" "find_fuel input" 0] by (simp add: find_fuel_def)
  then show ?thesis by (auto simp: parse_pattern_def intro!: yields_and_then)
qed

section \<open>The filter parser returns\<close>

text \<open>The relations the filter parser builds: an attribute that is compared as a string has a string
  literal and is compared for equality only, a numeric one has a 64-bit number.\<close>

fun attr_wf :: "find_attribute_node \<Rightarrow> bool" where
  "attr_wf (Number_relation a c n) = (a \<notin> {Rsrc_class, Rsrc_name} \<and> - (2 ^ 63) \<le> n \<and> n < 2 ^ 63)"
| "attr_wf (String_relation a c t) = (a \<in> {Rsrc_class, Rsrc_name} \<and> c \<in> {Equal, Not_equal})"
| "attr_wf (Logical_and l r) = (attr_wf l \<and> attr_wf r)"
| "attr_wf (Logical_or l r) = (attr_wf l \<and> attr_wf r)"
| "attr_wf (Logical_not n) = attr_wf n"

lemma yields_attr_make: "P node \<Longrightarrow> length (fst s) \<le> n \<Longrightarrow> yields P (attr_make node s) n"
  by (simp add: attr_make_def Let_def)

lemma skip_space_length: "length (fst (skip_space s)) \<le> length (fst s)"
  by (simp add: skip_space_def length_dropWhile_le)

lemma consume_length:
  "length (fst (snd (consume t s))) \<le> length (fst s)"
  "fst (consume t s) \<Longrightarrow> length (fst (snd (consume t s))) + length t \<le> length (fst s)"
proof -
  have "length t \<le> length (fst (skip_space s))" if "take (length t) (fst (skip_space s)) = t"
    using arg_cong [OF that, of length] by simp
  with skip_space_length [of s] show "length (fst (snd (consume t s))) \<le> length (fst s)"
    "fst (consume t s) \<Longrightarrow> length (fst (snd (consume t s))) + length t \<le> length (fst s)"
    by (auto simp: consume_def Let_def)
qed

lemma try_tokens_length: "length (fst (snd (try_tokens ts s))) \<le> length (fst s)"
proof (induction ts arbitrary: s)
  case (Cons tv ts)
  obtain t v f s' where "tv = (t, v)" and c: "consume t s = (f, s')" by (metis prod.exhaust)
  moreover from c have "length (fst s') \<le> length (fst s)" using consume_length(1) [of t s] by simp
  ultimately show ?case using Cons.IH [of s'] by simp
qed simp

lemma attr_identifier_length: "length (fst (snd (attr_identifier s))) \<le> length (fst s)"
proof -
  have "length (dropWhile P (tl xs)) \<le> length xs" for P and xs :: string
    using length_dropWhile_le [of P "tl xs"] by simp
  with skip_space_length [of s] show ?thesis
    by (auto simp: attr_identifier_def Let_def intro: le_trans)
qed

lemma string_literal_yields: "yields (\<lambda>_. True) (string_literal s) (length (fst s))"
proof -
  have "length (tl (dropWhile P (tl xs))) \<le> length xs" for P and xs :: string
    using length_dropWhile_le [of P "tl xs"] by simp
  with skip_space_length [of s] show ?thesis
    by (auto simp: string_literal_def Let_def intro: le_trans)
qed

lemma number_literal_yields: "yields (\<lambda>n. - (2 ^ 63) \<le> n \<and> n < 2 ^ 63) (number_literal s) (length (fst s))"
proof -
  have "length (dropWhile P ys) \<le> n" if "length ys \<le> n" for P and ys :: string and n
    using length_dropWhile_le [of P ys] that by simp
  with skip_space_length [of s] show ?thesis
    unfolding number_literal_def Let_def by (simp add: not_le not_less)
qed

lemma parse_relation_yields: "yields attr_wf (parse_relation s) (length (fst s))"
proof -
  have "yields attr_wf (and_then (string_literal s2) (\<lambda>text s3. attr_make (String_relation a c text) s3)) (length (fst s))"
    if "length (fst s2) \<le> length (fst s)" "a \<in> {Rsrc_class, Rsrc_name}" "c \<in> {Equal, Not_equal}" for s2 a c
    using that by (intro yields_and_then [OF string_literal_yields] yields_attr_make) auto
  moreover have "yields attr_wf (and_then (number_literal s2) (\<lambda>n s3. attr_make (Number_relation a c n) s3)) (length (fst s))"
    if "length (fst s2) \<le> length (fst s)" "a \<notin> {Rsrc_class, Rsrc_name}" for s2 a c
    using that by (intro yields_and_then [OF number_literal_yields] yields_attr_make) auto
  moreover have "length (fst s2) \<le> length (fst s)"
    if "attr_identifier s = (i, s1)" "compare_operator s1 = (c, s2)" for i c s1 s2
    using that attr_identifier_length [of s] try_tokens_length [of compare_tokens s1]
    by (simp add: compare_operator_def)
  ultimately show ?thesis
    by (auto simp: parse_relation_def split: prod.splits option.splits)
qed

definition join_wf :: "string + find_attribute_node \<Rightarrow> bool" where
  "join_wf left = (case left of Inl e \<Rightarrow> True | Inr l \<Rightarrow> attr_wf l)"

lemma attr_join_wf:
  assumes "join_wf left" and "attr_wf right" and "\<And>l r. attr_wf l \<Longrightarrow> attr_wf r \<Longrightarrow> attr_wf (c l r)"
  shows "join_wf (fst (attr_join c left right s))" and "fst (snd (attr_join c left right s)) = fst s"
  using assms by (auto simp: attr_join_def join_wf_def attr_make_def Let_def split: sum.splits)

lemma attr_result_yields:
  "join_wf left \<Longrightarrow> length (fst s) \<le> n \<Longrightarrow> yields attr_wf (attr_result left s) n"
  by (auto simp: attr_result_def join_wf_def split: sum.splits)

lemma filter_yields:
  shows "4 * length (fst s) + 4 \<le> fuel \<Longrightarrow> yields attr_wf (parse_or fuel depth s) (length (fst s))"
    and "4 * length (fst s) + 3 \<le> fuel \<Longrightarrow> join_wf left \<Longrightarrow>
      yields attr_wf (or_loop fuel depth left s) (length (fst s))"
    and "4 * length (fst s) + 3 \<le> fuel \<Longrightarrow> yields attr_wf (parse_and fuel depth s) (length (fst s))"
    and "4 * length (fst s) + 2 \<le> fuel \<Longrightarrow> join_wf left \<Longrightarrow>
      yields attr_wf (and_loop fuel depth left s) (length (fst s))"
    and "4 * length (fst s) + 2 \<le> fuel \<Longrightarrow> yields attr_wf (parse_factor fuel depth s) (length (fst s))"
proof (induction fuel arbitrary: depth s left)
  case (Suc fuel)
  note join = attr_join_wf [of _ _ Logical_or] attr_join_wf [of _ _ Logical_and]
  {
    case 1
    then show ?case
      by (auto simp: join_wf_def intro!: yields_and_then [OF Suc(3)] intro: yields_mono [OF Suc(2)])
  next
    case 2
    let ?s = "snd (consume ''||'' s)"
    have "yields attr_wf (and_then (parse_and fuel depth ?s) (\<lambda>right s2.
          or_loop fuel depth (fst (attr_join Logical_or left right s2))
            (snd (attr_join Logical_or left right s2)))) (length (fst s))"
      if "fst (consume ''||'' s)"
      using consume_length(2) [OF that] 2
      by (intro yields_and_then [OF Suc(3)]) (auto simp: join intro!: yields_mono [OF Suc(2)])
    with 2 show ?case using consume_length(1) [of "''||''" s] by (auto intro: attr_result_yields)
  next
    case 3
    then show ?case
      by (auto simp: join_wf_def intro!: yields_and_then [OF Suc(5)] intro: yields_mono [OF Suc(4)])
  next
    case 4
    let ?s = "snd (consume ''&&'' s)"
    have "yields attr_wf (and_then (parse_factor fuel depth ?s) (\<lambda>right s2.
          and_loop fuel depth (fst (attr_join Logical_and left right s2))
            (snd (attr_join Logical_and left right s2)))) (length (fst s))"
      if "fst (consume ''&&'' s)"
      using consume_length(2) [OF that] 4
      by (intro yields_and_then [OF Suc(5)]) (auto simp: join intro!: yields_mono [OF Suc(4)])
    with 4 show ?case using consume_length(1) [of "''&&''" s] by (auto intro: attr_result_yields)
  next
    case 5
    let ?s = "snd (consume ''!'' s)" 
    let ?t = "snd (consume ''('' ?s)"
    have le: "length (fst ?s) \<le> length (fst s)" "length (fst ?t) \<le> length (fst s)"
      using consume_length(1) [of "''!''" s] consume_length(1) [of "''(''" ?s] by linarith+
    have neg: "yields attr_wf (and_then (parse_factor fuel (depth + 1) ?s)
          (\<lambda>child s2. attr_make (Logical_not child) s2)) (length (fst s))" if "fst (consume ''!'' s)"
      using consume_length(2) [OF that] 5
      by (intro yields_and_then [OF Suc(5)] yields_attr_make) auto
    have group: "yields attr_wf (and_then (parse_or fuel (depth + 1) ?t) (\<lambda>child s3.
            if fst (consume '')'' s3) then Parsed child (snd (consume '')'' s3))
            else Failed ''unclosed attribute-expression group'')) (length (fst s))" if "fst (consume ''('' ?s)"
    proof (rule yields_and_then [OF Suc(1)])
      show "4 * length (fst ?t) + 4 \<le> fuel" using consume_length(2) [OF that] le 5 by simp
      fix child and s3 :: pstate assume "attr_wf child" "length (fst s3) \<le> length (fst ?t)"
      then show "yields attr_wf (if fst (consume '')'' s3) then Parsed child (snd (consume '')'' s3))
            else Failed ''unclosed attribute-expression group'') (length (fst s))"
        using consume_length(1) [of "'')''" s3] le by simp
    qed
    have "yields attr_wf (parse_relation ?t) (length (fst s))"
      by (rule yields_mono [OF parse_relation_yields le(2)])
    with neg group show ?case by (simp add: Let_def)
  }
qed simp_all

lemma parse_attributes_yields: "yields attr_wf (parse_attributes input) 0"
proof -
  have "yields attr_wf (parse_or (find_fuel input) 0 (input, 0)) (length input)"
    using filter_yields(1) [of "(input, 0)" "find_fuel input" 0] by (simp add: find_fuel_def)
  then show ?thesis by (auto simp: parse_attributes_def intro!: yields_and_then)
qed

section \<open>Case folding\<close>

definition fold_closed :: "string set \<Rightarrow> bool" where
  "fold_closed A \<longleftrightarrow> (\<forall>w. w \<in> A \<longleftrightarrow> upper_string w \<in> A)"

lemma fold_closed_conc:
  assumes "fold_closed A" and "fold_closed B"
  shows "fold_closed (conc A B)"
  unfolding fold_closed_def
proof
  fix w
  show "w \<in> conc A B \<longleftrightarrow> upper_string w \<in> conc A B"
  proof
    assume "w \<in> conc A B"
    then obtain u v where "w = u @ v" "u \<in> A" "v \<in> B" by (auto simp: conc_def)
    with assms show "upper_string w \<in> conc A B" by (auto simp: conc_def fold_closed_def)
  next
    assume "upper_string w \<in> conc A B"
    then obtain u v where w: "upper_string w = u @ v" "u \<in> A" "v \<in> B" by (auto simp: conc_def)
    from w(1) obtain u' v' where "w = u' @ v'" "upper_string u' = u" "upper_string v' = v"
      by (auto simp: map_eq_append_conv)
    with assms w show "w \<in> conc A B" by (auto simp: conc_def fold_closed_def)
  qed
qed

lemma fold_closed_star:
  assumes "fold_closed A"
  shows "fold_closed (star A)"
proof -
  have up: "w \<in> star A \<Longrightarrow> upper_string w \<in> star A" for w
    by (induction rule: star.induct) (use assms in \<open>auto simp: fold_closed_def intro: star.intros\<close>)
  have "x \<in> star A \<Longrightarrow> \<forall>w. upper_string w = x \<longrightarrow> w \<in> star A" for x
  proof (induction rule: star.induct)
    case star_Nil
    then show ?case by (auto intro: star.intros)
  next
    case (star_append u v)
    show ?case
    proof (intro allI impI)
      fix w assume "upper_string w = u @ v"
      then obtain u' v' where "w = u' @ v'" "upper_string u' = u" "upper_string v' = v"
        by (auto simp: map_eq_append_conv)
      with assms star_append show "w \<in> star A" by (auto simp: fold_closed_def intro: star.intros)
    qed
  qed
  with up show ?thesis by (auto simp: fold_closed_def)
qed

lemma fold_closed_char: "(\<And>c. P (toupper c) \<longleftrightarrow> P c) \<Longrightarrow> fold_closed {[x] |x. P x}"
  unfolding fold_closed_def
proof
  fix w assume "\<And>c. P (toupper c) \<longleftrightarrow> P c"
  then show "w \<in> {[x] |x. P x} \<longleftrightarrow> upper_string w \<in> {[x] |x. P x}" by (cases w; cases "tl w") auto
qed

lemma fold_closed_Nil: "fold_closed {[]}"
  by (simp add: fold_closed_def)

lemma fold_closed_Union: "(\<And>A. A \<in> X \<Longrightarrow> fold_closed A) \<Longrightarrow> fold_closed (\<Union> X)"
  unfolding fold_closed_def by blast

lemma lang_fold_closed: "fold_closed (lang n)"
proof (induction n)
  case (Concatenation ns)
  then have "fold_closed (foldr (\<lambda>n A. conc (lang n) A) ns {[]})"
    by (induction ns) (simp_all add: fold_closed_conc fold_closed_Nil)
  then show ?case by simp
next
  case (Alternate ns)
  then have "fold_closed (\<Union> (lang ` set ns))" by (intro fold_closed_Union) auto
  then show ?case by simp
next
  case (Repeat plus n)
  then show ?case by (auto intro: fold_closed_conc fold_closed_star)
next
  case (Character_class negated ranges)
  have "fold_closed {[x] |x. in_class negated ranges x}"
    by (rule fold_closed_char) (simp add: in_class_def fold_char_def)
  then show ?case by simp
next
  case (Literal c)
  have "fold_closed {[x] |x. fold_char x = c}"
    by (rule fold_closed_char) (simp add: fold_char_def)
  then show ?case by simp
next
  case Any
  have "fold_closed {[x] |x. True}" by (rule fold_closed_char) simp
  then show ?case by simp
qed (simp add: fold_closed_Nil)

section \<open>Plain patterns\<close>

text \<open>Characters that stand for themselves in a pattern.\<close>

definition ordinary :: "char \<Rightarrow> bool" where
  "ordinary c \<longleftrightarrow> c \<notin> {CHR ''('', CHR '')'', CHR ''['', CHR ''?'', CHR ''*'', CHR ''+'', CHR ''|'',
                        CHR 0x5C, CHR 0x7B, CHR 0x7D}"

definition literal_node :: "string \<Rightarrow> find_node" where
  "literal_node w =
     (if length w = 1 then Literal (fold_char (hd w)) else Concatenation (map (\<lambda>c. Literal (fold_char c)) w))"

lemma concatenation_loop_literal:
  assumes "list_all ordinary w" and "4 * length w + 3 \<le> fuel" and "nodes + length w + 1 \<le> 512"
    and "seq @ w \<noteq> []"
  shows "concatenation_loop fuel depth (map (\<lambda>c. Literal (fold_char c)) seq) (w, nodes) =
    (if length (seq @ w) = 1 then Parsed (Literal (fold_char (hd (seq @ w)))) ([], nodes + length w)
     else Parsed (Concatenation (map (\<lambda>c. Literal (fold_char c)) (seq @ w))) ([], nodes + length w + 1))"
  using assms
proof (induction w arbitrary: fuel seq nodes)
  case Nil
  then show ?case by (cases fuel) (auto simp: make_node_def Let_def hd_map)
next
  case (Cons c w)
  obtain f where f: "fuel = Suc (Suc f)" using Cons.prems(2) by (cases fuel; cases "fuel - 1") auto
  have atom: "parse_atom (Suc f) depth (c # w, nodes) = Parsed (Literal (fold_char c)) (w, nodes + 1)"
    using Cons.prems(1,3) by (auto simp: ordinary_def make_node_def Let_def)
  have "\<not> at w (CHR ''*'') \<and> \<not> at w (CHR ''+'')"
    using Cons.prems(1) by (cases w) (auto simp: at_def ordinary_def)
  then have "concatenation_loop fuel depth (map (\<lambda>c. Literal (fold_char c)) seq) (c # w, nodes) =
      concatenation_loop (Suc f) depth (map (\<lambda>c. Literal (fold_char c)) (seq @ [c])) (w, nodes + 1)"
    using Cons.prems(1) atom f by (auto simp: ordinary_def)
  also have "\<dots> = (if length (seq @ c # w) = 1 then Parsed (Literal (fold_char (hd (seq @ c # w)))) ([], nodes + length (c # w))
     else Parsed (Concatenation (map (\<lambda>c. Literal (fold_char c)) (seq @ c # w))) ([], nodes + length (c # w) + 1))"
    using Cons.IH [of "Suc f" "nodes + 1" "seq @ [c]"] Cons.prems f by simp
  finally show ?case .
qed

lemma conc_char: "conc {[x] |x. P x} B = {x # v |x v. P x \<and> v \<in> B}"
  by (auto simp: conc_def) (metis append_Cons append_Nil)

lemma lang_literal_node: "w \<noteq> [] \<Longrightarrow> lang (literal_node w) = {v. upper_string v = upper_string w}"
proof -
  have "foldr (\<lambda>n A. conc (lang n) A) (map (\<lambda>c. Literal (fold_char c)) w) {[]} = {v. upper_string v = upper_string w}"
    by (induction w) (auto simp: conc_char fold_char_def map_eq_Cons_conv)
  moreover have "length w = 1 \<Longrightarrow> {[x] |x. fold_char x = fold_char (hd w)} = {v. upper_string v = upper_string w}"
    by (cases w) (auto simp: fold_char_def map_eq_Cons_conv)
  ultimately show ?thesis by (auto simp: literal_node_def)
qed

lemma parse_pattern_literal:
  assumes "w \<noteq> []" and "length w < 256" and "list_all ordinary w"
  shows "\<exists>s. parse_pattern w = Parsed (literal_node w) s"
proof -
  define f where "f = 4 * length w + 2"
  then have fuel: "find_fuel w = Suc (Suc f)" by (simp add: find_fuel_def)
  have "CHR 0x7B \<notin> set w" "CHR 0x7D \<notin> set w" using assms(3) by (auto simp: list_all_iff ordinary_def)
  moreover have "parse_alternate (find_fuel w) 0 (w, 0) =
      and_then (concatenation_loop (Suc f) 0 [] (w, 0)) (\<lambda>branch s'. alternate_loop (Suc f) 0 [branch] s')"
    unfolding fuel by (simp del: concatenation_loop.simps alternate_loop.simps)
  ultimately show ?thesis using assms concatenation_loop_literal [of w "Suc f" 0 "[]" 0]
    by (auto simp: parse_pattern_def literal_node_def f_def at_def)
qed

lemma find_compile_literal:
  assumes "w \<noteq> []" and "length w < 256" and "list_all ordinary w"
  shows "\<exists>s. find_compile w = Parsed \<lparr>fe_root = literal_node w, fe_attributes = None\<rparr> s"
proof -
  have "CHR 0x7B \<notin> set w" "CHR 0x7D \<notin> set w" using assms(3) by (auto simp: list_all_iff ordinary_def)
  with assms parse_pattern_literal [OF assms] show ?thesis
    by (auto simp: find_compile_def find_open_def)
qed

lemma match_at_end: "length v \<in> match_node n v 0 \<longleftrightarrow> v \<in> lang n"
  by (simp add: match_node_spans(1) spans_def)

lemma conc_suffix: "conc UNIV {v. upper_string v = w} = {v. \<exists>u. upper_string v = u @ w}"
  by (fastforce simp: conc_def map_eq_append_conv)

section \<open>The limits of the parsers\<close>

text \<open>Nodes of a pattern and of a filter, and the nesting of a pattern.\<close>

fun node_count :: "find_node \<Rightarrow> nat" where
  "node_count (Concatenation ns) = Suc (sum_list (map node_count ns))"
| "node_count (Alternate ns) = Suc (sum_list (map node_count ns))"
| "node_count (Repeat m n) = Suc (node_count n)"
| "node_count _ = 1"

fun node_height :: "find_node \<Rightarrow> nat" where
  "node_height (Concatenation ns) = Suc (Max (insert 0 (node_height ` set ns)))"
| "node_height (Alternate ns) = Suc (Max (insert 0 (node_height ` set ns)))"
| "node_height (Repeat m n) = Suc (node_height n)"
| "node_height _ = 1"

fun filter_count :: "find_attribute_node \<Rightarrow> nat" where
  "filter_count (Logical_and l r) = Suc (filter_count l + filter_count r)"
| "filter_count (Logical_or l r) = Suc (filter_count l + filter_count r)"
| "filter_count (Logical_not n) = Suc (filter_count n)"
| "filter_count _ = 1"

definition gives :: "('a \<Rightarrow> nat \<Rightarrow> bool) \<Rightarrow> 'a parsed \<Rightarrow> bool" where
  "gives P r \<longleftrightarrow> (case r of Parsed x s \<Rightarrow> P x (snd s) | _ \<Rightarrow> True)"

lemma gives_simps [simp]: "gives P Out_of_fuel" "gives P (Failed e)" "gives P (Parsed x s) \<longleftrightarrow> P x (snd s)"
  by (simp_all add: gives_def)

lemma gives_and_then: "gives P r \<Longrightarrow> (\<And>x s. P x (snd s) \<Longrightarrow> gives Q (f x s)) \<Longrightarrow> gives Q (and_then r f)"
  by (cases r) auto

text \<open>\<open>k\<close> nodes were made before the call and \<open>m\<close> of them are not part of the result.\<close>

definition node_limits :: "nat \<Rightarrow> nat \<Rightarrow> find_node \<Rightarrow> nat \<Rightarrow> bool" where
  "node_limits h k n nodes \<longleftrightarrow> node_height n \<le> h \<and> node_count n + k \<le> nodes \<and> nodes \<le> 512"

definition list_limits :: "nat \<Rightarrow> nat \<Rightarrow> find_node list \<Rightarrow> nat \<Rightarrow> bool" where
  "list_limits h k ns nodes \<longleftrightarrow>
     (\<forall>n\<in>set ns. node_height n \<le> h) \<and> sum_list (map node_count ns) + k \<le> nodes \<and> nodes \<le> 512"

lemma make_limits:
  "node_height n \<le> h \<Longrightarrow> node_count n + k \<le> snd s + 1 \<Longrightarrow> gives (node_limits h k) (make_node n s)"
  by (simp add: make_node_def Let_def node_limits_def)

lemma list_limits_heights: "list_limits h k ns nodes \<Longrightarrow> Suc (Max (insert 0 (node_height ` set ns))) \<le> Suc h"
  by (auto simp: list_limits_def)

lemma list_limits_single: "list_limits h k ns nodes \<Longrightarrow> length ns = 1 \<Longrightarrow> node_limits h k (hd ns) nodes"
  by (cases ns) (auto simp: list_limits_def node_limits_def)

lemma node_limits_mono: "node_limits h k n nodes \<Longrightarrow> h \<le> h' \<Longrightarrow> node_limits h' k n nodes"
  by (simp add: node_limits_def)

lemma list_limits_snoc: "list_limits h k ns k' \<Longrightarrow> node_limits h k' n nodes \<Longrightarrow> list_limits h k (ns @ [n]) nodes"
  by (auto simp: list_limits_def node_limits_def)

lemma class_character_nodes: "gives (\<lambda>_ nodes. nodes = snd s) (class_character s)"
  by (simp add: class_character_def split: list.split)

lemma class_loop_limits: "gives (node_limits 1 (snd s)) (class_loop fuel negated ranges s)"
proof (induction fuel arbitrary: ranges s)
  case (Suc fuel)
  have go: "gives (node_limits 1 (snd s)) (class_loop fuel negated rs s2)" if "snd s2 = snd s" for rs s2
    using Suc [of s2 rs] that by simp
  have "gives (node_limits 1 (snd s)) (case class_character (tl (fst s1), snd s1) of
      Out_of_fuel \<Rightarrow> Out_of_fuel | Failed e \<Rightarrow> Failed ''invalid character range''
    | Parsed last_char s2 \<Rightarrow> if schar first > schar last_char then Failed ''invalid character range''
        else class_loop fuel negated (ranges @ [(first, last_char)]) s2)" if "snd s1 = snd s" for s1 first
    using go class_character_nodes [of "(tl (fst s1), snd s1)"] that
    by (cases "class_character (tl (fst s1), snd s1)") auto
  with go show ?case
    by (auto intro!: gives_and_then [OF class_character_nodes] make_limits)
qed simp

lemma parse_class_limits: "gives (node_limits 1 (snd s)) (parse_class s)"
  using class_loop_limits [of s] class_loop_limits [of "(tl (fst s), snd s)"]
  by (simp add: parse_class_def Let_def del: class_loop.simps)

lemma gives_mono: "gives P r \<Longrightarrow> (\<And>x n. P x n \<Longrightarrow> Q x n) \<Longrightarrow> gives Q r"
  by (cases r) auto

lemma pattern_limits:
  shows "snd s \<le> 512 \<Longrightarrow> gives (node_limits (100 - 3 * depth) (snd s)) (parse_alternate fuel depth s)"
    and "depth \<le> 32 \<Longrightarrow> list_limits (99 - 3 * depth) k branches (snd s) \<Longrightarrow>
      gives (node_limits (100 - 3 * depth) k) (alternate_loop fuel depth branches s)"
    and "depth \<le> 32 \<Longrightarrow> list_limits (98 - 3 * depth) k sequence (snd s) \<Longrightarrow>
      gives (node_limits (99 - 3 * depth) k) (concatenation_loop fuel depth sequence s)"
    and "depth \<le> 32 \<Longrightarrow> snd s \<le> 512 \<Longrightarrow> gives (node_limits (97 - 3 * depth) (snd s)) (parse_atom fuel depth s)"
proof (induction fuel arbitrary: depth s k branches sequence)
  case (Suc fuel)
  { case 1
    have "gives (node_limits (99 - 3 * depth) (snd s)) (concatenation_loop fuel depth [] s)" if "depth \<le> 32"
      by (rule Suc(3) [OF that]) (use 1 in \<open>simp add: list_limits_def\<close>)
    then have "gives (node_limits (100 - 3 * depth) (snd s))
        (and_then (concatenation_loop fuel depth [] s) (\<lambda>branch s'. alternate_loop fuel depth [branch] s'))" if "depth \<le> 32"
      by (rule gives_and_then [OF _ Suc(2) [OF that]]) (use that in \<open>simp_all add: list_limits_def node_limits_def\<close>)
    then show ?case by simp
  next
    case 2
    have "gives (node_limits (99 - 3 * depth) (snd s)) (concatenation_loop fuel depth [] (tl (fst s), snd s))"
      using Suc(3) [OF 2(1), of "snd s" "[]" "(tl (fst s), snd s)"] 2(2) by (simp add: list_limits_def)
    then have "gives (node_limits (100 - 3 * depth) k) (and_then (concatenation_loop fuel depth [] (tl (fst s), snd s))
        (\<lambda>branch s'. alternate_loop fuel depth (branches @ [branch]) s'))"
      by (rule gives_and_then) (rule Suc(2) [OF 2(1)], rule list_limits_snoc [OF 2(2)])
    moreover have "node_height (Alternate branches) \<le> 100 - 3 * depth"
      unfolding node_height.simps using list_limits_heights [OF 2(2)] 2(1) by linarith
    then have "gives (node_limits (100 - 3 * depth) k) (make_node (Alternate branches) s)"
      by (rule make_limits) (use 2 in \<open>simp add: list_limits_def\<close>)
    ultimately show ?case using node_limits_mono [OF list_limits_single [OF 2(2)], of "100 - 3 * depth"] by auto
  next
    case 3
    have go: "gives (node_limits (99 - 3 * depth) k) (concatenation_loop fuel depth (sequence @ [n]) s2)"
      if "node_limits (98 - 3 * depth) (snd s) n (snd s2)" for n s2
      by (rule Suc(3) [OF 3(1)]) (rule list_limits_snoc [OF 3(2) that])
    have nodes: "snd s \<le> 512" using 3(2) by (simp add: list_limits_def)
    have "gives (node_limits (99 - 3 * depth) k) (if at (fst s1) (CHR ''*'') \<or> at (fst s1) (CHR ''+'') then
            and_then (make_node (Repeat (hd (fst s1) = CHR ''+'') atom) (tl (fst s1), snd s1))
              (\<lambda>rep s2. if at (fst s2) (CHR ''*'') \<or> at (fst s2) (CHR ''+'') then Failed ''repeated quantifier''
                else concatenation_loop fuel depth (sequence @ [rep]) s2)
          else concatenation_loop fuel depth (sequence @ [atom]) s1)"
      if atom: "node_limits (97 - 3 * depth) (snd s) atom (snd s1)" for atom s1
    proof -
      have "gives (node_limits (98 - 3 * depth) (snd s)) (make_node (Repeat (hd (fst s1) = CHR ''+'') atom) (tl (fst s1), snd s1))"
        by (rule make_limits) (use atom 3(1) in \<open>auto simp: node_limits_def\<close>)
      moreover have "node_limits (98 - 3 * depth) (snd s) atom (snd s1)" by (rule node_limits_mono [OF atom]) simp
      ultimately show ?thesis using go by (auto intro!: gives_and_then)
    qed
    then have "gives (node_limits (99 - 3 * depth) k) (and_then (parse_atom fuel depth s) (\<lambda>atom s1.
          if at (fst s1) (CHR ''*'') \<or> at (fst s1) (CHR ''+'') then
            and_then (make_node (Repeat (hd (fst s1) = CHR ''+'') atom) (tl (fst s1), snd s1))
              (\<lambda>rep s2. if at (fst s2) (CHR ''*'') \<or> at (fst s2) (CHR ''+'') then Failed ''repeated quantifier''
                else concatenation_loop fuel depth (sequence @ [rep]) s2)
          else concatenation_loop fuel depth (sequence @ [atom]) s1))"
      by (rule gives_and_then [OF Suc(4) [OF 3(1) nodes]])
    moreover have "node_height (Concatenation sequence) \<le> 99 - 3 * depth"
      unfolding node_height.simps using list_limits_heights [OF 3(2)] 3(1) by linarith
    then have "gives (node_limits (99 - 3 * depth) k) (make_node (Concatenation sequence) s)"
      by (rule make_limits) (use 3 in \<open>simp add: list_limits_def\<close>)
    ultimately show ?case using node_limits_mono [OF list_limits_single [OF 3(2)], of "99 - 3 * depth"] by auto
  next
    case 4
    have group: "gives (node_limits (97 - 3 * depth) (snd s)) (and_then (parse_alternate fuel (depth + 1) (tl (fst s), snd s))
        (\<lambda>group s2. if \<not> at (fst s2) (CHR '')'') then Failed ''unclosed group'' else Parsed group (tl (fst s2), snd s2)))"
      by (rule gives_and_then [OF Suc(1)]) (use 4 in \<open>auto simp: node_limits_def\<close>)
    have cl: "gives (node_limits (97 - 3 * depth) (snd s)) (parse_class (tl (fst s), snd s))"
      by (rule gives_mono [OF parse_class_limits]) (use 4 in \<open>auto simp: node_limits_def\<close>)
    have "1 \<le> 97 - 3 * depth" using 4(1) by simp
    with group cl show ?case by (auto simp: Let_def intro!: make_limits)
  }
qed simp_all

lemma parse_pattern_limits: "gives (node_limits 100 0) (parse_pattern input)"
  using pattern_limits(1) [of "(input, 0)" 0 "find_fuel input"]
  by (auto simp: parse_pattern_def intro!: gives_and_then)

definition filter_limits :: "nat \<Rightarrow> find_attribute_node \<Rightarrow> nat \<Rightarrow> bool" where
  "filter_limits k n nodes \<longleftrightarrow> filter_count n + k \<le> nodes \<and> nodes \<le> 256"

lemma attr_make_limits: "filter_count n + k \<le> snd s + 1 \<Longrightarrow> gives (filter_limits k) (attr_make n s)"
  by (simp add: attr_make_def Let_def filter_limits_def)

lemma skip_nodes [simp]: "snd (skip_space s) = snd s" "snd (snd (consume token s)) = snd s"
  by (simp_all add: skip_space_def consume_def Let_def)

lemma try_tokens_nodes: "snd (snd (try_tokens ts s)) = snd s"
  by (induction ts s rule: try_tokens.induct) (auto simp: Let_def split: prod.split dest: arg_cong [of _ _ "snd \<circ> snd"])

lemma literal_nodes: "gives (\<lambda>_ nodes. nodes = snd s) (string_literal s)" "gives (\<lambda>_ nodes. nodes = snd s) (number_literal s)"
  by (simp_all add: string_literal_def number_literal_def Let_def)

lemma identifier_nodes: "snd (snd (attr_identifier s)) = snd s"
  by (simp add: attr_identifier_def Let_def)

lemma parse_relation_limits: "gives (filter_limits (snd s)) (parse_relation s)"
proof -
  obtain i s1 where i: "attr_identifier s = (i, s1)" by (cases "attr_identifier s")
  obtain c s2 where c: "compare_operator s1 = (c, s2)" by (cases "compare_operator s1")
  have "snd s1 = snd s" using identifier_nodes [of s] by (simp add: i)
  moreover have "snd s2 = snd s1" using try_tokens_nodes [of compare_tokens s1] c by (simp add: compare_operator_def)
  ultimately show ?thesis
    by (auto simp: parse_relation_def i c split: option.split
        intro!: gives_and_then [OF literal_nodes(1)] gives_and_then [OF literal_nodes(2)] attr_make_limits)
qed

definition join_limits :: "nat \<Rightarrow> string + find_attribute_node \<Rightarrow> nat \<Rightarrow> bool" where
  "join_limits k left nodes \<longleftrightarrow> (case left of Inl e \<Rightarrow> True | Inr n \<Rightarrow> filter_limits k n nodes)"

lemma attr_join_limits:
  assumes "join_limits k left k'" and "filter_limits k' right (snd s)"
    and "\<And>l r. filter_count (c l r) = Suc (filter_count l + filter_count r)"
  shows "join_limits k (fst (attr_join c left right s)) (snd (snd (attr_join c left right s)))"
  using assms
  by (auto simp: attr_join_def join_limits_def attr_make_def filter_limits_def Let_def split: sum.splits if_splits)

lemma attr_result_limits: "join_limits k left (snd s) \<Longrightarrow> gives (filter_limits k) (attr_result left s)"
  by (simp add: attr_result_def join_limits_def split: sum.splits)

lemma loop_limits:
  assumes "gives (filter_limits (snd s)) r" and "join_limits k left (snd s)"
    and "\<And>left s'. join_limits k left (snd s') \<Longrightarrow> gives (filter_limits k) (f left s')"
    and "\<And>l r. filter_count (c l r) = Suc (filter_count l + filter_count r)"
  shows "gives (filter_limits k) (and_then r (\<lambda>right s2. f (fst (attr_join c left right s2)) (snd (attr_join c left right s2))))"
  by (rule gives_and_then [OF assms(1)]) (rule assms(3), rule attr_join_limits [OF assms(2) _ assms(4)])

lemma filter_parser_limits:
  shows "gives (filter_limits (snd s)) (parse_or fuel depth s)"
    and "join_limits k left (snd s) \<Longrightarrow> gives (filter_limits k) (or_loop fuel depth left s)"
    and "gives (filter_limits (snd s)) (parse_and fuel depth s)"
    and "join_limits k left (snd s) \<Longrightarrow> gives (filter_limits k) (and_loop fuel depth left s)"
    and "gives (filter_limits (snd s)) (parse_factor fuel depth s)"
proof (induction fuel arbitrary: depth s k left)
  case (Suc fuel)
  { case 1
    show ?case by (simp, rule gives_and_then [OF Suc(3)], rule Suc(2)) (simp add: join_limits_def)
  next
    case 2
    have "gives (filter_limits (snd (snd (consume ''||'' s)))) (parse_and fuel depth (snd (consume ''||'' s)))" by (rule Suc(3))
    from loop_limits [OF this, of k left "or_loop fuel depth" Logical_or] Suc(2) 2
    show ?case by (simp add: attr_result_limits)
  next
    case 3
    show ?case by (simp, rule gives_and_then [OF Suc(5)], rule Suc(4)) (simp add: join_limits_def)
  next
    case 4
    have "gives (filter_limits (snd (snd (consume ''&&'' s)))) (parse_factor fuel depth (snd (consume ''&&'' s)))" by (rule Suc(5))
    from loop_limits [OF this, of k left "and_loop fuel depth" Logical_and] Suc(4) 4
    show ?case by (simp add: attr_result_limits)
  next
    case 5
    have not: "gives (filter_limits (snd s)) (and_then (parse_factor fuel (depth + 1) (snd (consume ''!'' s)))
        (\<lambda>child s2. attr_make (Logical_not child) s2))"
      by (rule gives_and_then [OF Suc(5)]) (auto simp: filter_limits_def [of _ _ "snd _"] intro!: attr_make_limits)
    have group: "gives (filter_limits (snd s)) (and_then (parse_or fuel (depth + 1) (snd (consume ''('' (snd (consume ''!'' s))))) (\<lambda>child s3.
            if fst (consume '')'' s3) then Parsed child (snd (consume '')'' s3))
            else Failed ''unclosed attribute-expression group''))"
      by (rule gives_and_then [OF Suc(1)]) simp
    show ?case
      using not group parse_relation_limits [of "snd (consume ''('' (snd (consume ''!'' s)))"] by (simp add: Let_def)
  }
qed simp_all

lemma parse_attributes_limits: "gives (filter_limits 0) (parse_attributes input)"
  using filter_parser_limits(1) [of "(input, 0)" "find_fuel input" 0]
  by (auto simp: parse_attributes_def intro!: gives_and_then)

lemma find_compile_limits:
  "gives (\<lambda>e _. node_height (fe_root e) \<le> 100 \<and> node_count (fe_root e) \<le> 512 \<and>
     (case fe_attributes e of None \<Rightarrow> True | Some f \<Rightarrow> filter_count f \<le> 256)) (find_compile x)"
  by (auto simp: find_compile_def Let_def node_limits_def filter_limits_def
      intro!: gives_and_then [OF parse_pattern_limits] gives_and_then [OF parse_attributes_limits])

section \<open>Properties\<close>

text \<open>C14. The matcher is correct: a resource name is found by an expression if and only if the whole name
  is a word of the regular language of the pattern (case folded) and the attribute filter, if there is
  one, holds of the parsed name. This includes that the closure loop of every repetition ends.\<close>

theorem matches_iff_language:
  "matches_name e v \<longleftrightarrow>
     v \<in> lang (fe_root e) \<and>
     (case fe_attributes e of
        None \<Rightarrow> True
      | Some f \<Rightarrow> (\<exists>d. parse_resource v = Some d \<and> match_attributes f d))"
  by (auto simp: matches_name_def match_at_end split: option.splits)

text \<open>C15. Every repetition loop of the matcher terminates: from any set of positions inside the value the closure
  computation returns, with an empty frontier, exactly the positions where some number of copies of the child can end after
  one of them. Both loops of the code are covered: \<open>*\<close> starts from the position itself, \<open>+\<close> from the positions where
  the child can end, which lie inside the value.\<close>

theorem repeat_closure_terminates:
  assumes "start \<subseteq> {..length v}"
  shows "repeat_closure (match_node n v) start = Some (\<Union>p\<in>start. spans (star (lang n)) v p, {}) \<and>
         (\<forall>p\<in>start. match_node n v p \<subseteq> {..length v} \<and>
            repeat_closure (match_node n v) (match_node n v p) =
              Some (\<Union>q\<in>match_node n v p. spans (star (lang n)) v q, {}))"
proof -
  have c: "match_node n v p = spans (lang n) v p" if "p \<le> length v" for p using match_node_spans(1) that by simp
  have sub: "match_node n v p \<subseteq> {..length v}" if "p \<in> start" for p
    using c [of p] that assms spans_bound by fastforce
  have r: "repeat_closure (match_node n v) S = Some (\<Union>p\<in>S. spans (star (lang n)) v p, {})" if "S \<subseteq> {..length v}" for S
    by (rule repeat_closure_spans [OF _ that]) (rule c)
  show ?thesis using r assms sub by blast
qed

theorem repeat_closure_terminates_witness:
  "{0, 1} \<subseteq> {..length ''ab''} \<and>
   repeat_closure (match_node Any ''ab'') {0, 1} = Some (\<Union>p\<in>{0, 1}. spans (star (lang Any)) ''ab'' p, {})"
proof -
  have s: "{0, 1 :: nat} \<subseteq> {..length ''ab''}" by simp
  show ?thesis using repeat_closure_terminates [OF s, of Any] s by blast
qed

text \<open>Matching does not depend on the case of the name.\<close>

theorem matching_ignores_case:
  "length v \<in> match_node n v 0 \<longleftrightarrow> length v \<in> match_node n (upper_string v) 0"
  using match_at_end [of v n] match_at_end [of "upper_string v" n] lang_fold_closed [of n]
  unfolding fold_closed_def by simp

text \<open>C16. Compiling an expression always returns, with an error or with a well-formed expression: literals
  are case-folded, classes have ordered ranges, string attributes are only compared for equality and
  numbers fit 64 bits. The limits of the parsers bound it: the pattern has at most 512 nodes and is nested at most 100
  levels deep (three for each of the 33 levels of groups, and one), the filter has at most 256 nodes.\<close>

theorem find_compile_returns_wf:
  "find_compile x \<noteq> Out_of_fuel \<and>
   (case find_compile x of
      Parsed e s \<Rightarrow> find_wf (fe_root e) \<and> node_count (fe_root e) \<le> 512 \<and> node_height (fe_root e) \<le> 100 \<and>
        (case fe_attributes e of None \<Rightarrow> True | Some f \<Rightarrow> attr_wf f \<and> filter_count f \<le> 256)
    | _ \<Rightarrow> True)"
proof -
  let ?wf = "\<lambda>e. find_wf (fe_root e) \<and> (case fe_attributes e of None \<Rightarrow> True | Some f \<Rightarrow> attr_wf f)"
  have "yields ?wf (and_then (parse_pattern r) (\<lambda>root s.
          if a = [] then Parsed \<lparr>fe_root = root, fe_attributes = None\<rparr> s
          else and_then (parse_attributes a) (\<lambda>attrs s'.
                 Parsed \<lparr>fe_root = root, fe_attributes = Some attrs\<rparr> s'))) 0" for r a
    by (intro yields_and_then [OF parse_pattern_yields])
       (auto intro!: yields_and_then [OF parse_attributes_yields])
  then have "yields ?wf (find_compile x) 0" by (simp add: find_compile_def Let_def)
  then show ?thesis using find_compile_limits [of x] by (cases "find_compile x") (auto split: option.splits)
qed

text \<open>A name without pattern characters finds exactly itself: it compiles, and the compiled expression
  matches precisely the strings equal to it up to case.\<close>

theorem plain_name_finds_itself:
  assumes "w \<noteq> []" and "length w < VI_FIND_BUFLEN" and "list_all ordinary w"
  shows "\<exists>e s. find_compile w = Parsed e s \<and> (\<forall>v. matches_name e v \<longleftrightarrow> upper_string v = upper_string w)"
  using find_compile_literal [of w] assms lang_literal_node [of w]
  by (auto simp: matches_name_def match_at_end)

theorem plain_name_finds_itself_witness:
  "\<exists>e s. find_compile ''ASRL1::INSTR'' = Parsed e s \<and> matches_name e ''asrl1::instr'' \<and>
         \<not> matches_name e ''ASRL11::INSTR''"
proof -
  have "list_all ordinary ''ASRL1::INSTR''" by (simp add: ordinary_def)
  from plain_name_finds_itself [OF _ _ this] show ?thesis by (fastforce simp: toupper_def char_of_def)
qed

text \<open>The usual expression for all instruments is read as intended: it finds exactly the names that end in
  INSTR, in any case.\<close>

theorem instr_expression_meaning:
  "\<exists>e s. find_compile ''?*INSTR'' = Parsed e s \<and>
     (\<forall>v. matches_name e v \<longleftrightarrow> (\<exists>u. upper_string v = u @ ''INSTR''))"
proof -
  have c: "\<exists>s. find_compile ''?*INSTR'' = Parsed \<lparr>fe_root = Concatenation
      (Repeat False Any # map Literal ''INSTR''), fe_attributes = None\<rparr> s"
    by (simp add: find_compile_def find_open_def parse_pattern_def find_fuel_def eval_nat_numeral at_def make_node_def
        fold_char_def toupper_def)
  have star: "star {[x] |x. True} = UNIV"
  proof -
    have "w \<in> star {[x] |x. True}" for w
    proof (induction w)
      case (Cons c w)
      then show ?case using star.star_append [of "[c]" "{[x] |x. True}" w] by simp
    qed (rule star.star_Nil)
    then show ?thesis by blast
  qed
  have "foldr (\<lambda>n A. conc (lang n) A) (map Literal ''INSTR'') {[]} = {v. upper_string v = ''INSTR''}"
    by (auto simp: conc_char fold_char_def map_eq_Cons_conv)
  then have "lang (Concatenation (Repeat False Any # map Literal ''INSTR'')) =
      conc UNIV {v. upper_string v = ''INSTR''}"
    using star by (simp only: lang.simps foldr.simps list.map o_def if_False)
  also have "\<dots> = {v. \<exists>u. upper_string v = u @ ''INSTR''}" by (rule conc_suffix)
  finally have "lang (Concatenation (Repeat False Any # map Literal ''INSTR'')) =
      {v. \<exists>u. upper_string v = u @ ''INSTR''}" .
  with c show ?thesis by (auto simp: matches_name_def match_at_end)
qed

end
