(* ===== verification/Usbtmc_Protocol.thy ===== *)
theory Usbtmc_Protocol
  imports Visa_Prelude
begin

text \<open>
  The USBTMC and USB488 message formats of \<open>src/backends/usb/usbtmc_protocol.{h,cpp}\<close>: encoders and
  decoders of the bulk messages and decoders of the control responses. A decoder that returns
  \<open>false\<close> is \<open>None\<close>; a decoder with several output parameters returns them as a record or a tuple.
  The 32-bit little-endian layout is an instance of the byte-order interface, and each bulk message
  an instance of the codec interface.
\<close>

section \<open>Constants and data\<close>

definition kHeaderSize :: nat where [simp]: "kHeaderSize = 12"
definition kMaximumPayload :: nat where [simp]: "kMaximumPayload = 64 * 1024 * 1024"
definition kDevDepMsgOut :: byte where [simp]: "kDevDepMsgOut = 1"
definition kRequestDevDepMsgIn :: byte where [simp]: "kRequestDevDepMsgIn = 2"
definition kDevDepMsgIn :: byte where [simp]: "kDevDepMsgIn = 2"
definition kUsb488Trigger :: byte where [simp]: "kUsb488Trigger = 128"

definition kStatusSuccess :: byte where [simp]: "kStatusSuccess = 0x01"
definition kStatusPending :: byte where [simp]: "kStatusPending = 0x02"
definition kStatusInterruptInBusy :: byte where [simp]: "kStatusInterruptInBusy = 0x20"
definition kStatusFailed :: byte where [simp]: "kStatusFailed = 0x80"
definition kStatusTransferNotInProgress :: byte where [simp]: "kStatusTransferNotInProgress = 0x81"

record capabilities =
  cap_status :: byte
  cap_termchar :: bool
  cap_usb488 :: bool
  cap_usb488_trigger :: bool
  cap_usb488_service_request :: bool

record split_status =
  ss_status :: byte
  bulk_in_fifo_bytes :: bool
  transferred :: u32

record dev_dep_message =
  ddm_tag :: byte
  end_of_message :: bool
  ddm_payload :: "byte list"

section \<open>Integers\<close>

definition padding_for :: "nat \<Rightarrow> nat" where
  "padding_for payload_size = (4 - payload_size mod 4) mod 4"

definition append_u32_le :: "byte list \<Rightarrow> u32 \<Rightarrow> byte list" where
  "append_u32_le bytes value =
     bytes @ [ucast (value AND 0xff), ucast (drop_bit 8 value AND 0xff),
              ucast (drop_bit 16 value AND 0xff), ucast (drop_bit 24 value AND 0xff)]"

definition read_u32_le :: "byte list \<Rightarrow> nat \<Rightarrow> u32" where
  "read_u32_le bytes offset =
     ucast (bytes ! offset) OR push_bit 8 (ucast (bytes ! (offset + 1))) OR
     push_bit 16 (ucast (bytes ! (offset + 2))) OR push_bit 24 (ucast (bytes ! (offset + 3)))"

section \<open>Bulk messages\<close>

definition valid_common_header :: "byte list \<Rightarrow> byte \<Rightarrow> byte \<Rightarrow> bool" where
  "valid_common_header bytes message_id expected_tag \<longleftrightarrow>
     length bytes \<ge> kHeaderSize \<and> bytes ! 0 = message_id \<and> bytes ! 1 \<noteq> 0 \<and>
     bytes ! 1 = expected_tag \<and> bytes ! 2 = NOT (bytes ! 1) \<and> bytes ! 3 = 0"

definition encode_message :: "byte \<Rightarrow> byte \<Rightarrow> byte list \<Rightarrow> byte \<Rightarrow> byte \<Rightarrow> byte list option" where
  "encode_message message_id tag payload attributes termchar =
     (if tag = 0 \<or> length payload > kMaximumPayload \<or> length payload > 2 ^ 32 - 1 then None
      else Some (append_u32_le [message_id, tag, NOT tag, 0] (of_nat (length payload)) @
                 [attributes, termchar, 0, 0] @ payload @
                 replicate (padding_for (length payload)) 0))"

definition decode_message ::
  "byte list \<Rightarrow> byte \<Rightarrow> byte \<Rightarrow> nat \<Rightarrow> nat \<Rightarrow> bool \<Rightarrow> dev_dep_message option" where
  "decode_message bytes message_id expected_tag maximum_payload maximum_alignment fixed_alignment =
     (if \<not> valid_common_header bytes message_id expected_tag \<or> bytes ! 8 AND 0xfe \<noteq> 0 \<or>
         bytes ! 9 \<noteq> 0 \<or> bytes ! 10 \<noteq> 0 \<or> bytes ! 11 \<noteq> 0 then None
      else
        let payload_size = unat (read_u32_le bytes 4);
            content_size = kHeaderSize + payload_size;
            alignment_size = length bytes - content_size in
        if payload_size > maximum_payload \<or> payload_size > kMaximumPayload then None
        else if length bytes < content_size then None
        else if (fixed_alignment \<and> alignment_size \<noteq> padding_for payload_size) \<or>
                (\<not> fixed_alignment \<and> alignment_size > maximum_alignment) then None
        else Some \<lparr>ddm_tag = bytes ! 1, end_of_message = (bytes ! 8 AND 1 \<noteq> 0),
                   ddm_payload = take payload_size (drop kHeaderSize bytes)\<rparr>)"

definition encode_dev_dep_msg_out :: "byte \<Rightarrow> byte list \<Rightarrow> bool \<Rightarrow> byte list option" where
  "encode_dev_dep_msg_out tag payload eom =
     encode_message kDevDepMsgOut tag payload (if eom then 1 else 0) 0"

definition encode_request_dev_dep_msg_in :: "byte \<Rightarrow> u32 \<Rightarrow> bool \<Rightarrow> byte \<Rightarrow> byte list option" where
  "encode_request_dev_dep_msg_in tag transfer_size termchar_enabled termchar =
     (if tag = 0 \<or> transfer_size = 0 \<or> unat transfer_size > kMaximumPayload then None
      else Some (append_u32_le [kRequestDevDepMsgIn, tag, NOT tag, 0] transfer_size @
                 [if termchar_enabled then 2 else 0, termchar, 0, 0]))"

definition encode_dev_dep_msg_in :: "byte \<Rightarrow> byte list \<Rightarrow> bool \<Rightarrow> byte list option" where
  "encode_dev_dep_msg_in tag payload eom =
     encode_message kDevDepMsgIn tag payload (if eom then 1 else 0) 0"

definition encode_usb488_trigger :: "byte \<Rightarrow> byte list option" where
  "encode_usb488_trigger tag =
     (if tag = 0 then None else Some [kUsb488Trigger, tag, NOT tag, 0, 0, 0, 0, 0, 0, 0, 0, 0])"

definition decode_dev_dep_msg_out :: "byte list \<Rightarrow> nat \<Rightarrow> dev_dep_message option" where
  "decode_dev_dep_msg_out bytes maximum_payload =
     (if length bytes < kHeaderSize then None
      else decode_message bytes kDevDepMsgOut (bytes ! 1) maximum_payload 3 True)"

definition decode_request_dev_dep_msg_in :: "byte list \<Rightarrow> (byte \<times> u32 \<times> bool \<times> byte) option" where
  "decode_request_dev_dep_msg_in bytes =
     (if length bytes \<noteq> kHeaderSize \<or> \<not> valid_common_header bytes kRequestDevDepMsgIn (bytes ! 1) \<or>
         bytes ! 8 AND 0xfd \<noteq> 0 \<or> bytes ! 10 \<noteq> 0 \<or> bytes ! 11 \<noteq> 0 then None
      else
        let transfer_size = read_u32_le bytes 4 in
        if transfer_size = 0 \<or> unat transfer_size > kMaximumPayload then None
        else Some (bytes ! 1, transfer_size, bytes ! 8 AND 2 \<noteq> 0, bytes ! 9))"

definition decode_dev_dep_msg_in :: "byte list \<Rightarrow> byte \<Rightarrow> nat \<Rightarrow> nat \<Rightarrow> dev_dep_message option" where
  "decode_dev_dep_msg_in bytes expected_tag maximum_payload maximum_alignment =
     decode_message bytes kDevDepMsgIn expected_tag maximum_payload maximum_alignment False"

definition decode_usb488_trigger :: "byte list \<Rightarrow> byte option" where
  "decode_usb488_trigger bytes =
     (if length bytes \<noteq> kHeaderSize \<or> \<not> valid_common_header bytes kUsb488Trigger (bytes ! 1) then None
      else if list_ex (\<lambda>b. b \<noteq> 0) (drop 4 bytes) then None
      else Some (bytes ! 1))"

section \<open>Control responses\<close>

text \<open>\<open>usbtmc_version\<close> and \<open>usb488_version\<close> are computed in \<open>int\<close>, so nothing is lost in the shift.\<close>

definition version_word :: "byte \<Rightarrow> byte \<Rightarrow> nat" where
  "version_word low high = unat low + 256 * unat high"

definition capabilities_empty :: "byte \<Rightarrow> capabilities" where
  "capabilities_empty status =
     \<lparr>cap_status = status, cap_termchar = False, cap_usb488 = False, cap_usb488_trigger = False,
      cap_usb488_service_request = False\<rparr>"

definition decode_capabilities :: "byte list \<Rightarrow> bool \<Rightarrow> capabilities option" where
  "decode_capabilities bytes expect_usb488 =
     (if length bytes \<noteq> 24 then None
      else if bytes ! 0 \<noteq> kStatusSuccess then Some (capabilities_empty (bytes ! 0))
      else if bytes ! 1 \<noteq> 0 \<or> version_word (bytes ! 2) (bytes ! 3) < 0x0100 \<or>
              bytes ! 4 AND 0xf8 \<noteq> 0 \<or> bytes ! 5 AND 0xfe \<noteq> 0 then None
      else if list_ex (\<lambda>i. bytes ! i \<noteq> 0) [6..<12] then None
      else
        let c = (capabilities_empty (bytes ! 0))\<lparr>cap_termchar := (bytes ! 5 AND 1 \<noteq> 0)\<rparr> in
        if \<not> expect_usb488 then
          if list_ex (\<lambda>i. bytes ! i \<noteq> 0) [12..<24] then None else Some c
        else if version_word (bytes ! 12) (bytes ! 13) < 0x0100 \<or> bytes ! 14 AND 0xf8 \<noteq> 0 \<or>
                bytes ! 15 AND 0xf0 \<noteq> 0 then None
        else if list_ex (\<lambda>i. bytes ! i \<noteq> 0) [16..<24] then None
        else
          let trigger = (bytes ! 14 AND 1 \<noteq> 0); remote_local = (bytes ! 14 AND 2 \<noteq> 0);
              ieee488_2 = (bytes ! 14 AND 4 \<noteq> 0); device_trigger = (bytes ! 15 AND 1 \<noteq> 0);
              device_remote_local = (bytes ! 15 AND 2 \<noteq> 0);
              service_request = (bytes ! 15 AND 4 \<noteq> 0); scpi = (bytes ! 15 AND 8 \<noteq> 0) in
          if (device_trigger \<and> \<not> trigger) \<or> (device_remote_local \<and> \<not> remote_local) \<or>
             (ieee488_2 \<and> \<not> service_request) \<or> (scpi \<and> (\<not> service_request \<or> \<not> ieee488_2)) then None
          else Some (c\<lparr>cap_usb488 := True, cap_usb488_trigger := (trigger \<and> device_trigger),
                       cap_usb488_service_request := service_request\<rparr>))"

definition decode_initiate_abort :: "byte list \<Rightarrow> byte \<Rightarrow> byte option" where
  "decode_initiate_abort bytes expected_tag =
     (if length bytes \<noteq> 2 then None
      else if bytes ! 0 \<noteq> kStatusSuccess \<or> bytes ! 1 = expected_tag then Some (bytes ! 0) else None)"

definition decode_check_abort_bulk_out :: "byte list \<Rightarrow> split_status option" where
  "decode_check_abort_bulk_out bytes =
     (if length bytes \<noteq> 8 then None
      else if bytes ! 0 = kStatusSuccess \<or> bytes ! 0 = kStatusPending then
        if bytes ! 1 \<noteq> 0 \<or> bytes ! 2 \<noteq> 0 \<or> bytes ! 3 \<noteq> 0 then None
        else Some \<lparr>ss_status = bytes ! 0, bulk_in_fifo_bytes = False, transferred = read_u32_le bytes 4\<rparr>
      else Some \<lparr>ss_status = bytes ! 0, bulk_in_fifo_bytes = False, transferred = 0\<rparr>)"

definition decode_check_abort_bulk_in :: "byte list \<Rightarrow> split_status option" where
  "decode_check_abort_bulk_in bytes =
     (if length bytes \<noteq> 8 then None
      else if bytes ! 0 = kStatusSuccess \<or> bytes ! 0 = kStatusPending then
        if bytes ! 1 AND 0xfe \<noteq> 0 \<or> bytes ! 2 \<noteq> 0 \<or> bytes ! 3 \<noteq> 0 then None
        else
          let fifo = (bytes ! 1 AND 1 \<noteq> 0); count = read_u32_le bytes 4 in
          if (bytes ! 0 = kStatusSuccess \<and> fifo) \<or> (bytes ! 0 = kStatusPending \<and> count \<noteq> 0) then None
          else Some \<lparr>ss_status = bytes ! 0, bulk_in_fifo_bytes = fifo, transferred = count\<rparr>
      else Some \<lparr>ss_status = bytes ! 0, bulk_in_fifo_bytes = False, transferred = 0\<rparr>)"

definition decode_initiate_clear :: "byte list \<Rightarrow> byte option" where
  "decode_initiate_clear bytes = (if length bytes \<noteq> 1 then None else Some (bytes ! 0))"

definition decode_check_clear :: "byte list \<Rightarrow> split_status option" where
  "decode_check_clear bytes =
     (if length bytes \<noteq> 2 then None
      else if bytes ! 0 = kStatusSuccess \<or> bytes ! 0 = kStatusPending then
        if bytes ! 1 AND 0xfe \<noteq> 0 then None
        else
          let fifo = (bytes ! 1 AND 1 \<noteq> 0) in
          if bytes ! 0 = kStatusSuccess \<and> fifo then None
          else Some \<lparr>ss_status = bytes ! 0, bulk_in_fifo_bytes = fifo, transferred = 0\<rparr>
      else Some \<lparr>ss_status = bytes ! 0, bulk_in_fifo_bytes = False, transferred = 0\<rparr>)"

definition decode_read_status_byte :: "byte list \<Rightarrow> byte \<Rightarrow> bool \<Rightarrow> (byte \<times> byte) option" where
  "decode_read_status_byte bytes expected_tag interrupt_endpoint =
     (if length bytes \<noteq> 3 then None
      else if bytes ! 0 \<noteq> kStatusSuccess then Some (bytes ! 0, 0)
      else if bytes ! 1 \<noteq> expected_tag \<or> (interrupt_endpoint \<and> bytes ! 2 \<noteq> 0) then None
      else Some (bytes ! 0, if interrupt_endpoint then 0 else bytes ! 2))"

definition decode_interrupt_status_byte :: "byte list \<Rightarrow> (byte \<times> byte) option" where
  "decode_interrupt_status_byte bytes =
     (if length bytes \<noteq> 2 \<or> bytes ! 0 AND 0x80 = 0 then None
      else if bytes ! 0 AND 0x7f = 0 then None
      else Some (bytes ! 0 AND 0x7f, bytes ! 1))"

section \<open>Little-endian integers\<close>

lemma byte_of_masked: "ucast (w AND 0xff :: u32) = (ucast w :: byte)"
proof -
  have "(0xff :: u32) = mask 8" by (simp add: mask_eq_exp_minus_1)
  show ?thesis unfolding \<open>0xff = mask 8\<close> by (auto intro!: bit_word_eqI simp: bit_simps)
qed

lemma append_u32_le_bytes:
  "append_u32_le bs w = bs @ [ucast w, ucast (drop_bit 8 w), ucast (drop_bit 16 w), ucast (drop_bit 24 w)]"
  by (simp add: append_u32_le_def byte_of_masked)

lemma read_u32_le_bytes:
  "read_u32_le [a, b, c, d] 0 =
     push_bit 24 (ucast d) OR push_bit 16 (ucast c) OR push_bit 8 (ucast b) OR ucast a"
  by (simp add: read_u32_le_def or.commute or.left_commute or.assoc)

lemma read_u32_le_append:
  "length pre = offset \<Longrightarrow> read_u32_le (pre @ a # b # c # d # post) offset = read_u32_le [a, b, c, d] 0"
  by (simp add: read_u32_le_def nth_append)

interpretation le32: byte_order "append_u32_le []" "\<lambda>bs. read_u32_le bs 0"
proof
  fix w :: u32 and rest bs :: "byte list"
  show "length (append_u32_le [] w) = 4" by (simp add: append_u32_le_def)
  have "read_u32_le (append_u32_le [] w @ rest) 0 = read_u32_le (append_u32_le [] w) 0"
    by (simp add: append_u32_le_bytes read_u32_le_def)
  also have "\<dots> = w" unfolding append_u32_le_bytes append_Nil read_u32_le_bytes by (rule be32_join)
  finally show "read_u32_le (append_u32_le [] w @ rest) 0 = w" .
  assume "length bs = 4"
  then obtain a b c d where bs: "bs = [a, b, c, d]" by (auto simp: eval_nat_numeral length_Suc_conv)
  show "append_u32_le [] (read_u32_le bs 0) = bs"
    unfolding bs read_u32_le_bytes append_u32_le_bytes using be32_split [where a = d and b = c and c = b and d = a]
    by simp
qed

lemma read_after_append:
  "length pre = offset \<Longrightarrow> read_u32_le (append_u32_le pre w @ post) offset = w"
  using le32.get_put_Nil [of w] by (simp add: append_u32_le_bytes read_u32_le_append)

section \<open>Codecs\<close>

lemma length_u32: "n \<le> kMaximumPayload \<Longrightarrow> unat (of_nat n :: u32) = n"
  by (simp add: unat_of_nat take_bit_eq_mod)

lemma decode_encode_message:
  assumes "encode_message message_id tag payload (if eom then 1 else 0) 0 = Some bs"
    and "length payload \<le> maximum" and "padding_for (length payload) \<le> alignment"
  shows "decode_message bs message_id tag maximum alignment fixed =
         Some \<lparr>ddm_tag = tag, end_of_message = eom, ddm_payload = payload\<rparr>"
proof -
  define n :: u32 where "n = of_nat (length payload)"
  have tag: "tag \<noteq> 0" and len: "length payload \<le> kMaximumPayload"
    and bs: "bs = append_u32_le [message_id, tag, NOT tag, 0] n @ [if eom then 1 else 0, 0, 0, 0] @
      payload @ replicate (padding_for (length payload)) 0"
    using assms(1) by (auto simp: encode_message_def n_def split: if_splits)
  have n: "unat n = length payload" using len by (simp add: n_def length_u32 del: kMaximumPayload_def)
  have size: "read_u32_le bs 4 = n" unfolding bs by (rule read_after_append) simp
  show ?thesis
    using tag len n size assms(2,3) unfolding decode_message_def valid_common_header_def
    by (simp add: bs append_u32_le_bytes)
qed

interpretation dev_dep_out: message_codec
  "\<lambda>m. encode_dev_dep_msg_out (ddm_tag m) (ddm_payload m) (end_of_message m)"
  "\<lambda>bs. decode_dev_dep_msg_out bs kMaximumPayload"
  "\<lambda>m. ddm_tag m \<noteq> 0 \<and> length (ddm_payload m) \<le> kMaximumPayload"
proof
  fix m :: dev_dep_message and bs
  show "encode_dev_dep_msg_out (ddm_tag m) (ddm_payload m) (end_of_message m) \<noteq> None \<longleftrightarrow>
      ddm_tag m \<noteq> 0 \<and> length (ddm_payload m) \<le> kMaximumPayload"
    by (auto simp: encode_dev_dep_msg_out_def encode_message_def)
  assume e: "encode_dev_dep_msg_out (ddm_tag m) (ddm_payload m) (end_of_message m) = Some bs"
  then have "length bs \<ge> kHeaderSize" "bs ! 1 = ddm_tag m" "length (ddm_payload m) \<le> kMaximumPayload"
    by (auto simp: encode_dev_dep_msg_out_def encode_message_def append_u32_le_def split: if_splits)
  with decode_encode_message [OF e [unfolded encode_dev_dep_msg_out_def], of kMaximumPayload 3]
  show "decode_dev_dep_msg_out bs kMaximumPayload = Some m"
    by (simp add: decode_dev_dep_msg_out_def padding_for_def)
qed

interpretation request_in: message_codec
  "\<lambda>(tag, size, enabled, termchar). encode_request_dev_dep_msg_in tag size enabled termchar"
  decode_request_dev_dep_msg_in
  "\<lambda>(tag, size, enabled, termchar). tag \<noteq> 0 \<and> size \<noteq> 0 \<and> unat size \<le> kMaximumPayload"
proof
  fix m :: "byte \<times> u32 \<times> bool \<times> byte" and bs
  obtain tag size enabled termchar where m: "m = (tag, size, enabled, termchar)" by (cases m)
  show "(case m of (tag, size, enabled, termchar) \<Rightarrow> encode_request_dev_dep_msg_in tag size enabled termchar) \<noteq> None \<longleftrightarrow>
      (case m of (tag, size, enabled, termchar) \<Rightarrow> tag \<noteq> 0 \<and> size \<noteq> 0 \<and> unat size \<le> kMaximumPayload)"
    by (auto simp: m encode_request_dev_dep_msg_in_def)
  assume "(case m of (tag, size, enabled, termchar) \<Rightarrow> encode_request_dev_dep_msg_in tag size enabled termchar) = Some bs"
  then have ok: "tag \<noteq> 0" "size \<noteq> 0" "unat size \<le> kMaximumPayload" and
    bs: "bs = append_u32_le [kRequestDevDepMsgIn, tag, NOT tag, 0] size @ [if enabled then 2 else 0, termchar, 0, 0]"
    by (auto simp: m encode_request_dev_dep_msg_in_def split: if_splits)
  have "read_u32_le bs 4 = size" unfolding bs by (rule read_after_append) simp
  with ok show "decode_request_dev_dep_msg_in bs = Some m"
    by (simp add: decode_request_dev_dep_msg_in_def valid_common_header_def)
       (simp add: bs m append_u32_le_bytes)
qed

interpretation trigger_msg: message_codec encode_usb488_trigger decode_usb488_trigger "\<lambda>tag. tag \<noteq> 0"
proof
  fix tag bs
  show "encode_usb488_trigger tag \<noteq> None \<longleftrightarrow> tag \<noteq> 0" by (simp add: encode_usb488_trigger_def)
  assume "encode_usb488_trigger tag = Some bs"
  then show "decode_usb488_trigger bs = Some tag"
    by (auto simp: encode_usb488_trigger_def decode_usb488_trigger_def valid_common_header_def split: if_splits)
qed

section \<open>What the decoder of device messages accepts\<close>

lemma eom_byte: "(b :: byte) AND 0xfe = 0 \<longleftrightarrow> b = 0 \<or> b = 1"
proof
  assume a: "b AND 0xfe = 0"
  have "(0xfe :: byte) = NOT 1" by simp
  with a have "b AND NOT 1 = 0" by simp
  then have "\<not> bit (b AND NOT 1) n" for n by simp
  then have z: "\<not> bit b n" if "n \<noteq> 0" for n
    using that bit_imp_le_length [of b n] by (fastforce simp: bit_simps)
  have "b = (if bit b 0 then 1 else 0)"
  proof (rule bit_word_eqI)
    show "bit b n = bit (if bit b 0 then 1 else 0 :: byte) n" for n
      using z [of n] by (cases "n = 0") (simp_all add: bit_1_iff)
  qed
  then show "b = 0 \<or> b = 1" by (metis (full_types))
qed auto

lemma split_header:
  assumes "length bs \<ge> 12"
  obtains a b c d e f g h i j k l rest where "bs = [a, b, c, d, e, f, g, h, i, j, k, l] @ rest"
proof -
  have "length (take 12 bs) = 12" using assms by simp
  then obtain a b c d e f g h i j k l where "take 12 bs = [a, b, c, d, e, f, g, h, i, j, k, l]"
    by (auto simp: eval_nat_numeral length_Suc_conv simp del: length_take)
  then show thesis using that append_take_drop_id [of 12 bs] by metis
qed

definition device_message :: "byte \<Rightarrow> dev_dep_message \<Rightarrow> byte list \<Rightarrow> byte list" where
  "device_message message_id m pad =
     append_u32_le [message_id, ddm_tag m, NOT (ddm_tag m), 0] (of_nat (length (ddm_payload m))) @
     [if end_of_message m then 1 else 0, 0, 0, 0] @ ddm_payload m @ pad"

lemma decode_message_form:
  assumes "decode_message bs message_id tag maximum alignment fixed = Some m"
  obtains pad where "bs = device_message message_id m pad" and "ddm_tag m = tag" and "tag \<noteq> 0"
    and "length (ddm_payload m) \<le> min maximum kMaximumPayload"
    and "if fixed then length pad = padding_for (length (ddm_payload m)) else length pad \<le> alignment"
proof -
  have len: "length bs \<ge> 12"
    using assms by (auto simp: decode_message_def valid_common_header_def split: if_splits)
  then obtain a b c d e f g h i j k l rest where bs: "bs = [a, b, c, d, e, f, g, h, i, j, k, l] @ rest"
    by (rule split_header)
  define n where "n = read_u32_le [e, f, g, h] 0"
  have n: "read_u32_le bs 4 = n" by (simp add: bs n_def read_u32_le_def)
  have put: "append_u32_le [] n = [e, f, g, h]" unfolding n_def by (rule le32.put_get) simp
  have hdr: "a = message_id" "b \<noteq> 0" "b = tag" "c = NOT b" "d = 0" "i = 0 \<or> i = 1" "j = 0" "k = 0" "l = 0"
    and size: "unat n \<le> maximum" "unat n \<le> kMaximumPayload" "unat n \<le> length rest"
    and pad: "if fixed then length rest - unat n = padding_for (unat n) else length rest - unat n \<le> alignment"
    and m: "m = \<lparr>ddm_tag = b, end_of_message = (i AND 1 \<noteq> 0), ddm_payload = take (unat n) rest\<rparr>"
    using assms unfolding decode_message_def Let_def n
    by (auto simp: valid_common_header_def bs eom_byte split: if_splits)
  have l: "length (ddm_payload m) = unat n" using size(3) by (simp add: m)
  show thesis
  proof (rule that [of "drop (unat n) rest"])
    show "bs = device_message message_id m (drop (unat n) rest)"
      using hdr put size(3) unfolding device_message_def l
      by (auto simp: bs m append_u32_le_def)
  qed (use hdr size pad l m in auto)
qed

lemma decode_device_message:
  assumes "ddm_tag m \<noteq> 0" and "length (ddm_payload m) \<le> min maximum kMaximumPayload"
    and "length pad \<le> alignment"
  shows "decode_message (device_message message_id m pad) message_id (ddm_tag m) maximum alignment False = Some m"
proof -
  define n :: u32 where "n = of_nat (length (ddm_payload m))"
  have n: "unat n = length (ddm_payload m)" using assms(2) by (simp add: n_def length_u32 del: kMaximumPayload_def)
  have "read_u32_le (device_message message_id m pad) 4 = n"
    unfolding device_message_def n_def [symmetric] by (rule read_after_append) simp
  then show ?thesis
    using assms n unfolding decode_message_def valid_common_header_def
    by (simp add: device_message_def append_u32_le_bytes)
qed

lemma padding_aligns: "4 dvd n + padding_for n"
proof -
  define q r where "q = n div 4" and "r = n mod 4"
  have n: "n = 4 * q + r" and "r < 4" by (simp_all add: q_def r_def)
  then consider "r = 0" | "r = 1" | "r = 2" | "r = 3" by linarith
  then have "4 dvd r + (4 - r) mod 4" by cases simp_all
  then have "4 dvd 4 * q + (r + (4 - r) mod 4)" by (rule dvd_add [OF dvd_triv_left])
  then show ?thesis unfolding padding_for_def r_def [symmetric] using n by (simp add: add.assoc)
qed

section \<open>Properties\<close>

text \<open>The bulk-out messages round-trip: a device-dependent message, a read request and a trigger are
  encoded exactly when their tag is non-zero and their size is in range, the encoding has a length that
  is a multiple of four, and decoding it gives back every field.\<close>

theorem usbtmc_out_round_trip:
  "(case encode_dev_dep_msg_out (ddm_tag m) (ddm_payload m) (end_of_message m) of
      None \<Rightarrow> ddm_tag m = 0 \<or> length (ddm_payload m) > kMaximumPayload
    | Some bs \<Rightarrow> decode_dev_dep_msg_out bs kMaximumPayload = Some m \<and> 4 dvd length bs) \<and>
   (case encode_request_dev_dep_msg_in tag transfer enabled termchar of
      None \<Rightarrow> tag = 0 \<or> transfer = 0 \<or> unat transfer > kMaximumPayload
    | Some bs \<Rightarrow> decode_request_dev_dep_msg_in bs = Some (tag, transfer, enabled, termchar) \<and> length bs = 12) \<and>
   (case encode_usb488_trigger tag of
      None \<Rightarrow> tag = 0
    | Some bs \<Rightarrow> decode_usb488_trigger bs = Some tag \<and> length bs = 12)"
proof (intro conjI)
  show "case encode_dev_dep_msg_out (ddm_tag m) (ddm_payload m) (end_of_message m) of
      None \<Rightarrow> ddm_tag m = 0 \<or> length (ddm_payload m) > kMaximumPayload
    | Some bs \<Rightarrow> decode_dev_dep_msg_out bs kMaximumPayload = Some m \<and> 4 dvd length bs"
  proof (cases "encode_dev_dep_msg_out (ddm_tag m) (ddm_payload m) (end_of_message m)")
    case None
    then show ?thesis using dev_dep_out.encode_some [of m] by auto
  next
    case (Some bs)
    then have "length bs = 4 + (4 + (4 + (length (ddm_payload m) + padding_for (length (ddm_payload m)))))"
      by (auto simp: encode_dev_dep_msg_out_def encode_message_def append_u32_le_def split: if_splits)
    then have "4 dvd length bs" by (simp only: dvd_add_right_iff dvd_refl padding_aligns)
    with Some dev_dep_out.decode_encode [of m bs] show ?thesis by simp
  qed
  show "case encode_request_dev_dep_msg_in tag transfer enabled termchar of
      None \<Rightarrow> tag = 0 \<or> transfer = 0 \<or> unat transfer > kMaximumPayload
    | Some bs \<Rightarrow> decode_request_dev_dep_msg_in bs = Some (tag, transfer, enabled, termchar) \<and> length bs = 12"
    using request_in.decode_encode [of "(tag, transfer, enabled, termchar)"]
    by (auto simp: encode_request_dev_dep_msg_in_def append_u32_le_def)
  show "case encode_usb488_trigger tag of
      None \<Rightarrow> tag = 0
    | Some bs \<Rightarrow> decode_usb488_trigger bs = Some tag \<and> length bs = 12"
    using trigger_msg.decode_encode [of tag] by (auto simp: encode_usb488_trigger_def)
qed

text \<open>C39. What the device sends is validated completely: \<open>decode_dev_dep_msg_in\<close> accepts a transfer if and
  only if it is the header of an input message with the expected non-zero tag and its complement,
  reserved bytes zero, a payload of the announced length within both limits and at most the allowed number of
  alignment bytes; and the decoded message has exactly that tag, end flag and payload.\<close>

theorem device_message_exact:
  "decode_dev_dep_msg_in bs tag maximum alignment = Some m \<longleftrightarrow>
     (\<exists>pad. bs = device_message kDevDepMsgIn m pad \<and> length pad \<le> alignment) \<and>
     ddm_tag m = tag \<and> tag \<noteq> 0 \<and> length (ddm_payload m) \<le> min maximum kMaximumPayload" (is "?l \<longleftrightarrow> ?r")
proof
  assume ?l
  then have "decode_message bs kDevDepMsgIn tag maximum alignment False = Some m"
    by (simp add: decode_dev_dep_msg_in_def)
  then show ?r by (rule decode_message_form) auto
next
  assume ?r
  then show ?l unfolding decode_dev_dep_msg_in_def using decode_device_message by metis
qed

text \<open>The control responses that steer recovery are consistent when accepted: the abort of a bulk-in
  transfer and the clear never report completion while the device still has FIFO data, a pending abort never
  claims a byte count, an initiated abort names the aborted tag, USB488 features are only reported by an interface
  that declares the subclass, and a status notification has a non-zero tag below 128.\<close>

theorem control_responses_consistent:
  "(case decode_check_abort_bulk_in bs of
      Some r \<Rightarrow> \<not> (ss_status r = kStatusSuccess \<and> bulk_in_fifo_bytes r) \<and>
                \<not> (ss_status r = kStatusPending \<and> transferred r \<noteq> 0)
    | None \<Rightarrow> True) \<and>
   (case decode_check_clear bs of
      Some r \<Rightarrow> \<not> (ss_status r = kStatusSuccess \<and> bulk_in_fifo_bytes r) | None \<Rightarrow> True) \<and>
   (case decode_initiate_abort bs tag of
      Some st \<Rightarrow> \<not> (st = kStatusSuccess \<and> bs ! 1 \<noteq> tag) | None \<Rightarrow> True) \<and>
   (case decode_capabilities bs expect of
      Some c \<Rightarrow> (cap_usb488 c \<longleftrightarrow> expect \<and> cap_status c = kStatusSuccess) \<and>
                \<not> (cap_usb488_trigger c \<and> \<not> cap_usb488 c) \<and>
                \<not> (cap_usb488_service_request c \<and> \<not> cap_usb488 c) \<and>
                \<not> (cap_termchar c \<and> cap_status c \<noteq> kStatusSuccess)
    | None \<Rightarrow> True) \<and>
   (case decode_interrupt_status_byte bs of
      Some (t, b) \<Rightarrow> t \<noteq> 0 \<and> unat t < 128 | None \<Rightarrow> True)"
proof (intro conjI)
  have m: "unat (x AND 0x7f :: byte) < 128" for x
  proof -
    have "(0x7f :: byte) = mask 7" by (simp add: mask_eq_exp_minus_1)
    then have "x AND 0x7f = take_bit 7 x" by (simp add: take_bit_eq_mask)
    moreover have "unat (take_bit 7 x) < 2 ^ 7" 
      using take_bit_nat_less_exp [of 7 "unat x"] by (simp add: unsigned_take_bit_eq)
    ultimately show ?thesis by simp
  qed
  show "case decode_interrupt_status_byte bs of Some (t, b) \<Rightarrow> t \<noteq> 0 \<and> unat t < 128 | None \<Rightarrow> True"
    using m by (auto simp: decode_interrupt_status_byte_def split: option.split)
  show "case decode_capabilities bs expect of
      Some c \<Rightarrow> (cap_usb488 c \<longleftrightarrow> expect \<and> cap_status c = kStatusSuccess) \<and>
                \<not> (cap_usb488_trigger c \<and> \<not> cap_usb488 c) \<and>
                \<not> (cap_usb488_service_request c \<and> \<not> cap_usb488 c) \<and>
                \<not> (cap_termchar c \<and> cap_status c \<noteq> kStatusSuccess)
    | None \<Rightarrow> True"
    by (simp add: decode_capabilities_def capabilities_empty_def Let_def)
qed (simp_all add: decode_check_abort_bulk_in_def decode_check_clear_def decode_initiate_abort_def Let_def)

end
