(* ===== verification/Framed_Protocols.thy ===== *)
theory Framed_Protocols
  imports Visa_Prelude
begin

text \<open>
  The framed network protocols: the XDR writer and reader and the ONC RPC messages of
  \<open>src/backends/vxi11/vxi11_protocol.{h,cpp}\<close>, and the HiSLIP frames of
  \<open>src/backends/hislip/hislip_protocol.{h,cpp}\<close>. A writer is the byte list written so far, a reader the
  byte list not yet read; \<open>None\<close> is a reader's \<open>false\<close>. Each source file has its own big-endian integer
  routines; both are instances of the byte-order interface.
\<close>

section \<open>XDR\<close>

definition xdr_u32 :: "byte list \<Rightarrow> u32 \<Rightarrow> byte list" where
  "xdr_u32 bytes value =
     bytes @ [ucast (drop_bit 24 value), ucast (drop_bit 16 value), ucast (drop_bit 8 value), ucast value]"

definition xdr_boolean :: "byte list \<Rightarrow> bool \<Rightarrow> byte list" where
  "xdr_boolean bytes value = xdr_u32 bytes (if value then 1 else 0)"

text \<open>The padding loop of \<open>opaque\<close> looks at the size of everything written so far.\<close>

function xdr_pad :: "byte list \<Rightarrow> byte list" where
  "xdr_pad bytes = (if length bytes mod 4 \<noteq> 0 then xdr_pad (bytes @ [0]) else bytes)"
  by pat_completeness auto
termination
proof (relation "measure (\<lambda>bs. (4 - length bs mod 4) mod 4)", goal_cases)
  case (2 bytes)
  moreover define r where "r = length bytes mod 4"
  ultimately have "0 < r" "r < 4" "length (bytes @ [0]) mod 4 = (r + 1) mod 4" by (simp_all add: mod_Suc_eq)
  then show ?case using r_def by (cases "r = 3") (auto simp: mod_less)
qed simp

definition xdr_opaque :: "byte list \<Rightarrow> byte list \<Rightarrow> byte list" where
  "xdr_opaque bytes value = xdr_pad (xdr_u32 bytes (of_nat (length value)) @ value)"

definition xdr_string :: "byte list \<Rightarrow> string \<Rightarrow> byte list" where
  "xdr_string bytes value = xdr_opaque bytes (map of_char value)"

definition xdr_read_u32_at :: "byte list \<Rightarrow> u32" where
  "xdr_read_u32_at input =
     push_bit 24 (ucast (input ! 0)) OR push_bit 16 (ucast (input ! 1)) OR
     push_bit 8 (ucast (input ! 2)) OR ucast (input ! 3)"

definition xdr_read_u32 :: "byte list \<Rightarrow> (u32 \<times> byte list) option" where
  "xdr_read_u32 rest =
     (if length rest < 4 then None else Some (xdr_read_u32_at rest, drop 4 rest))"

text \<open>\<open>(n + 3) & ~3\<close>.\<close>

definition xdr_padded :: "nat \<Rightarrow> nat" where
  "xdr_padded n = (n + 3) div 4 * 4"

definition xdr_read_opaque :: "nat \<Rightarrow> byte list \<Rightarrow> (byte list \<times> byte list) option" where
  "xdr_read_opaque maximum rest =
     (case xdr_read_u32 rest of
        None \<Rightarrow> None
      | Some (len, rest') \<Rightarrow>
          if unat len > maximum then None
          else if xdr_padded (unat len) > length rest' then None
          else Some (take (unat len) rest', drop (xdr_padded (unat len)) rest'))"

section \<open>Remote procedure calls\<close>

definition make_rpc_call :: "u32 \<Rightarrow> u32 \<Rightarrow> u32 \<Rightarrow> u32 \<Rightarrow> byte list \<Rightarrow> byte list" where
  "make_rpc_call xid program version procedure arguments =
     (let body = foldl xdr_u32 [] [xid, 0, 2, program, version, procedure, 0, 0, 0, 0] @ arguments in
      if length body > 0x7FFFFFFF then []
      else xdr_u32 [] (0x80000000 OR of_nat (length body)) @ body)"

definition parse_rpc_reply :: "byte list \<Rightarrow> u32 \<Rightarrow> byte list option" where
  "parse_rpc_reply message expected_xid =
     (case xdr_read_u32 message of None \<Rightarrow> None | Some (xid, r1) \<Rightarrow>
      case xdr_read_u32 r1 of None \<Rightarrow> None | Some (message_type, r2) \<Rightarrow>
      case xdr_read_u32 r2 of None \<Rightarrow> None | Some (reply_status, r3) \<Rightarrow>
      if xid \<noteq> expected_xid \<or> message_type \<noteq> 1 \<or> reply_status \<noteq> 0 then None else
      case xdr_read_u32 r3 of None \<Rightarrow> None | Some (verifier_flavor, r4) \<Rightarrow>
      case xdr_read_u32 r4 of None \<Rightarrow> None | Some (verifier_size, r5) \<Rightarrow>
      if xdr_padded (unat verifier_size) > length r5 then None else
      case xdr_read_u32 (drop (xdr_padded (unat verifier_size)) r5) of None \<Rightarrow> None
      | Some (accept_status, r6) \<Rightarrow> if accept_status \<noteq> 0 then None else Some r6)"

section \<open>HiSLIP frames\<close>

text \<open>A message type is any byte: \<open>decode\<close> casts without a check. These are the named ones.\<close>

definition hs_initialize :: byte where [simp]: "hs_initialize = 0"
definition hs_initialize_response :: byte where [simp]: "hs_initialize_response = 1"
definition hs_fatal_error :: byte where [simp]: "hs_fatal_error = 2"
definition hs_error :: byte where [simp]: "hs_error = 3"
definition hs_async_lock :: byte where [simp]: "hs_async_lock = 4"
definition hs_async_lock_response :: byte where [simp]: "hs_async_lock_response = 5"
definition hs_data :: byte where [simp]: "hs_data = 6"
definition hs_data_end :: byte where [simp]: "hs_data_end = 7"
definition hs_device_clear_complete :: byte where [simp]: "hs_device_clear_complete = 8"
definition hs_device_clear_acknowledge :: byte where [simp]: "hs_device_clear_acknowledge = 9"
definition hs_trigger :: byte where [simp]: "hs_trigger = 12"
definition hs_async_maximum_message_size :: byte where [simp]: "hs_async_maximum_message_size = 15"
definition hs_async_initialize :: byte where [simp]: "hs_async_initialize = 17"
definition hs_async_device_clear :: byte where [simp]: "hs_async_device_clear = 19"
definition hs_async_status_query :: byte where [simp]: "hs_async_status_query = 21"

record frame =
  fr_type :: byte
  fr_control :: byte
  fr_parameter :: u32
  fr_payload :: "byte list"

definition hs_append_u32 :: "byte list \<Rightarrow> u32 \<Rightarrow> byte list" where
  "hs_append_u32 out value =
     out @ [ucast (drop_bit 24 value), ucast (drop_bit 16 value), ucast (drop_bit 8 value), ucast value]"

definition hs_append_u64 :: "byte list \<Rightarrow> u64 \<Rightarrow> byte list" where
  "hs_append_u64 out value = hs_append_u32 (hs_append_u32 out (ucast (drop_bit 32 value))) (ucast value)"

definition hs_read_u32 :: "byte list \<Rightarrow> u32" where
  "hs_read_u32 input =
     push_bit 24 (ucast (input ! 0)) OR push_bit 16 (ucast (input ! 1)) OR
     push_bit 8 (ucast (input ! 2)) OR ucast (input ! 3)"

definition hs_read_u64 :: "byte list \<Rightarrow> u64" where
  "hs_read_u64 input = push_bit 32 (ucast (hs_read_u32 input)) OR ucast (hs_read_u32 (drop 4 input))"

definition hs_encode :: "byte \<Rightarrow> byte \<Rightarrow> u32 \<Rightarrow> byte list \<Rightarrow> byte list" where
  "hs_encode type control parameter payload =
     hs_append_u64 (hs_append_u32 [of_char (CHR ''H''), of_char (CHR ''S''), type, control] parameter)
       (of_nat (length payload)) @ payload"

definition hs_decode :: "byte list \<Rightarrow> frame option" where
  "hs_decode bytes =
     (if length bytes < 16 \<or> bytes ! 0 \<noteq> of_char (CHR ''H'') \<or> bytes ! 1 \<noteq> of_char (CHR ''S'') then None
      else if length bytes - 16 \<noteq> unat (hs_read_u64 (drop 8 bytes)) then None
      else Some \<lparr>fr_type = bytes ! 2, fr_control = bytes ! 3, fr_parameter = hs_read_u32 (drop 4 bytes),
                 fr_payload = drop 16 bytes\<rparr>)"

section \<open>Big-endian integers\<close>

interpretation xdr: byte_order "xdr_u32 []" xdr_read_u32_at
proof
  fix w :: u32 and rest bs :: "byte list"
  show "length (xdr_u32 [] w) = 4" by (simp add: xdr_u32_def)
  show "xdr_read_u32_at (xdr_u32 [] w @ rest) = w"
    using be32_join [of w] by (simp add: xdr_u32_def xdr_read_u32_at_def)
  assume "length bs = 4"
  then obtain a b c d where bs: "bs = [a, b, c, d]" by (auto simp: eval_nat_numeral length_Suc_conv)
  show "xdr_u32 [] (xdr_read_u32_at bs) = bs"
    using be32_split [of a b c d] by (simp add: bs xdr_u32_def xdr_read_u32_at_def)
qed

interpretation hs: byte_order "hs_append_u32 []" hs_read_u32
proof
  fix w :: u32 and rest bs :: "byte list"
  show "length (hs_append_u32 [] w) = 4" by (simp add: hs_append_u32_def)
  show "hs_read_u32 (hs_append_u32 [] w @ rest) = w"
    using be32_join [of w] by (simp add: hs_append_u32_def hs_read_u32_def)
  assume "length bs = 4"
  then obtain a b c d where bs: "bs = [a, b, c, d]" by (auto simp: eval_nat_numeral length_Suc_conv)
  show "hs_append_u32 [] (hs_read_u32 bs) = bs"
    using be32_split [of a b c d] by (simp add: bs hs_append_u32_def hs_read_u32_def)
qed

lemma xdr_u32_append: "xdr_u32 bs w = bs @ xdr_u32 [] w"
  by (simp add: xdr_u32_def)

lemma hs_u32_append: "hs_append_u32 bs w = bs @ hs_append_u32 [] w"
  by (simp add: hs_append_u32_def)

lemma xdr_read_u32_iff: "xdr_read_u32 rest = Some (w, r) \<longleftrightarrow> rest = xdr_u32 [] w @ r"
proof
  assume a: "xdr_read_u32 rest = Some (w, r)"
  then have "length (take 4 rest) = 4" "w = xdr_read_u32_at (take 4 rest)" "r = drop 4 rest"
    by (auto simp: xdr_read_u32_def xdr_read_u32_at_def split: if_splits)
  then show "rest = xdr_u32 [] w @ r" using xdr.put_get [of "take 4 rest"] by simp
next
  assume "rest = xdr_u32 [] w @ r"
  then show "xdr_read_u32 rest = Some (w, r)"
    using xdr.get_put [of w r] xdr.take_drop_put [of w r] xdr.length_put [of w] by (simp add: xdr_read_u32_def)
qed

lemma xdr_read_u32_put [simp]: "xdr_read_u32 (xdr_u32 [] w @ r) = Some (w, r)"
  by (simp add: xdr_read_u32_iff)

lemma xdr_pad_eq: "xdr_pad bs = bs @ replicate ((4 - length bs mod 4) mod 4) 0"
proof (induction bs rule: xdr_pad.induct)
  case (1 bs)
  show ?case
  proof (cases "length bs mod 4 = 0")
    case True
    then show ?thesis by simp
  next
    case False
    define r where "r = length bs mod 4"
    with False have r: "0 < r" "r < 4" "Suc (length bs) mod 4 = (r + 1) mod 4" by (simp_all add: mod_Suc_eq)
    have "Suc ((4 - Suc (length bs) mod 4) mod 4) = (4 - length bs mod 4) mod 4"
      using r unfolding r_def [symmetric] by (cases "r = 3") auto
    with 1 [OF False] False show ?thesis
      by (subst xdr_pad.simps) (simp add: replicate_append_same flip: replicate_Suc)
  qed
qed

declare xdr_pad.simps [simp del]

lemma xdr_padded_eq: "xdr_padded n = n + (4 - n mod 4) mod 4"
proof -
  define q r where "q = n div 4" and "r = n mod 4"
  then have n: "n = 4 * q + r" "r < 4" by simp_all
  then consider "r = 0" | "r = 1" | "r = 2" | "r = 3" by linarith
  then show ?thesis unfolding xdr_padded_def r_def [symmetric] by cases (simp_all add: n)
qed

lemma xdr_opaque_append:
  assumes "4 dvd length pre"
  shows "xdr_opaque pre v = pre @ xdr_u32 [] (of_nat (length v)) @ v @ replicate (xdr_padded (length v) - length v) 0"
proof -
  have "length (xdr_u32 pre w @ v) mod 4 = length v mod 4" for w
    using assms by (auto simp: xdr_u32_def mod_add_left_eq dvd_eq_mod_eq_0)
  then show ?thesis
    unfolding xdr_opaque_def xdr_pad_eq using xdr_u32_append [of pre] by (simp add: xdr_padded_eq)
qed

lemma xdr_read_opaque_write:
  assumes "4 dvd length pre" and "length v < 2 ^ 32" and "length v \<le> maximum"
  shows "\<exists>enc. xdr_opaque pre v = pre @ enc \<and> xdr_read_opaque maximum (enc @ rest) = Some (v, rest) \<and>
               4 dvd length enc"
proof (intro exI conjI)
  let ?enc = "xdr_u32 [] (of_nat (length v)) @ v @ replicate (xdr_padded (length v) - length v) 0"
  show "xdr_opaque pre v = pre @ ?enc" by (simp add: xdr_opaque_append [OF assms(1)])
  have u: "unat (of_nat (length v) :: u32) = length v"
    using assms(2) by (simp add: unat_of_nat take_bit_eq_mod)
  have le: "length v \<le> xdr_padded (length v)" by (simp add: xdr_padded_eq)
  show "xdr_read_opaque maximum (?enc @ rest) = Some (v, rest)"
    using assms(3) u le by (simp add: xdr_read_opaque_def)
  have "length ?enc = 4 + xdr_padded (length v)" using le by (simp add: xdr.length_put)
  then show "4 dvd length ?enc" by (simp add: xdr_padded_def)
qed

section \<open>Replies and calls\<close>

lemma parse_rpc_reply_iff:
  "parse_rpc_reply message xid = Some result \<longleftrightarrow>
     (\<exists>flavor size verifier.
        message = concat (map (xdr_u32 []) [xid, 1, 0, flavor, size]) @ verifier @ xdr_u32 [] 0 @ result \<and>
        length verifier = xdr_padded (unat size))" (is "?l \<longleftrightarrow> ?r")
proof
  assume ?l
  then obtain r1 r2 r3 flavor r4 size r5 where m: "message = xdr_u32 [] xid @ r1" "r1 = xdr_u32 [] 1 @ r2"
    "r2 = xdr_u32 [] 0 @ r3" "r3 = xdr_u32 [] flavor @ r4" "r4 = xdr_u32 [] size @ r5"
    and p: "xdr_padded (unat size) \<le> length r5"
      "drop (xdr_padded (unat size)) r5 = xdr_u32 [] 0 @ result"
    by (auto simp: parse_rpc_reply_def xdr_read_u32_iff split: option.splits if_splits prod.splits)
  define verifier where "verifier = take (xdr_padded (unat size)) r5"
  have "r5 = verifier @ xdr_u32 [] 0 @ result" unfolding verifier_def p(2) [symmetric] by simp
  moreover have "length verifier = xdr_padded (unat size)" using p(1) by (simp add: verifier_def)
  ultimately show ?r using m by auto
next
  assume ?r
  then obtain flavor size verifier where
    m: "message = concat (map (xdr_u32 []) [xid, 1, 0, flavor, size]) @ verifier @ xdr_u32 [] 0 @ result"
    and l: "length verifier = xdr_padded (unat size)" by blast
  show ?l using l by (simp add: m parse_rpc_reply_def)
qed

lemma foldl_xdr: "foldl xdr_u32 bs ws = bs @ concat (map (xdr_u32 []) ws)"
  by (induction ws arbitrary: bs) (simp_all add: xdr_u32_def)

section \<open>Frames\<close>

lemma u64_halves:
  fixes w :: u64
  shows "push_bit 32 (ucast (ucast (drop_bit 32 w) :: u32)) OR ucast (ucast w :: u32) = w"
proof (rule bit_word_eqI)
  fix n assume "n < LENGTH(64)"
  then show "bit (push_bit 32 (ucast (ucast (drop_bit 32 w) :: u32)) OR ucast (ucast w :: u32) :: u64) n = bit w n"
    by (cases "n < 32") (auto simp: bit_simps)
qed

lemma u64_join:
  fixes a b :: u32
  defines "w \<equiv> push_bit 32 (ucast a) OR ucast b :: u64"
  shows "ucast (drop_bit 32 w) = a" "ucast w = b"
proof -
  have far: "\<not> bit (c :: u32) n" if "32 \<le> n" for c n using that bit_imp_le_length [of c n] by auto
  show "ucast (drop_bit 32 w) = a" "ucast w = b"
    unfolding w_def by (auto intro!: bit_word_eqI simp: bit_simps far)
qed

lemma hs_append_u64_eq: "hs_append_u64 bs w = bs @ hs_append_u32 [] (ucast (drop_bit 32 w)) @ hs_append_u32 [] (ucast w)"
  by (simp add: hs_append_u64_def hs_append_u32_def)

lemma hs_read_u64_put: "hs_read_u64 (hs_append_u64 [] w @ rest) = w"
  using hs.get_put [of "ucast (drop_bit 32 w)" "hs_append_u32 [] (ucast w) @ rest"]
    hs.take_drop_put(2) [of "ucast (drop_bit 32 w)" "hs_append_u32 [] (ucast w) @ rest"] u64_halves [of w]
  by (simp add: hs_read_u64_def hs_append_u64_eq hs.get_put)

lemma hs_put_read_u64:
  assumes "length bs = 8"
  shows "hs_append_u64 [] (hs_read_u64 bs) = bs"
proof -
  have "hs_read_u32 bs = hs_read_u32 (take 4 bs)" using assms by (simp add: hs_read_u32_def)
  then show ?thesis
    using assms hs.put_get [of "take 4 bs"] hs.put_get [of "drop 4 bs"] u64_join
    by (simp add: hs_append_u64_eq hs_read_u64_def)
qed

lemma hs_encode_eq:
  "hs_encode t c p payload =
     [of_char (CHR ''H''), of_char (CHR ''S''), t, c] @ hs_append_u32 [] p @
     hs_append_u64 [] (of_nat (length payload)) @ payload"
  by (simp add: hs_encode_def hs_append_u64_eq hs_append_u32_def)

lemma hs_append_u64_length: "length (hs_append_u64 [] w) = 8"
  by (simp add: hs_append_u64_eq hs.length_put)

lemma hs_decode_encode:
  assumes "length payload < 2 ^ 64"
  shows "hs_decode (hs_encode t c p payload) =
         Some \<lparr>fr_type = t, fr_control = c, fr_parameter = p, fr_payload = payload\<rparr>"
proof -
  let ?n = "of_nat (length payload) :: u64"
  have n: "unat ?n = length payload" using assms by (simp add: unat_of_nat take_bit_eq_mod)
  have "drop 8 (hs_encode t c p payload) = hs_append_u64 [] ?n @ payload"
    "drop 4 (hs_encode t c p payload) = hs_append_u32 [] p @ hs_append_u64 [] ?n @ payload"
    "drop 16 (hs_encode t c p payload) = payload"
    "length (hs_encode t c p payload) = 16 + length payload"
    by (simp_all add: hs_encode_eq hs.length_put hs_append_u64_length)
  moreover have "hs_encode t c p payload ! 0 = of_char (CHR ''H'')" "hs_encode t c p payload ! 1 = of_char (CHR ''S'')"
    "hs_encode t c p payload ! 2 = t" "hs_encode t c p payload ! 3 = c"
    by (simp_all add: hs_encode_eq)
  ultimately show ?thesis using n by (simp add: hs_decode_def hs_read_u64_put hs.get_put)
qed

lemma hs_encode_decode:
  assumes "hs_decode bs = Some f"
  shows "bs = hs_encode (fr_type f) (fr_control f) (fr_parameter f) (fr_payload f)"
    and "length (fr_payload f) < 2 ^ 64"
proof -
  have len: "length bs \<ge> 16" and hdr: "bs ! 0 = of_char (CHR ''H'')" "bs ! 1 = of_char (CHR ''S'')"
    and size: "length bs - 16 = unat (hs_read_u64 (drop 8 bs))"
    and f: "f = \<lparr>fr_type = bs ! 2, fr_control = bs ! 3, fr_parameter = hs_read_u32 (drop 4 bs), fr_payload = drop 16 bs\<rparr>"
    using assms by (auto simp: hs_decode_def split: if_splits)
  have p: "length (fr_payload f) = unat (hs_read_u64 (drop 8 bs))" using size f by simp
  then show "length (fr_payload f) < 2 ^ 64" using unsigned_less [of "hs_read_u64 (drop 8 bs)", where ?'a = nat] by simp
  have "length (take 4 bs) = 4" using len by simp
  then have four: "take 4 bs = [of_char (CHR ''H''), of_char (CHR ''S''), fr_type f, fr_control f]"
    using hdr len f by (intro nth_equalityI) (auto simp: nth_Cons' less_Suc_eq numeral_eq_Suc)
  have "hs_read_u32 (drop 4 bs) = hs_read_u32 (take 4 (drop 4 bs))"
    "hs_read_u64 (drop 8 bs) = hs_read_u64 (take 8 (drop 8 bs))"
    using len by (simp_all add: hs_read_u32_def hs_read_u64_def)
  moreover have "length (take 4 (drop 4 bs)) = 4" "length (take 8 (drop 8 bs)) = 8" using len by simp_all
  moreover have "of_nat (length (fr_payload f)) = hs_read_u64 (drop 8 bs)" using p by simp
  ultimately have parts: "hs_append_u32 [] (fr_parameter f) = take 4 (drop 4 bs)"
    "hs_append_u64 [] (of_nat (length (fr_payload f))) = take 8 (drop 8 bs)"
    using hs.put_get [of "take 4 (drop 4 bs)"] hs_put_read_u64 [of "take 8 (drop 8 bs)"] f by simp_all
  have "bs = take 4 bs @ take 4 (drop 4 bs) @ take 8 (drop 8 bs) @ drop 16 bs"
    by (metis append_take_drop_id drop_drop add_numeral_left numeral_Bit0 arith_simps(1) arith_simps(3) semiring_norm(2) semiring_norm(6))
  then show "bs = hs_encode (fr_type f) (fr_control f) (fr_parameter f) (fr_payload f)"
    unfolding hs_encode_eq parts four [symmetric] by (simp add: f)
qed

interpretation hislip: message_codec
  "\<lambda>f. if length (fr_payload f) < 2 ^ 64
       then Some (hs_encode (fr_type f) (fr_control f) (fr_parameter f) (fr_payload f)) else None"
  hs_decode "\<lambda>f. length (fr_payload f) < 2 ^ 64"
  by unfold_locales (auto simp: hs_decode_encode split: if_splits)

section \<open>Properties\<close>

text \<open>C21. HiSLIP frames are in one-to-one correspondence with their encodings: \<open>decode\<close> accepts a byte
  sequence exactly when it is the encoding of a frame, and then returns that frame; nothing is truncated
  or left over.\<close>

theorem hislip_frame_exact:
  "hs_decode bs = Some f \<longleftrightarrow>
     bs = hs_encode (fr_type f) (fr_control f) (fr_parameter f) (fr_payload f) \<and>
     length (fr_payload f) < 2 ^ 64"
proof
  assume "hs_decode bs = Some f"
  then show "bs = hs_encode (fr_type f) (fr_control f) (fr_parameter f) (fr_payload f) \<and>
     length (fr_payload f) < 2 ^ 64" using hs_encode_decode by blast
next
  assume "bs = hs_encode (fr_type f) (fr_control f) (fr_parameter f) (fr_payload f) \<and>
     length (fr_payload f) < 2 ^ 64"
  then show "hs_decode bs = Some f" by (intro hislip.decode_encode [of f bs]) simp
qed

text \<open>XDR opaque data round-trips: written to a buffer whose size is a multiple of four, the data is read
  back unchanged, the reader stops exactly behind its padding, and the buffer stays aligned; data longer than the
  reader's limit is refused.\<close>

theorem xdr_opaque_round_trip:
  assumes "4 dvd length pre" and "length v < 2 ^ 32"
  shows "\<exists>enc. xdr_opaque pre v = pre @ enc \<and> 4 dvd length (xdr_opaque pre v) \<and>
     xdr_read_opaque maximum (enc @ rest) = (if length v \<le> maximum then Some (v, rest) else None)"
proof -
  let ?enc = "xdr_u32 [] (of_nat (length v)) @ v @ replicate (xdr_padded (length v) - length v) 0"
  have e: "xdr_opaque pre v = pre @ ?enc" by (simp add: xdr_opaque_append [OF assms(1)])
  from xdr_read_opaque_write [OF assms le_refl] e have "4 dvd length ?enc" by (metis same_append_eq)
  then have "4 dvd length (xdr_opaque pre v)" using assms(1) e by simp
  moreover have "unat (of_nat (length v) :: u32) = length v"
    using assms(2) by (simp add: unat_of_nat take_bit_eq_mod)
  then have "\<not> length v \<le> maximum \<Longrightarrow> xdr_read_opaque maximum (?enc @ rest) = None"
    by (simp add: xdr_read_opaque_def)
  moreover have "length v \<le> maximum \<Longrightarrow> xdr_read_opaque maximum (?enc @ rest) = Some (v, rest)"
    using xdr_read_opaque_write [OF assms, of maximum rest] e by auto
  ultimately show ?thesis using e by (intro exI [of _ ?enc]) simp
qed

theorem xdr_opaque_round_trip_witness:
  "\<exists>enc. xdr_opaque [0, 0, 0, 1] [7, 8] = [0, 0, 0, 1] @ enc \<and> length (xdr_opaque [0, 0, 0, 1] [7, 8]) mod 4 = 0 \<and>
     xdr_read_opaque 16 (enc @ [9]) = Some ([7, 8], [9])"
  using xdr_opaque_round_trip [of "[0, 0, 0, 1]" "[7, 8]" 16 "[9]"] by (auto simp: dvd_eq_mod_eq_0)

text \<open>An RPC reply is accepted only if it is complete and belongs to the call: \<open>parse_rpc_reply\<close> returns
  a result if and only if the message is the header of an accepted, successful reply with the expected
  transaction id, any verifier with its padding, and then exactly that result.\<close>

theorem rpc_reply_exact:
  "parse_rpc_reply message xid = Some result \<longleftrightarrow>
     (\<exists>flavor size verifier.
        message = concat (map (xdr_u32 []) [xid, 1, 0, flavor, size]) @ verifier @ xdr_u32 [] 0 @ result \<and>
        length verifier = xdr_padded (unat size))"
  by (rule parse_rpc_reply_iff)

text \<open>A call is framed as a single record fragment: its first word has the last-fragment bit and the exact
  number of bytes that follow, which are the call header and the arguments; a call too long for the
  31-bit length is refused.\<close>

theorem rpc_call_framing:
  "if length arguments + 40 > 0x7FFFFFFF then make_rpc_call xid program version procedure arguments = []
   else \<exists>body. make_rpc_call xid program version procedure arguments =
          xdr_u32 [] (0x80000000 OR of_nat (length body)) @ body \<and>
        body = concat (map (xdr_u32 []) [xid, 0, 2, program, version, procedure, 0, 0, 0, 0]) @ arguments \<and>
        unat (take_bit 31 (0x80000000 OR of_nat (length body) :: u32)) = length body"
proof -
  let ?body = "concat (map (xdr_u32 []) [xid, 0, 2, program, version, procedure, 0, 0, 0, 0]) @ arguments"
  have len: "length ?body = length arguments + 40" by (simp add: xdr.length_put)
  have call: "make_rpc_call xid program version procedure arguments =
      (if length ?body > 0x7FFFFFFF then [] else xdr_u32 [] (0x80000000 OR of_nat (length ?body)) @ ?body)"
    unfolding make_rpc_call_def foldl_xdr Let_def append_Nil by (rule refl)
  have "unat (take_bit 31 (0x80000000 OR of_nat n :: u32)) = n" if "n \<le> 0x7FFFFFFF" for n
  proof -
    have "(0x80000000 :: u32) = push_bit 31 1" by (simp add: push_bit_eq_mult)
    then have "take_bit 31 (0x80000000 :: u32) = 0" by (simp add: take_bit_push_bit)
    then have "take_bit 31 (0x80000000 OR of_nat n :: u32) = take_bit 31 (of_nat n)" by (simp add: take_bit_or)
    moreover have "unat (take_bit 31 (of_nat n :: u32)) = n"
      unfolding unsigned_take_bit_eq using that by (simp add: unat_of_nat take_bit_eq_mod)
    ultimately show ?thesis by simp
  qed
  then show ?thesis unfolding call len [symmetric]
    by (metis (no_types, lifting) not_less)
qed

end
