(* ===== verification/Backend.thy ===== *)
theory Backend
  imports Lock_Manager
begin

text \<open>
  The interface between sessions and device backends (\<open>src/core/backend_session.h\<close>) and its mock
  implementation (\<open>src/backends/mock/mock_session.{h,cpp}\<close>). The interface is a record of the virtual
  functions; each takes the operation it runs under and returns it as it is afterwards, so that
  completions by other threads during the call are part of the returned operation. A read may block;
  what happens meanwhile is a list of events, as for locks.
\<close>

section \<open>The interface\<close>

type_synonym op = "unit operation"

record read_options =
  ro_termchar_enabled :: bool
  ro_termchar :: byte

type_synonym write_options = bool   \<comment> \<open>\<open>send_end\<close>\<close>

datatype attr_value = Attr_string string | Attr_u8 byte | Attr_u16 u16 | Attr_u32 u32 | Attr_u64 u64

text \<open>Results: the status, what is stored through output pointers (the bytes put into the buffer, the
  count), the operation and the backend. \<open>None\<close> is a call that has not returned: a read still blocked, or a loop over the
  device that does not end.\<close>

record 'b backend_ops =
  be_read :: "'b \<Rightarrow> op \<Rightarrow> u32 \<Rightarrow> read_options \<Rightarrow> (vi_status \<times> byte list \<times> u32 \<times> op \<times> 'b) option"
  be_write :: "'b \<Rightarrow> op \<Rightarrow> byte list \<Rightarrow> write_options \<Rightarrow> (vi_status \<times> u32 \<times> op \<times> 'b) option"
  be_clear :: "'b \<Rightarrow> op \<Rightarrow> (vi_status \<times> op \<times> 'b) option"
  be_flush :: "'b \<Rightarrow> op \<Rightarrow> u16 \<Rightarrow> vi_status \<times> op \<times> 'b"
  be_read_stb :: "'b \<Rightarrow> op \<Rightarrow> bool \<Rightarrow> (vi_status \<times> u16 option \<times> op \<times> 'b) option"
  be_assert_trigger :: "'b \<Rightarrow> op \<Rightarrow> u16 \<Rightarrow> (vi_status \<times> op \<times> 'b) option"
  be_usb_control :: "'b \<Rightarrow> op \<Rightarrow> byte \<Rightarrow> byte \<Rightarrow> u16 \<Rightarrow> u16 \<Rightarrow> byte list \<Rightarrow>
    vi_status \<times> byte list \<times> u32 \<times> op \<times> 'b"
  be_lock :: "'b \<Rightarrow> op \<Rightarrow> u32 \<Rightarrow> string \<Rightarrow> (vi_status \<times> op \<times> 'b) option"
  be_unlock :: "'b \<Rightarrow> op \<Rightarrow> (vi_status \<times> op \<times> 'b) option"
  be_set_attribute :: "'b \<Rightarrow> u32 \<Rightarrow> u64 \<Rightarrow> vi_status \<times> 'b"
  be_get_attribute :: "'b \<Rightarrow> u32 \<Rightarrow> vi_status \<times> attr_value option"
  be_close :: "'b \<Rightarrow> 'b"
  be_notify_cancel :: "'b \<Rightarrow> 'b"

text \<open>The default implementations of the virtual functions that have one.\<close>

definition default_assert_trigger :: "'b \<Rightarrow> op \<Rightarrow> u16 \<Rightarrow> vi_status \<times> op \<times> 'b" where
  "default_assert_trigger b operation protocol = (VI_ERROR_NSUP_OPER, operation, b)"

definition default_usb_control ::
  "'b \<Rightarrow> op \<Rightarrow> byte \<Rightarrow> byte \<Rightarrow> u16 \<Rightarrow> u16 \<Rightarrow> byte list \<Rightarrow> vi_status \<times> byte list \<times> u32 \<times> op \<times> 'b" where
  "default_usb_control b operation request_type request value index data =
     (VI_ERROR_NSUP_OPER, data, 0, operation, b)"

definition default_lock :: "'b \<Rightarrow> op \<Rightarrow> u32 \<Rightarrow> string \<Rightarrow> (vi_status \<times> op \<times> 'b) option" where
  "default_lock b operation lock_type access_key = Some (VI_SUCCESS, operation, b)"

definition default_unlock :: "'b \<Rightarrow> op \<Rightarrow> (vi_status \<times> op \<times> 'b) option" where
  "default_unlock b operation = Some (VI_SUCCESS, operation, b)"

definition default_set_attribute :: "'b \<Rightarrow> u32 \<Rightarrow> u64 \<Rightarrow> vi_status \<times> 'b" where
  "default_set_attribute b attribute value = (VI_ERROR_NSUP_ATTR, b)"

definition default_get_attribute :: "'b \<Rightarrow> u32 \<Rightarrow> vi_status \<times> attr_value option" where
  "default_get_attribute b attribute = (VI_ERROR_NSUP_ATTR, None)"

section \<open>The mock backend\<close>

record mock_session =
  ms_incoming :: "byte list"

definition mock_session_new :: mock_session where
  "mock_session_new = \<lparr>ms_incoming = []\<rparr>"

datatype mock_event =
    Mock_written "byte list"        \<comment> \<open>another thread's write queues a response and notifies\<close>
  | Mock_completed vi_status        \<comment> \<open>another thread completes the operation\<close>
  | Mock_notify                     \<comment> \<open>\<open>notify_cancel\<close>, or a spurious wake-up\<close>
  | Mock_deadline                   \<comment> \<open>the deadline of the operation passes\<close>

definition mock_ready :: "op \<Rightarrow> byte list \<Rightarrow> bool" where
  "mock_ready operation incoming \<longleftrightarrow> op_completed operation \<or> incoming \<noteq> []"

fun mock_wait :: "mock_event list \<Rightarrow> op \<Rightarrow> byte list \<Rightarrow> wait_result \<times> op \<times> byte list" where
  "mock_wait [] operation incoming = (Blocked, operation, incoming)"
| "mock_wait (Mock_written bs # evs) operation incoming =
     (if mock_ready operation (incoming @ bs) then (Ready, operation, incoming @ bs)
      else mock_wait evs operation (incoming @ bs))"
| "mock_wait (Mock_completed st # evs) operation incoming =
     mock_wait evs (snd (try_complete st operation)) incoming"
| "mock_wait (Mock_notify # evs) operation incoming =
     (if mock_ready operation incoming then (Ready, operation, incoming)
      else mock_wait evs operation incoming)"
| "mock_wait (Mock_deadline # evs) operation incoming =
     (if op_deadline operation = None then mock_wait evs operation incoming
      else if mock_ready operation incoming then (Ready, operation, incoming)
      else (Timed_out, operation, incoming))"

text \<open>How much a read takes and whether it ends at the termination character.\<close>

definition read_amount :: "read_options \<Rightarrow> nat \<Rightarrow> byte list \<Rightarrow> nat \<times> bool" where
  "read_amount options limit incoming =
     (let amount = min limit (length incoming); plain = takeWhile (\<lambda>b. b \<noteq> ro_termchar options) (take amount incoming) in
      if ro_termchar_enabled options \<and> length plain < amount then (length plain + 1, True)
      else (amount, False))"

text \<open>The part of \<open>read\<close> after the wait. \<open>race\<close> is a completion by another thread after the wait and
  before the read claims the operation.\<close>

definition mock_claim ::
  "vi_status option \<Rightarrow> mock_session \<Rightarrow> op \<Rightarrow> u32 \<Rightarrow> read_options \<Rightarrow>
   vi_status \<times> byte list \<times> u32 \<times> op \<times> mock_session" where
  "mock_claim race b operation count options =
     (if op_completed operation then (op_result operation, [], 0, operation, b)
      else
        let limit = unat count; incoming = ms_incoming b;
            (amount, found_termchar) = read_amount options limit incoming;
            status = (if found_termchar then VI_SUCCESS_TERM_CHAR
                      else if amount = limit then VI_SUCCESS_MAX_CNT else VI_SUCCESS);
            op1 = (case race of None \<Rightarrow> operation | Some st \<Rightarrow> snd (try_complete st operation));
            (won, op2) = try_complete status op1 in
        if \<not> won then (op_result op2, [], 0, op2, b)
        else (status, take amount incoming, of_nat amount, op2, b\<lparr>ms_incoming := drop amount incoming\<rparr>))"

definition mock_read ::
  "mock_event list \<Rightarrow> vi_status option \<Rightarrow> mock_session \<Rightarrow> op \<Rightarrow> u32 \<Rightarrow> read_options \<Rightarrow>
   (vi_status \<times> byte list \<times> u32 \<times> op \<times> mock_session) option" where
  "mock_read evs race b operation count options =
     (let (result, op1, incoming) =
            (if mock_ready operation (ms_incoming b) then (Ready, operation, ms_incoming b)
             else mock_wait evs operation (ms_incoming b));
          b1 = b\<lparr>ms_incoming := incoming\<rparr> in
      case result of
        Blocked \<Rightarrow> None
      | Timed_out \<Rightarrow> Some (mock_claim race b1 (snd (try_complete VI_ERROR_TMO op1)) count options)
      | Ready \<Rightarrow> Some (mock_claim race b1 op1 count options))"

definition mock_identity :: "byte list" where
  "mock_identity = map of_char (''WEBREAL,WRVISA-MOCK,0001,0.6'' @ [CHR 0x0A])"

definition mock_response :: "byte list \<Rightarrow> byte list" where
  "mock_response data =
     (let request = rev (dropWhile (\<lambda>b. b = 13 \<or> b = 10) (rev data)) in
      if request = map of_char ''*IDN?'' then mock_identity else data)"

definition mock_write ::
  "mock_session \<Rightarrow> op \<Rightarrow> byte list \<Rightarrow> write_options \<Rightarrow> vi_status \<times> u32 \<times> op \<times> mock_session" where
  "mock_write b operation data options =
     (let (won, op') = try_complete VI_SUCCESS operation in
      if \<not> won then (op_result op', 0, op', b)
      else (VI_SUCCESS, of_nat (length data), op',
            b\<lparr>ms_incoming := ms_incoming b @ mock_response data\<rparr>))"

definition mock_clear :: "mock_session \<Rightarrow> op \<Rightarrow> vi_status \<times> op \<times> mock_session" where
  "mock_clear b operation = (VI_SUCCESS, operation, b\<lparr>ms_incoming := []\<rparr>)"

definition mock_known_mask :: u16 where
  "mock_known_mask = VI_READ_BUF OR VI_WRITE_BUF OR VI_READ_BUF_DISCARD OR VI_WRITE_BUF_DISCARD OR
     VI_IO_IN_BUF OR VI_IO_OUT_BUF OR VI_IO_IN_BUF_DISCARD OR VI_IO_OUT_BUF_DISCARD"

definition mock_flush :: "mock_session \<Rightarrow> op \<Rightarrow> u16 \<Rightarrow> vi_status \<times> op \<times> mock_session" where
  "mock_flush b operation m =
     (if m = 0 \<or> m AND NOT mock_known_mask \<noteq> 0 then (VI_ERROR_INV_MASK, operation, b)
      else if m AND (VI_READ_BUF_DISCARD OR VI_IO_IN_BUF_DISCARD) \<noteq> 0 then
        (VI_SUCCESS, operation, b\<lparr>ms_incoming := []\<rparr>)
      else (VI_SUCCESS, operation, b))"

definition mock_read_stb :: "mock_session \<Rightarrow> op \<Rightarrow> bool \<Rightarrow> vi_status \<times> u16 option \<times> op \<times> mock_session" where
  "mock_read_stb b operation has_output =
     (if \<not> has_output then (VI_ERROR_INV_PARAMETER, None, operation, b)
      else (VI_SUCCESS, Some 0, operation, b))"

definition mock_assert_trigger :: "mock_session \<Rightarrow> op \<Rightarrow> u16 \<Rightarrow> vi_status \<times> op \<times> mock_session" where
  "mock_assert_trigger b operation protocol =
     (if protocol = VI_TRIG_PROT_DEFAULT then VI_SUCCESS else VI_ERROR_INV_PROT, operation, b)"

text \<open>\<open>notify_cancel\<close> only notifies the condition variable.\<close>

definition mock_backend :: "mock_event list \<Rightarrow> vi_status option \<Rightarrow> mock_session backend_ops" where
  "mock_backend evs race =
     \<lparr>be_read = mock_read evs race, be_write = (\<lambda>b x bs wo. Some (mock_write b x bs wo)),
      be_clear = (\<lambda>b x. Some (mock_clear b x)), be_flush = mock_flush,
      be_read_stb = (\<lambda>b x out. Some (mock_read_stb b x out)),
      be_assert_trigger = (\<lambda>b x pr. Some (mock_assert_trigger b x pr)),
      be_usb_control = default_usb_control, be_lock = default_lock, be_unlock = default_unlock,
      be_set_attribute = default_set_attribute, be_get_attribute = default_get_attribute,
      be_close = (\<lambda>b. b), be_notify_cancel = (\<lambda>b. b)\<rparr>"

section \<open>What sessions rely on\<close>

text \<open>An operation after a call of the backend: once completed it stays so with the same result, its
  deadline does not change.\<close>

definition op_advances :: "op \<Rightarrow> op \<Rightarrow> bool" where
  "op_advances before after \<longleftrightarrow>
     (op_completed before \<longrightarrow> op_result after = op_result before) \<and> op_deadline after = op_deadline before"

lemma op_advances_refl [simp]: "op_advances x x"
  by (simp add: op_advances_def)

lemma op_advances_trans: "op_advances x y \<Longrightarrow> op_advances y z \<Longrightarrow> op_advances x z"
  by (auto simp: op_advances_def op_completed_def)

lemma op_advances_try_complete [simp]: "op_advances x (snd (try_complete st x))"
  by (simp add: op_advances_def operation_defs)

text \<open>The contract of a backend: every call advances its operation, a read stores at most \<open>count\<close>
  bytes and reports as many as it stored, and a read of a completed operation stores nothing.\<close>

locale backend =
  fixes be :: "'b backend_ops"
  assumes read_advances: "be_read be b x n ro = Some (st, data, k, y, b') \<Longrightarrow> op_advances x y"
    and read_count: "be_read be b x n ro = Some (st, data, k, y, b') \<Longrightarrow>
           length data \<le> unat n \<and> unat k = length data"
    and read_completed: "be_read be b x n ro = Some (st, data, k, y, b') \<Longrightarrow> op_completed x \<Longrightarrow> data = []"
    and write_advances: "be_write be b x bs wo = Some (st, k, y, b') \<Longrightarrow> op_advances x y"
    and lock_advances: "be_lock be b x ty key = Some (st, y, b') \<Longrightarrow> op_advances x y"
    and unlock_advances: "be_unlock be b x = Some (st, y, b') \<Longrightarrow> op_advances x y"
    and clear_advances: "be_clear be b x = Some (st, y, b') \<Longrightarrow> op_advances x y"
    and flush_advances: "be_flush be b x m = (st, y, b') \<Longrightarrow> op_advances x y"
    and read_stb_advances: "be_read_stb be b x out = Some (st, v, y, b') \<Longrightarrow> op_advances x y"
    and assert_trigger_advances: "be_assert_trigger be b x pr = Some (st, y, b') \<Longrightarrow> op_advances x y"
    and usb_control_advances: "be_usb_control be b x rt rq val i bs = (st, ds, k, y, b') \<Longrightarrow> op_advances x y"

lemma mock_wait_advances: "mock_wait evs x inc = (r, y, inc') \<Longrightarrow> op_advances x y"
proof (induction evs x inc rule: mock_wait.induct)
  case (3 st evs x inc)
  then have "op_advances (snd (try_complete st x)) y" by simp
  with op_advances_try_complete show ?case by (rule op_advances_trans)
qed (auto split: if_splits)

lemma mock_wait_written:
  "mock_wait evs x inc = (r, y, inc') \<Longrightarrow>
   \<exists>k. inc' = inc @ concat (take k [bs. Mock_written bs \<leftarrow> evs])"
proof (induction evs x inc rule: mock_wait.induct)
  case (2 bs evs x inc)
  show ?case
  proof (cases "mock_ready x (inc @ bs)")
    case True
    with 2(2) show ?thesis by (intro exI [of _ 1]) auto
  next
    case False
    with 2 obtain k where "inc' = (inc @ bs) @ concat (take k [bs. Mock_written bs \<leftarrow> evs])" by auto
    then show ?thesis by (intro exI [of _ "Suc k"]) simp
  qed
qed (auto split: if_splits intro: exI [of _ 0])

lemma read_amount_bounds:
  "read_amount ro limit inc = (n, f) \<Longrightarrow> n \<le> limit \<and> n \<le> length inc"
  using length_takeWhile_le [of "\<lambda>b. b \<noteq> ro_termchar ro" "take (min limit (length inc)) inc"]
  by (auto simp: read_amount_def Let_def split: if_splits)

text \<open>What a read that returns did: it took nothing, or the amount it reports from the front.\<close>

lemma mock_claim_cases:
  assumes "mock_claim race b x n ro = (st, data, k, y, b')"
  shows "op_advances x y" and "op_completed y \<and> st = op_result y"
    and "data = [] \<and> k = 0 \<and> b' = b \<or>
         \<not> op_completed x \<and> data @ ms_incoming b' = ms_incoming b \<and>
         length data = fst (read_amount ro (unat n) (ms_incoming b)) \<and> k = of_nat (length data) \<and>
         st = (if snd (read_amount ro (unat n) (ms_incoming b)) then VI_SUCCESS_TERM_CHAR
               else if length data = unat n then VI_SUCCESS_MAX_CNT else VI_SUCCESS)"
proof -
  obtain am f where am: "read_amount ro (unat n) (ms_incoming b) = (am, f)"
    by (cases "read_amount ro (unat n) (ms_incoming b)")
  define status where "status = (if f then VI_SUCCESS_TERM_CHAR else if am = unat n then VI_SUCCESS_MAX_CNT else VI_SUCCESS)"
  define x3 where "x3 = (case race of None \<Rightarrow> x | Some st \<Rightarrow> snd (try_complete st x))"
  have a3: "op_advances x x3" by (auto simp: x3_def split: option.splits)
  have le: "am \<le> length (ms_incoming b)" using read_amount_bounds [OF am] by auto
  have pend: "status \<noteq> kPending" by (simp add: status_def)
  have c: "mock_claim race b x n ro = (if op_completed x then (op_result x, [], 0, x, b)
      else if op_completed x3 then (op_result x3, [], 0, x3, b)
      else (status, take am (ms_incoming b), of_nat am, x3\<lparr>op_result := status\<rparr>, b\<lparr>ms_incoming := drop am (ms_incoming b)\<rparr>))"
    by (simp add: mock_claim_def am status_def [symmetric] x3_def [symmetric] Let_def try_complete_def op_completed_def)
  show "op_advances x y" using assms a3 by (auto simp: c op_advances_def op_completed_def split: if_splits)
  show "op_completed y \<and> st = op_result y" using assms pend by (auto simp: c op_completed_def split: if_splits)
  show "data = [] \<and> k = 0 \<and> b' = b \<or>
         \<not> op_completed x \<and> data @ ms_incoming b' = ms_incoming b \<and>
         length data = fst (read_amount ro (unat n) (ms_incoming b)) \<and> k = of_nat (length data) \<and>
         st = (if snd (read_amount ro (unat n) (ms_incoming b)) then VI_SUCCESS_TERM_CHAR
               else if length data = unat n then VI_SUCCESS_MAX_CNT else VI_SUCCESS)"
    using assms le unfolding c am fst_conv snd_conv
    by (simp split: if_splits) (auto simp: status_def)
qed

lemma mock_read_claim:
  assumes "mock_read evs race b x n ro = Some r"
  obtains inc x1 where "op_advances x x1" and "r = mock_claim race (b\<lparr>ms_incoming := inc\<rparr>) x1 n ro"
    and "\<exists>j. inc = ms_incoming b @ concat (take j [bs. Mock_written bs \<leftarrow> evs])"
    and "mock_ready x (ms_incoming b) \<Longrightarrow> inc = ms_incoming b \<and> x1 = x"
proof -
  obtain w x0 inc where w: "(if mock_ready x (ms_incoming b) then (Ready, x, ms_incoming b)
      else mock_wait evs x (ms_incoming b)) = (w, x0, inc)" by (metis prod_cases3)
  have a0: "op_advances x x0" using w mock_wait_advances by (auto split: if_splits)
  have inc: "\<exists>j. inc = ms_incoming b @ concat (take j [bs. Mock_written bs \<leftarrow> evs])"
    using w mock_wait_written [of evs x "ms_incoming b"] by (auto split: if_splits intro: exI [of _ 0])
  define x1 where "x1 = (if w = Timed_out then snd (try_complete VI_ERROR_TMO x0) else x0)"
  have "op_advances x x1" unfolding x1_def using a0 op_advances_trans op_advances_try_complete by auto
  moreover have "mock_ready x (ms_incoming b) \<Longrightarrow> inc = ms_incoming b \<and> x1 = x" using w by (auto simp: x1_def)
  moreover have "r = mock_claim race (b\<lparr>ms_incoming := inc\<rparr>) x1 n ro"
    using assms unfolding mock_read_def w Let_def by (auto simp: x1_def split: wait_result.splits)
  ultimately show thesis using that inc by blast
qed

interpretation mock: backend "mock_backend evs race"
proof
  fix b b' :: mock_session and x y :: op and n k ro st data
  assume "be_read (mock_backend evs race) b x n ro = Some (st, data, k, y, b')"
  then have r: "mock_read evs race b x n ro = Some (st, data, k, y, b')" by (simp add: mock_backend_def)
  then obtain inc x1 where x1: "op_advances x x1" and c: "mock_claim race (b\<lparr>ms_incoming := inc\<rparr>) x1 n ro = (st, data, k, y, b')"
    and rdy: "mock_ready x (ms_incoming b) \<Longrightarrow> x1 = x"
    by (rule mock_read_claim) auto
  show "op_advances x y" using x1 mock_claim_cases(1) [OF c] by (rule op_advances_trans)
  have "fst (read_amount ro (unat n) inc) \<le> unat n" using read_amount_bounds by (metis prod.collapse)
  moreover have "m \<le> unat n \<Longrightarrow> unat (of_nat m :: u32) = m" for m
    using unsigned_less [of n, where ?'a = nat] by (simp add: unat_of_nat take_bit_eq_mod)
  ultimately show "length data \<le> unat n \<and> unat k = length data"
    using mock_claim_cases(3) [OF c] by auto
  assume "op_completed x"
  then show "data = []" using mock_claim_cases(3) [OF c] rdy by (auto simp: mock_ready_def)
qed (auto simp: mock_backend_def mock_write_def default_lock_def default_unlock_def default_usb_control_def
      mock_clear_def mock_flush_def mock_read_stb_def mock_assert_trigger_def Let_def try_complete_result
      op_advances_def operation_defs split: if_splits prod.splits)

lemma read_amount_termchar:
  assumes "read_amount ro limit inc = (m, True)"
  shows "m \<noteq> 0 \<and> ro_termchar_enabled ro \<and> last (take m inc) = ro_termchar ro \<and>
         ro_termchar ro \<notin> set (butlast (take m inc))"
proof -
  let ?P = "\<lambda>b. b \<noteq> ro_termchar ro"
  define xs where "xs = take (min limit (length inc)) inc"
  have m: "m = length (takeWhile ?P xs) + 1" "length (takeWhile ?P xs) < length xs" "ro_termchar_enabled ro"
    using assms by (auto simp: read_amount_def Let_def xs_def split: if_splits)
  have x: "xs ! length (takeWhile ?P xs) = ro_termchar ro" using nth_length_takeWhile [OF m(2)] by simp
  have "take m inc = take m xs" using m by (simp add: xs_def)
  also have "\<dots> = takeWhile ?P xs @ [ro_termchar ro]"
    using take_Suc_conv_app_nth [OF m(2)] x by (simp add: m(1) flip: takeWhile_eq_take)
  finally show ?thesis using m(1,3) by (auto dest: set_takeWhileD)
qed

section \<open>Properties\<close>

text \<open>C22. A read from the mock device never loses, repeats or reorders data, however it ends: the bytes it
  delivers followed by the bytes still queued are the bytes queued before it plus what other threads wrote
  while it waited. It reports exactly the number of bytes it stored, never more than requested, returns the
  final result of its operation, and a read that ends at the termination character ends at its first occurrence.\<close>

theorem mock_read_conserves_data:
  assumes "mock_read evs race b x n ro = Some (st, data, k, y, b')"
  shows "(\<exists>j. data @ ms_incoming b' = ms_incoming b @ concat (take j [bs. Mock_written bs \<leftarrow> evs])) \<and>
         unat k = length data \<and> length data \<le> unat n \<and> op_completed y \<and> st = op_result y \<and>
         \<not> (data \<noteq> [] \<and> st = VI_SUCCESS_TERM_CHAR \<and>
            \<not> (last data = ro_termchar ro \<and> ro_termchar ro \<notin> set (butlast data)))"
proof -
  obtain inc x1 where c: "mock_claim race (b\<lparr>ms_incoming := inc\<rparr>) x1 n ro = (st, data, k, y, b')"
    and inc: "\<exists>j. inc = ms_incoming b @ concat (take j [bs. Mock_written bs \<leftarrow> evs])"
    using assms by (rule mock_read_claim) auto
  have "be_read (mock_backend evs race) b x n ro = Some (st, data, k, y, b')"
    using assms by (simp add: mock_backend_def)
  note count = mock.read_count [OF this]
  have "ms_incoming (b\<lparr>ms_incoming := inc\<rparr>) = inc" by simp
  note cases = mock_claim_cases(3) [OF c, unfolded this]
  have "data @ ms_incoming b' = inc" using cases by auto
  moreover have "last data = ro_termchar ro \<and> ro_termchar ro \<notin> set (butlast data)"
    if "data \<noteq> []" "st = VI_SUCCESS_TERM_CHAR"
    using cases
  proof (elim disjE conjE)
    assume "data = []"
    with that show ?thesis by simp
  next
    assume d: "data @ ms_incoming b' = inc" "length data = fst (read_amount ro (unat n) inc)"
      and s: "st = (if snd (read_amount ro (unat n) inc) then VI_SUCCESS_TERM_CHAR
               else if length data = unat n then VI_SUCCESS_MAX_CNT else VI_SUCCESS)"
    have "snd (read_amount ro (unat n) inc)"
    proof (rule ccontr)
      assume "\<not> snd (read_amount ro (unat n) inc)"
      with s have "st = VI_SUCCESS_MAX_CNT \<or> st = VI_SUCCESS" by (metis (full_types))
      with that(2) show False by simp
    qed
    then have "read_amount ro (unat n) inc = (length data, True)" using d(2) by (simp add: prod_eq_iff)
    moreover have "take (length data) inc = data" unfolding d(1) [symmetric] by simp
    ultimately show ?thesis using read_amount_termchar [of ro "unat n" inc "length data"] by simp
  qed
  ultimately show ?thesis using inc count mock_claim_cases(2) [OF c] by blast
qed

theorem mock_read_conserves_data_witness:
  "mock_read [Mock_written [65, 10, 66]] None mock_session_new (operation_new 0 2000) 16
     \<lparr>ro_termchar_enabled = True, ro_termchar = 10\<rparr> =
     Some (VI_SUCCESS_TERM_CHAR, [65, 10], 2, (operation_new 0 2000)\<lparr>op_result := VI_SUCCESS_TERM_CHAR\<rparr>,
           \<lparr>ms_incoming = [66]\<rparr>) \<and> length [65, 10 :: byte] \<le> 16"
proof -
  have r: "mock_read [Mock_written [65, 10, 66]] None mock_session_new (operation_new 0 2000) 16
     \<lparr>ro_termchar_enabled = True, ro_termchar = 10\<rparr> =
     Some (VI_SUCCESS_TERM_CHAR, [65, 10], 2, (operation_new 0 2000)\<lparr>op_result := VI_SUCCESS_TERM_CHAR\<rparr>,
           \<lparr>ms_incoming = [66]\<rparr>)"
    by (simp add: mock_read_def mock_claim_def mock_session_new_def operation_new_def mock_ready_def
        read_amount_def operation_defs)
  from mock_read_conserves_data [OF r] r show ?thesis by simp
qed

end
