(* ===== verification/Resource_Manager.thy ===== *)
theory Resource_Manager
  imports Resource_Parser
begin

text \<open>
  The resource manager and the find lists of \<open>src/core/objects.{h,cpp}\<close>: the children of a manager, the
  configured serial paths, service ports, GPIB providers, raw USB configurations and aliases, resolving a
  name, listing the discovered resources, and iterating over the matches of a search. The standard maps
  are partial functions, except where the code iterates over them; an unordered set is a list without
  duplicates. What the platform discovery functions return is an argument of the constructor, and a GPIB
  provider is an identity of type \<open>'p\<close>.
\<close>

section \<open>State\<close>

datatype usb_transfer = Usb_none | Usb_bulk | Usb_interrupt

record usb_raw_configuration =
  urc_alternate_setting :: byte
  urc_read_type :: usb_transfer
  urc_read_endpoint :: byte
  urc_write_type :: usb_transfer
  urc_write_endpoint :: byte

record alias_entry =
  display_name :: string
  ae_resource :: resource_descriptor

record 'p resource_manager =
  rm_children :: "vi_object list"
  serial_paths :: "(u16 \<times> string) list"
  gpib_resources :: "string list"
  gpib_providers :: "u16 \<Rightarrow> 'p option"
  usb_resources :: "string list"
  tcpip_service_ports :: "string \<times> tcpip_protocol \<Rightarrow> u16 option"
  rm_aliases :: "string \<Rightarrow> alias_entry option"
  aliases_by_resource :: "string \<Rightarrow> string option"
  usb_raw_configurations :: "string \<Rightarrow> usb_raw_configuration option"
  rm_closed :: bool

definition resource_manager_new ::
  "(u16 \<times> string) list \<Rightarrow> string list \<Rightarrow> string list \<Rightarrow> 'p resource_manager" where
  "resource_manager_new serial gpib usb =
     \<lparr>rm_children = [], serial_paths = serial, gpib_resources = gpib, gpib_providers = Map.empty,
      usb_resources = usb, tcpip_service_ports = Map.empty, rm_aliases = Map.empty,
      aliases_by_resource = Map.empty, usb_raw_configurations = Map.empty, rm_closed = False\<rparr>"

section \<open>Operations\<close>

definition folded_name :: "string \<Rightarrow> string" where
  "folded_name value = upper_string value"

definition valid_alias :: "string \<Rightarrow> bool" where
  "valid_alias alias =
     (if alias = [] \<or> length alias \<ge> VI_FIND_BUFLEN \<or> parse_resource alias \<noteq> None then False
      else list_all (\<lambda>c. isalnum c \<or> c = CHR ''_'' \<or> c = CHR ''-'' \<or> c = CHR ''.'') alias)"

definition add_child :: "vi_object \<Rightarrow> 'p resource_manager \<Rightarrow> bool \<times> 'p resource_manager" where
  "add_child child m =
     (if rm_closed m then (False, m) else (True, m\<lparr>rm_children := List.insert child (rm_children m)\<rparr>))"

definition remove_child :: "vi_object \<Rightarrow> 'p resource_manager \<Rightarrow> 'p resource_manager" where
  "remove_child child m = m\<lparr>rm_children := remove1 child (rm_children m)\<rparr>"

definition take_children :: "'p resource_manager \<Rightarrow> vi_object list \<times> 'p resource_manager" where
  "take_children m = (rm_children m, m\<lparr>rm_closed := True, rm_children := []\<rparr>)"

definition set_serial_path :: "u16 \<Rightarrow> string \<Rightarrow> 'p resource_manager \<Rightarrow> bool \<times> 'p resource_manager" where
  "set_serial_path number path m =
     (if rm_closed m \<or> path = [] then (False, m)
      else (True, m\<lparr>serial_paths := AList.update number path (serial_paths m)\<rparr>))"

definition serial_path :: "u16 \<Rightarrow> 'p resource_manager \<Rightarrow> string option" where
  "serial_path number m = (if rm_closed m then None else map_of (serial_paths m) number)"

definition set_gpib_provider :: "u16 \<Rightarrow> 'p option \<Rightarrow> 'p resource_manager \<Rightarrow> bool \<times> 'p resource_manager" where
  "set_gpib_provider board provider m =
     (case provider of
        None \<Rightarrow> (False, m)
      | Some p \<Rightarrow>
          if rm_closed m then (False, m)
          else (True, m\<lparr>gpib_providers := (gpib_providers m)(board \<mapsto> p)\<rparr>))"

definition gpib_provider :: "u16 \<Rightarrow> 'p resource_manager \<Rightarrow> 'p option" where
  "gpib_provider board m = (if rm_closed m then None else gpib_providers m board)"

definition set_tcpip_service_port ::
  "string \<Rightarrow> tcpip_protocol \<Rightarrow> u16 \<Rightarrow> 'p resource_manager \<Rightarrow> bool \<times> 'p resource_manager" where
  "set_tcpip_service_port host protocol port m =
     (if rm_closed m \<or> host = [] \<or> port = 0 \<or> protocol = Tcpip_none \<or> protocol = Tcpip_unsupported
      then (False, m)
      else (True, m\<lparr>tcpip_service_ports := (tcpip_service_ports m)((host, protocol) \<mapsto> port)\<rparr>))"

definition tcpip_service_port :: "string \<Rightarrow> tcpip_protocol \<Rightarrow> 'p resource_manager \<Rightarrow> u16 option" where
  "tcpip_service_port host protocol m =
     (if rm_closed m then None else tcpip_service_ports m (host, protocol))"

definition set_resource_alias ::
  "string \<Rightarrow> resource_descriptor \<Rightarrow> 'p resource_manager \<Rightarrow> bool \<times> 'p resource_manager" where
  "set_resource_alias alias resource m =
     (if \<not> valid_alias alias then (False, m)
      else
        let alias_key = folded_name alias; resource_key = folded_name (canonical_name resource) in
        if rm_closed m then (False, m)
        else
          let by_resource1 =
                (case rm_aliases m alias_key of
                   None \<Rightarrow> aliases_by_resource m
                 | Some old \<Rightarrow> (aliases_by_resource m)(folded_name (canonical_name (ae_resource old)) := None));
              aliases1 =
                (case by_resource1 resource_key of
                   None \<Rightarrow> rm_aliases m
                 | Some old \<Rightarrow> (rm_aliases m)(old := None)) in
          (True, m\<lparr>rm_aliases := aliases1(alias_key \<mapsto> \<lparr>display_name = alias, ae_resource = resource\<rparr>),
                   aliases_by_resource := by_resource1(resource_key \<mapsto> alias_key)\<rparr>))"

definition set_usb_raw_configuration ::
  "string \<Rightarrow> usb_raw_configuration \<Rightarrow> 'p resource_manager \<Rightarrow> bool \<times> 'p resource_manager" where
  "set_usb_raw_configuration resource configuration m =
     (if rm_closed m then (False, m)
      else (True, m\<lparr>usb_raw_configurations := (usb_raw_configurations m)(resource \<mapsto> configuration)\<rparr>))"

definition rm_usb_raw_configuration :: "string \<Rightarrow> 'p resource_manager \<Rightarrow> usb_raw_configuration option" where
  "rm_usb_raw_configuration resource m =
     (if rm_closed m then None else usb_raw_configurations m resource)"

text \<open>A resolved resource is its descriptor and its alias, empty if there is none.\<close>

definition resolve_resource :: "string \<Rightarrow> 'p resource_manager \<Rightarrow> (resource_descriptor \<times> string) option" where
  "resolve_resource name m =
     (case parse_resource name of
        Some direct \<Rightarrow>
          if rm_closed m then None
          else
            let alias = (case aliases_by_resource m (folded_name (canonical_name direct)) of
                  None \<Rightarrow> []
                | Some key \<Rightarrow> (case rm_aliases m key of None \<Rightarrow> [] | Some e \<Rightarrow> display_name e)) in
            Some (direct, alias)
      | None \<Rightarrow>
          if rm_closed m then None
          else (case rm_aliases m (folded_name name) of
                  None \<Rightarrow> None
                | Some e \<Rightarrow> Some (ae_resource e, display_name e)))"

definition discoverable_resources :: "'p resource_manager \<Rightarrow> string list" where
  "discoverable_resources m =
     (if rm_closed m then []
      else remdups_adj (sort (map (\<lambda>(number, path). ''ASRL'' @ to_string (unat number) @ ''::INSTR'') (serial_paths m) @
                              gpib_resources m @ usb_resources m)))"

section \<open>Find lists\<close>

record find_list =
  fl_parent :: nat
  fl_parent_handle :: vi_object
  fl_handle :: vi_object
  fl_matches :: "string list"
  fl_index :: nat
  fl_closed :: bool

definition find_list_new :: "nat \<Rightarrow> vi_object \<Rightarrow> string list \<Rightarrow> find_list" where
  "find_list_new parent parent_handle matches =
     \<lparr>fl_parent = parent, fl_parent_handle = parent_handle, fl_handle = VI_NULL, fl_matches = matches,
      fl_index = 1, fl_closed = False\<rparr>"

definition find_list_next :: "find_list \<Rightarrow> string option \<times> find_list" where
  "find_list_next l =
     (if fl_closed l \<or> fl_index l \<ge> length (fl_matches l) then (None, l)
      else (Some (fl_matches l ! fl_index l), l\<lparr>fl_index := fl_index l + 1\<rparr>))"

text \<open>\<open>FindListObject::close\<close> without its call of the parent's \<open>remove_child\<close>.\<close>

definition find_list_close :: "find_list \<Rightarrow> find_list" where
  "find_list_close l = l\<lparr>fl_closed := True, fl_matches := []\<rparr>"

section \<open>Runs of a manager\<close>

datatype 'p rm_op =
    Add_child vi_object
  | Remove_child vi_object
  | Take_children
  | Set_serial_path u16 string
  | Set_gpib_provider u16 "'p option"
  | Set_tcpip_service_port string tcpip_protocol u16
  | Set_resource_alias string resource_descriptor
  | Set_usb_raw_configuration string usb_raw_configuration

fun exec_rm_op :: "'p rm_op \<Rightarrow> 'p resource_manager \<Rightarrow> 'p resource_manager" where
  "exec_rm_op (Add_child c) m = snd (add_child c m)"
| "exec_rm_op (Remove_child c) m = remove_child c m"
| "exec_rm_op Take_children m = snd (take_children m)"
| "exec_rm_op (Set_serial_path n p) m = snd (set_serial_path n p m)"
| "exec_rm_op (Set_gpib_provider b p) m = snd (set_gpib_provider b p m)"
| "exec_rm_op (Set_tcpip_service_port h pr p) m = snd (set_tcpip_service_port h pr p m)"
| "exec_rm_op (Set_resource_alias a r) m = snd (set_resource_alias a r m)"
| "exec_rm_op (Set_usb_raw_configuration r c) m = snd (set_usb_raw_configuration r c m)"

text \<open>The two alias maps are inverse to each other, aliases are valid and stored under their folded
  name, children are distinct, and a closed manager has no children.\<close>

definition rm_inv :: "'p resource_manager \<Rightarrow> bool" where
  "rm_inv m \<longleftrightarrow>
     (\<forall>k r. aliases_by_resource m r = Some k \<longleftrightarrow>
        (\<exists>e. rm_aliases m k = Some e \<and> folded_name (canonical_name (ae_resource e)) = r)) \<and>
     (\<forall>k e. rm_aliases m k = Some e \<longrightarrow> valid_alias (display_name e) \<and> k = folded_name (display_name e)) \<and>
     distinct (rm_children m) \<and> (rm_closed m \<longrightarrow> rm_children m = [])"

lemma rm_inv_new [simp]: "rm_inv (resource_manager_new serial gpib usb)"
  by (simp add: rm_inv_def resource_manager_new_def)

lemma set_resource_alias_inv:
  assumes "rm_inv m"
  shows "rm_inv (snd (set_resource_alias alias resource m))"
proof (cases "valid_alias alias \<and> \<not> rm_closed m")
  case False
  with assms show ?thesis by (auto simp: set_resource_alias_def Let_def)
next
  case True
  define ak where "ak = folded_name alias"
  define rk where "rk = folded_name (canonical_name resource)"
  define name where "name e = folded_name (canonical_name (ae_resource e))" for e :: alias_entry
  define byr where "byr = (case rm_aliases m ak of None \<Rightarrow> aliases_by_resource m
      | Some old \<Rightarrow> (aliases_by_resource m)(name old := None))"
  define als where "als = (case byr rk of None \<Rightarrow> rm_aliases m | Some old \<Rightarrow> (rm_aliases m)(old := None))"
  define entry where "entry = \<lparr>display_name = alias, ae_resource = resource\<rparr>"
  have m': "snd (set_resource_alias alias resource m) =
      m\<lparr>rm_aliases := als(ak \<mapsto> entry), aliases_by_resource := byr(rk \<mapsto> ak)\<rparr>"
    using True by (simp add: set_resource_alias_def Let_def ak_def rk_def byr_def als_def entry_def name_def
        cong: option.case_cong)
  have inverse: "aliases_by_resource m r = Some k \<longleftrightarrow> (\<exists>e. rm_aliases m k = Some e \<and> name e = r)" for k r
    using assms by (simp add: rm_inv_def name_def)
  have byr_iff: "byr r = Some k \<longleftrightarrow> k \<noteq> ak \<and> aliases_by_resource m r = Some k" for r k
  proof (cases "rm_aliases m ak")
    case None
    with inverse [of _ ak] show ?thesis by (auto simp: byr_def)
  next
    case (Some old)
    with inverse [of "name old" ak] have "aliases_by_resource m (name old) = Some ak" by simp
    moreover from Some have "aliases_by_resource m r = Some ak \<longleftrightarrow> r = name old" by (auto simp: inverse)
    ultimately show ?thesis using Some by (auto simp: byr_def)
  qed
  have "name entry = rk" by (simp add: entry_def name_def rk_def)
  have als_iff: "k \<noteq> ak \<Longrightarrow> als k = Some e \<longleftrightarrow> rm_aliases m k = Some e \<and> name e \<noteq> rk" for k e
  proof (cases "byr rk")
    case None
    assume "k \<noteq> ak"
    moreover have "rm_aliases m k = Some e \<Longrightarrow> name e = rk \<Longrightarrow> byr rk = Some k"
      using byr_iff inverse \<open>k \<noteq> ak\<close> by blast
    ultimately show ?thesis using None by (auto simp: als_def)
  next
    case (Some old)
    assume "k \<noteq> ak"
    from Some have "aliases_by_resource m rk = Some old" by (simp add: byr_iff)
    with inverse [of rk k] inverse [of rk old]
    have "rm_aliases m k = Some e \<Longrightarrow> name e = rk \<longleftrightarrow> k = old" by auto
    with \<open>k \<noteq> ak\<close>
    show ?thesis using Some by (auto simp: als_def)
  qed
  have "(byr(rk \<mapsto> ak)) r = Some k \<longleftrightarrow> (\<exists>e. (als(ak \<mapsto> entry)) k = Some e \<and> name e = r)" for k r
    using \<open>name entry = rk\<close> byr_iff als_iff inverse by (cases "k = ak"; cases "r = rk") auto
  moreover have "valid_alias (display_name e) \<and> k = folded_name (display_name e)"
    if "(als(ak \<mapsto> entry)) k = Some e" for k e
    using that True als_iff assms by (cases "k = ak") (auto simp: entry_def ak_def rm_inv_def)
  ultimately show ?thesis using assms True unfolding m' by (simp add: rm_inv_def name_def)
qed

lemma exec_rm_op_inv: "rm_inv m \<Longrightarrow> rm_inv (exec_rm_op c m)"
proof (cases c)
  case (Set_resource_alias a r)
  then show "rm_inv m \<Longrightarrow> ?thesis" by (simp add: set_resource_alias_inv)
qed (auto simp: rm_inv_def add_child_def remove_child_def take_children_def set_serial_path_def set_gpib_provider_def
       set_tcpip_service_port_def set_usb_raw_configuration_def distinct_remove1 split: option.splits)

interpretation rm: invariant_component exec_rm_op rm_inv
  by unfold_locales (rule exec_rm_op_inv)

text \<open>A closed manager is inert: it stays closed, has no children and answers no request.\<close>

definition rm_inert :: "'p resource_manager \<Rightarrow> bool" where
  "rm_inert m \<longleftrightarrow> rm_closed m \<and> rm_children m = []"

lemma exec_rm_op_inert: "rm_inert m \<Longrightarrow> rm_inert (exec_rm_op c m)"
  by (cases c) (auto simp: rm_inert_def add_child_def remove_child_def take_children_def set_serial_path_def
    set_gpib_provider_def set_tcpip_service_port_def set_resource_alias_def set_usb_raw_configuration_def Let_def
    split: option.splits)

lemma inert_refuses:
  assumes "rm_inert m"
  shows "\<not> fst (add_child h m)" "resolve_resource name m = None" "discoverable_resources m = []"
    "serial_path n m = None" "gpib_provider n m = None" "tcpip_service_port host p m = None"
    "rm_usb_raw_configuration r m = None" "\<not> fst (set_resource_alias a d m)"
  using assms by (simp_all add: rm_inert_def add_child_def resolve_resource_def discoverable_resources_def
    serial_path_def gpib_provider_def tcpip_service_port_def rm_usb_raw_configuration_def set_resource_alias_def
    Let_def split: option.splits)

interpretation closed_rm: invariant_component exec_rm_op rm_inert
  by unfold_locales (rule exec_rm_op_inert)

section \<open>Lists of resources and of matches\<close>

lemma sorted_wrt_less_remdups_adj:
  "sorted (xs :: 'a :: linorder list) \<Longrightarrow> sorted_wrt (<) (remdups_adj xs)"
  by (induction xs rule: remdups_adj.induct) (auto simp: order.strict_iff_order)

lemma find_list_iterate:
  "((\<lambda>l. snd (find_list_next l)) ^^ n) (find_list_new parent h matches) =
     (find_list_new parent h matches)\<lparr>fl_index := (if n < length matches then n + 1 else max 1 (length matches))\<rparr>"
proof (induction n)
  case 0
  then show ?case by (cases matches) (auto simp: find_list_new_def)
next
  case (Suc n)
  show ?case
    by (simp add: Suc.IH) (auto simp: find_list_next_def find_list_new_def)
qed

lemma find_list_nth:
  "fst (find_list_next (((\<lambda>l. snd (find_list_next l)) ^^ n) (find_list_new parent h matches))) =
     (if n + 1 < length matches then Some (matches ! (n + 1)) else None)"
  unfolding find_list_iterate by (auto simp: find_list_next_def find_list_new_def)

section \<open>Properties\<close>

text \<open>C23. Aliases stay consistent under every sequence of manager operations: the map from aliases and the map from
  resources are inverse to each other, so that a resource has at most one alias and an alias names
  one resource, whatever was configured, replaced or reassigned before.\<close>

theorem aliases_stay_bijective:
  fixes m :: "'p resource_manager"
  assumes "m = fold exec_rm_op cs (resource_manager_new serial gpib usb)"
  shows "(\<forall>k r. aliases_by_resource m r = Some k \<longleftrightarrow>
           (\<exists>e. rm_aliases m k = Some e \<and> folded_name (canonical_name (ae_resource e)) = r)) \<and>
         (\<forall>k e k' e'. rm_aliases m k = Some e \<and> rm_aliases m k' = Some e' \<and>
            folded_name (canonical_name (ae_resource e)) = folded_name (canonical_name (ae_resource e')) \<longrightarrow> k = k')"
proof -
  have "rm_inv m" unfolding assms by (rule rm.run_inv) simp
  then have i: "\<forall>k r. aliases_by_resource m r = Some k \<longleftrightarrow>
      (\<exists>e. rm_aliases m k = Some e \<and> folded_name (canonical_name (ae_resource e)) = r)"
    by (simp add: rm_inv_def)
  moreover from i have "k = k'" if "rm_aliases m k = Some e" "rm_aliases m k' = Some e'"
    "folded_name (canonical_name (ae_resource e)) = folded_name (canonical_name (ae_resource e'))" for k k' e e'
    using that by (metis option.inject)
  ultimately show ?thesis by blast
qed

theorem aliases_stay_bijective_witness:
  "let m = fold exec_rm_op [Set_resource_alias ''dmm'' (descriptor Asrl_instr 4 1 ''INSTR'' ''ASRL1::INSTR''),
      Set_resource_alias ''psu'' (descriptor Asrl_instr 4 1 ''INSTR'' ''ASRL1::INSTR'')]
      (resource_manager_new [] [] [] :: unit resource_manager) in
   rm_aliases m ''DMM'' = None \<and> aliases_by_resource m ''ASRL1::INSTR'' = Some ''PSU'' \<and>
   rm_aliases m ''PSU'' \<noteq> None"
proof -
  let ?m = "fold exec_rm_op [Set_resource_alias ''dmm'' (descriptor Asrl_instr 4 1 ''INSTR'' ''ASRL1::INSTR''),
      Set_resource_alias ''psu'' (descriptor Asrl_instr 4 1 ''INSTR'' ''ASRL1::INSTR'')]
      (resource_manager_new [] [] [] :: unit resource_manager)"
  have "rm_aliases ?m ''DMM'' = None \<and> aliases_by_resource ?m ''ASRL1::INSTR'' = Some ''PSU''"
    by (simp add: set_resource_alias_def resource_manager_new_def valid_alias_def folded_name_def
        parse_eval isalnum_def isalpha_def isdigit_def)
  with aliases_stay_bijective [OF refl, where serial = "[]" and gpib = "[]" and usb = "[]" and 'p = unit and cs = "[Set_resource_alias ''dmm'' (descriptor Asrl_instr 4 1 ''INSTR'' ''ASRL1::INSTR''),
      Set_resource_alias ''psu'' (descriptor Asrl_instr 4 1 ''INSTR'' ''ASRL1::INSTR'')]"]
  show ?thesis unfolding Let_def by (metis option.distinct(1))
qed

text \<open>After \<open>set_resource_alias\<close> accepts an alias, the alias resolves to the configured resource, and
  every name of that resource (parsed to the same canonical name up to case) resolves to itself with the new alias,
  whatever either was bound to before.\<close>

theorem alias_resolves_to_its_resource:
  assumes "set_resource_alias alias resource m = (True, m')"
  shows "resolve_resource alias m' = Some (resource, alias) \<and>
         (\<forall>name direct. parse_resource name = Some direct \<and>
            folded_name (canonical_name direct) = folded_name (canonical_name resource) \<longrightarrow>
            resolve_resource name m' = Some (direct, alias))"
proof -
  from assms have "valid_alias alias" and "\<not> rm_closed m'"
    and keys: "aliases_by_resource m' (folded_name (canonical_name resource)) = Some (folded_name alias)"
      "rm_aliases m' (folded_name alias) = Some \<lparr>display_name = alias, ae_resource = resource\<rparr>"
    by (auto simp: set_resource_alias_def Let_def split: if_splits)
  from \<open>valid_alias alias\<close> have "parse_resource alias = None"
    by (auto simp: valid_alias_def split: if_splits)
  with keys \<open>\<not> rm_closed m'\<close> show ?thesis by (auto simp: resolve_resource_def)
qed

theorem alias_resolves_to_its_resource_witness:
  "resolve_resource ''dmm'' (snd (set_resource_alias ''dmm'' (descriptor Asrl_instr 4 1 ''INSTR'' ''ASRL1::INSTR'')
      (resource_manager_new [] [] [] :: unit resource_manager))) =
     Some (descriptor Asrl_instr 4 1 ''INSTR'' ''ASRL1::INSTR'', ''dmm'')"
proof -
  let ?m = "set_resource_alias ''dmm'' (descriptor Asrl_instr 4 1 ''INSTR'' ''ASRL1::INSTR'')
      (resource_manager_new [] [] [] :: unit resource_manager)"
  have "fst ?m"
    by (simp add: set_resource_alias_def resource_manager_new_def valid_alias_def Let_def
        parse_eval isalnum_def isalpha_def isdigit_def)
  then have "?m = (True, snd ?m)" by (cases ?m) simp
  from alias_resolves_to_its_resource [OF this] show ?thesis by simp
qed

text \<open>The resources an open manager offers to a search are its serial ports, its GPIB and its USB
  resources, each named once and in increasing order; a closed manager offers none.\<close>

theorem discoverable_resources_sorted_once:
  "sorted_wrt (<) (discoverable_resources m) \<and>
   set (discoverable_resources m) =
     (if rm_closed m then {}
      else (\<lambda>(number, _). ''ASRL'' @ to_string (unat number) @ ''::INSTR'') ` set (serial_paths m) \<union>
           set (gpib_resources m) \<union> set (usb_resources m))"
  by (auto simp: discoverable_resources_def intro!: sorted_wrt_less_remdups_adj)

text \<open>A find list yields the matches after the first, which \<open>viFindRsrc\<close> itself returned, once each and in order, and
  then reports that it is exhausted.\<close>

theorem find_list_yields_each_match_once:
  assumes "matches \<noteq> []"
  shows "map (\<lambda>n. fst (find_list_next (((\<lambda>l. snd (find_list_next l)) ^^ n) (find_list_new parent h matches))))
           [0..<length matches] = map Some (tl matches) @ [None]"
proof (rule nth_equalityI)
  show "length (map (\<lambda>n. fst (find_list_next (((\<lambda>l. snd (find_list_next l)) ^^ n) (find_list_new parent h matches))))
      [0..<length matches]) = length (map Some (tl matches) @ [None])"
    using assms by simp
qed (use assms in \<open>auto simp: find_list_nth nth_append nth_tl\<close>)

theorem find_list_yields_each_match_once_witness:
  "map (\<lambda>n. fst (find_list_next (((\<lambda>l. snd (find_list_next l)) ^^ n) (find_list_new 0 1 [''A'', ''B'', ''C'']))))
     [0..<length [''A'', ''B'', ''C'']] = [Some ''B'', Some ''C'', None]"
  using find_list_yields_each_match_once [of "[''A'', ''B'', ''C'']" 0 1]
  by (simp only: list.sel list.map append.simps list.distinct not_False_eq_True True_implies_equals)

end
