(* ===== verification/Session.thy ===== *)
theory Session
  imports Backend Resource_Manager
begin

text \<open>
  Session objects (\<open>SessionObject\<close> of \<open>src/core/objects.{h,cpp}\<close>) over any backend. A method is a function of the
  backend's operations, the current time, the lock manager and the session; what other threads do while the
  method blocks is an argument. \<open>None\<close> is a call that has not returned. The table of active operations is an
  association list from operation numbers; an operation that a method holds is the one it got from
  \<open>begin_operation\<close>, and the completions by other threads while the backend runs are part of what the backend
  returns. Cancellation handlers belong to the backends, so the completion of an operation is all a session sees of them.
\<close>

section \<open>State\<close>

record 'b session =
  se_parent :: nat
  se_parent_handle :: vi_object
  se_handle :: vi_object
  se_descriptor :: resource_descriptor
  se_backend :: 'b
  se_timeout :: u32
  se_termchar_enabled :: u16
  se_termchar :: byte
  se_send_end_enabled :: u16
  se_user_data :: u64
  se_read_buffer_size :: u32
  se_write_buffer_size :: u32
  se_operations :: "(u64 \<times> op) list"
  se_next_operation_id :: u64
  se_closed :: bool

definition session_new :: "nat \<Rightarrow> vi_object \<Rightarrow> resource_descriptor \<Rightarrow> 'b \<Rightarrow> 'b session" where
  "session_new parent parent_handle resource device =
     \<lparr>se_parent = parent, se_parent_handle = parent_handle, se_handle = VI_NULL, se_descriptor = resource,
      se_backend = device, se_timeout = 2000, se_termchar_enabled = VI_FALSE, se_termchar = 10,
      se_send_end_enabled = VI_TRUE, se_user_data = 0, se_read_buffer_size = 4096, se_write_buffer_size = 4096,
      se_operations = [], se_next_operation_id = 1, se_closed = False\<rparr>"

definition copy_string :: "string \<Rightarrow> string" where
  "copy_string value = take (VI_FIND_BUFLEN - 1) value"

abbreviation se_resource :: "'b session \<Rightarrow> string" where
  "se_resource s \<equiv> canonical_name (se_descriptor s)"

section \<open>Operations in progress\<close>

text \<open>\<open>emplace\<close> leaves the table alone when the number is taken; then the operation is not tracked.\<close>

definition begin_operation :: "nat \<Rightarrow> u32 \<Rightarrow> 'b session \<Rightarrow> u64 option \<times> op \<times> 'b session" where
  "begin_operation now timeout s =
     (let operation = operation_new now timeout in
      if se_closed s then (None, snd (snd (request_cancel operation)), s)
      else
        let nr = se_next_operation_id s; s1 = s\<lparr>se_next_operation_id := nr + 1\<rparr> in
        if map_of (se_operations s) nr \<noteq> None then (None, operation, s1)
        else (Some nr, operation, s1\<lparr>se_operations := (nr, operation) # se_operations s\<rparr>))"

definition active_operation_count :: "'b session \<Rightarrow> nat" where
  "active_operation_count s = length (se_operations s)"

definition finish_operation :: "u64 option \<Rightarrow> 'b session \<Rightarrow> 'b session" where
  "finish_operation tracked s =
     (case tracked of None \<Rightarrow> s | Some nr \<Rightarrow> s\<lparr>se_operations := AList.delete nr (se_operations s)\<rparr>)"

definition cancel_all :: "(u64 \<times> op) list \<Rightarrow> (u64 \<times> op) list" where
  "cancel_all ops = map (\<lambda>(nr, operation). (nr, snd (snd (request_cancel operation)))) ops"

definition cancel_operations :: "'b backend_ops \<Rightarrow> 'b session \<Rightarrow> vi_status \<times> 'b session" where
  "cancel_operations be s =
     (VI_SUCCESS, s\<lparr>se_operations := cancel_all (se_operations s),
                    se_backend := be_notify_cancel be (se_backend s)\<rparr>)"

definition session_can_access :: "lock_manager \<Rightarrow> 'b session \<Rightarrow> bool" where
  "session_can_access lm s = lock_can_access (se_handle s) (se_resource s) lm"

section \<open>Input and output\<close>

text \<open>Results: the status, what was stored through the output pointers (\<open>None\<close> if nothing), the session.\<close>

definition session_read ::
  "'b backend_ops \<Rightarrow> nat \<Rightarrow> lock_manager \<Rightarrow> u32 \<Rightarrow> 'b session \<Rightarrow> (vi_status \<times> byte list \<times> u32 option \<times> 'b session) option" where
  "session_read be now lm count s =
     (if \<not> session_can_access lm s then Some (VI_ERROR_RSRC_LOCKED, [], None, s)
      else
        let (tracked, x, s1) = begin_operation now (se_timeout s) s in
        if op_completed x then Some (op_result x, [], Some 0, finish_operation tracked s1)
        else
          let options = \<lparr>ro_termchar_enabled = (se_termchar_enabled s1 = VI_TRUE), ro_termchar = se_termchar s1\<rparr> in
          case be_read be (se_backend s1) x count options of
            None \<Rightarrow> None
          | Some (status, data, return_count, y, b) \<Rightarrow>
              Some (fst (finish_with status y), data, Some return_count,
                    finish_operation tracked (s1\<lparr>se_backend := b\<rparr>)))"

definition session_write ::
  "'b backend_ops \<Rightarrow> nat \<Rightarrow> lock_manager \<Rightarrow> byte list \<Rightarrow> 'b session \<Rightarrow> (vi_status \<times> u32 option \<times> 'b session) option" where
  "session_write be now lm data s =
     (if \<not> session_can_access lm s then Some (VI_ERROR_RSRC_LOCKED, None, s)
      else
        let (tracked, x, s1) = begin_operation now (se_timeout s) s in
        if op_completed x then Some (op_result x, Some 0, finish_operation tracked s1)
        else
          case be_write be (se_backend s1) x data (se_send_end_enabled s1 = VI_TRUE) of
            None \<Rightarrow> None
          | Some (status, return_count, y, b) \<Rightarrow>
              Some (fst (finish_with status y), Some return_count, finish_operation tracked (s1\<lparr>se_backend := b\<rparr>)))"

definition session_clear ::
  "'b backend_ops \<Rightarrow> nat \<Rightarrow> lock_manager \<Rightarrow> 'b session \<Rightarrow> (vi_status \<times> 'b session) option" where
  "session_clear be now lm s =
     (if \<not> session_can_access lm s then Some (VI_ERROR_RSRC_LOCKED, s)
      else
        let (tracked, x, s1) = begin_operation now (se_timeout s) s in
        case be_clear be (se_backend s1) x of
          None \<Rightarrow> None
        | Some (status, y, b) \<Rightarrow>
            Some (fst (finish_with status y), finish_operation tracked (s1\<lparr>se_backend := b\<rparr>)))"

definition session_flush ::
  "'b backend_ops \<Rightarrow> nat \<Rightarrow> lock_manager \<Rightarrow> u16 \<Rightarrow> 'b session \<Rightarrow> vi_status \<times> 'b session" where
  "session_flush be now lm flags s =
     (if \<not> session_can_access lm s then (VI_ERROR_RSRC_LOCKED, s)
      else
        let (tracked, x, s1) = begin_operation now (se_timeout s) s;
            (status, y, b) = be_flush be (se_backend s1) x flags in
        (fst (finish_with status y), finish_operation tracked (s1\<lparr>se_backend := b\<rparr>)))"

definition session_read_stb ::
  "'b backend_ops \<Rightarrow> nat \<Rightarrow> lock_manager \<Rightarrow> bool \<Rightarrow> 'b session \<Rightarrow> (vi_status \<times> u16 option \<times> 'b session) option" where
  "session_read_stb be now lm has_output s =
     (if \<not> session_can_access lm s then Some (VI_ERROR_RSRC_LOCKED, None, s)
      else
        let (tracked, x, s1) = begin_operation now (se_timeout s) s in
        case be_read_stb be (se_backend s1) x has_output of
          None \<Rightarrow> None
        | Some (result, status, y, b) \<Rightarrow>
            Some (fst (finish_with result y), status, finish_operation tracked (s1\<lparr>se_backend := b\<rparr>)))"

definition session_assert_trigger ::
  "'b backend_ops \<Rightarrow> nat \<Rightarrow> lock_manager \<Rightarrow> u16 \<Rightarrow> 'b session \<Rightarrow> (vi_status \<times> 'b session) option" where
  "session_assert_trigger be now lm protocol s =
     (if \<not> session_can_access lm s then Some (VI_ERROR_RSRC_LOCKED, s)
      else
        let (tracked, x, s1) = begin_operation now (se_timeout s) s in
        case be_assert_trigger be (se_backend s1) x protocol of
          None \<Rightarrow> None
        | Some (status, y, b) \<Rightarrow>
            Some (fst (finish_with status y), finish_operation tracked (s1\<lparr>se_backend := b\<rparr>)))"

definition session_usb_control ::
  "'b backend_ops \<Rightarrow> nat \<Rightarrow> lock_manager \<Rightarrow> byte \<Rightarrow> byte \<Rightarrow> u16 \<Rightarrow> u16 \<Rightarrow> byte list \<Rightarrow> 'b session \<Rightarrow>
   vi_status \<times> byte list \<times> u32 option \<times> 'b session" where
  "session_usb_control be now lm request_type request value index data s =
     (if \<not> session_can_access lm s then (VI_ERROR_RSRC_LOCKED, data, None, s)
      else
        let (tracked, x, s1) = begin_operation now (se_timeout s) s in
        if op_completed x then (op_result x, data, Some 0, finish_operation tracked s1)
        else
          let (status, data', return_count, y, b) =
                be_usb_control be (se_backend s1) x request_type request value index data in
          (fst (finish_with status y), data', Some return_count, finish_operation tracked (s1\<lparr>se_backend := b\<rparr>)))"

section \<open>Locks\<close>

definition other_threads :: "lock_op list \<Rightarrow> lock_manager \<Rightarrow> lock_manager" where
  "other_threads cs lm = fold (\<lambda>c m. snd (exec_lock_op c m)) cs lm"

text \<open>\<open>evs\<close> happens while the lock manager waits, \<open>during\<close> while the backend locks the device and \<open>late\<close> between
  the release after a failure of the backend and the completion of the operation.\<close>

text \<open>The part after the lock manager has granted the lock.\<close>

definition session_lock_remote ::
  "'b backend_ops \<Rightarrow> lock_op list \<Rightarrow> lock_op list \<Rightarrow> u32 \<Rightarrow> u32 \<Rightarrow> vi_status \<Rightarrow> string \<Rightarrow> u64 option \<Rightarrow> op \<Rightarrow>
   lock_manager \<Rightarrow> 'b session \<Rightarrow> (vi_status \<times> string \<times> lock_manager \<times> 'b session) option" where
  "session_lock_remote be during late lock_type previous_depth status key tracked x lm s =
     map_option (\<lambda>(remote_status, x1, b).
      let lm1 = other_threads during lm;
          s1 = finish_operation tracked (s\<lparr>se_backend := b\<rparr>);
          (status1, lm2) =
            (if remote_status < VI_SUCCESS
             then (remote_status, other_threads late (snd (snd (lock_release (se_handle s) (se_resource s) lm1))))
             else (status, lm1)) in
      if fst (try_complete status1 x1) then (status1, key, lm2, s1)
      else (op_result x1, key, snd (snd (lock_release (se_handle s) (se_resource s) lm2)), s1))
      (if previous_depth = 0 then be_lock be (se_backend s) x lock_type key else Some (VI_SUCCESS, x, se_backend s))"

definition session_lock ::
  "'b backend_ops \<Rightarrow> nat \<Rightarrow> lock_event list \<Rightarrow> lock_op list \<Rightarrow> lock_op list \<Rightarrow> u32 \<Rightarrow> u32 \<Rightarrow> string option \<Rightarrow> string \<Rightarrow>
   lock_manager \<Rightarrow> 'b session \<Rightarrow> (vi_status \<times> string \<times> lock_manager \<times> 'b session) option" where
  "session_lock be now evs during late lock_type timeout requested_key access_key lm s =
     (let (tracked, x, s1) = begin_operation now timeout s in
      if op_completed x then Some (op_result x, access_key, lm, finish_operation tracked s1)
      else
        let previous_depth = owned_lock_depth (se_handle s1) (se_resource s1) lm in
        case lock_acquire (se_handle s1) (se_resource s1) lock_type timeout requested_key access_key (Some x) evs lm of
          None \<Rightarrow> None
        | Some (status, key, xo, lm1) \<Rightarrow>
            let x1 = the xo in
            if status < VI_SUCCESS then
              Some (op_result (snd (try_complete status x1)), key, lm1, finish_operation tracked s1)
            else session_lock_remote be during late lock_type previous_depth status key tracked x1 lm1 s1)"

definition session_unlock ::
  "'b backend_ops \<Rightarrow> nat \<Rightarrow> lock_op list \<Rightarrow> lock_manager \<Rightarrow> 'b session \<Rightarrow> (vi_status \<times> lock_manager \<times> 'b session) option" where
  "session_unlock be now during lm s =
     (let depth = owned_lock_depth (se_handle s) (se_resource s) lm in
      if depth = 0 then Some (VI_ERROR_SESN_NLOCKED, lm, s)
      else if depth > 1 then
        let (status, _, lm') = lock_release (se_handle s) (se_resource s) lm in Some (status, lm', s)
      else
        let (tracked, x, s1) = begin_operation now (se_timeout s) s in
        map_option (\<lambda>(remote_status, x1, b).
          let lm1 = other_threads during lm; s2 = finish_operation tracked (s1\<lparr>se_backend := b\<rparr>) in
          if \<not> fst (try_complete remote_status x1) then (op_result x1, lm1, s2)
          else if remote_status < VI_SUCCESS then (remote_status, lm1, s2)
          else let (status, _, lm') = lock_release (se_handle s) (se_resource s) lm1 in (status, lm', s2))
          (be_unlock be (se_backend s1) x))"

section \<open>Attributes\<close>

definition session_set_attribute :: "'b backend_ops \<Rightarrow> u32 \<Rightarrow> u64 \<Rightarrow> 'b session \<Rightarrow> vi_status \<times> 'b session" where
  "session_set_attribute be attribute value s =
     (if attribute = VI_ATTR_TMO_VALUE then
        if value > 0xFFFFFFFF then (VI_ERROR_NSUP_ATTR_STATE, s) else (VI_SUCCESS, s\<lparr>se_timeout := ucast value\<rparr>)
      else if attribute = VI_ATTR_TERMCHAR then
        if value > 0xFF then (VI_ERROR_NSUP_ATTR_STATE, s) else (VI_SUCCESS, s\<lparr>se_termchar := ucast value\<rparr>)
      else if attribute = VI_ATTR_TERMCHAR_EN then
        if value \<noteq> ucast VI_FALSE \<and> value \<noteq> ucast VI_TRUE then (VI_ERROR_NSUP_ATTR_STATE, s)
        else (VI_SUCCESS, s\<lparr>se_termchar_enabled := ucast value\<rparr>)
      else if attribute = VI_ATTR_SEND_END_EN then
        if value \<noteq> ucast VI_FALSE \<and> value \<noteq> ucast VI_TRUE then (VI_ERROR_NSUP_ATTR_STATE, s)
        else (VI_SUCCESS, s\<lparr>se_send_end_enabled := ucast value\<rparr>)
      else if attribute = VI_ATTR_USER_DATA then (VI_SUCCESS, s\<lparr>se_user_data := value\<rparr>)
      else if attribute \<in> {VI_ATTR_RSRC_CLASS, VI_ATTR_RSRC_NAME, VI_ATTR_RSRC_IMPL_VERSION, VI_ATTR_RSRC_LOCK_STATE,
          VI_ATTR_RD_BUF_SIZE, VI_ATTR_WR_BUF_SIZE, VI_ATTR_RM_SESSION, VI_ATTR_RSRC_SPEC_VERSION, VI_ATTR_INTF_TYPE,
          VI_ATTR_INTF_NUM} then (VI_ERROR_ATTR_READONLY, s)
      else let (status, b) = be_set_attribute be (se_backend s) attribute value in (status, s\<lparr>se_backend := b\<rparr>))"

definition session_get_attribute ::
  "'b backend_ops \<Rightarrow> lock_manager \<Rightarrow> u32 \<Rightarrow> bool \<Rightarrow> 'b session \<Rightarrow> vi_status \<times> attr_value option" where
  "session_get_attribute be lm attribute has_output s =
     (if \<not> has_output then (VI_ERROR_INV_PARAMETER, None)
      else if attribute = VI_ATTR_RSRC_CLASS then (VI_SUCCESS, Some (Attr_string (copy_string (resource_class (se_descriptor s)))))
      else if attribute = VI_ATTR_RSRC_NAME then (VI_SUCCESS, Some (Attr_string (copy_string (se_resource s))))
      else if attribute = VI_ATTR_RSRC_IMPL_VERSION then (VI_SUCCESS, Some (Attr_u32 0x00000600))
      else if attribute = VI_ATTR_RSRC_LOCK_STATE then
        (VI_SUCCESS, Some (Attr_u32 (owned_lock_type (se_handle s) (se_resource s) lm)))
      else if attribute = VI_ATTR_USER_DATA then (VI_SUCCESS, Some (Attr_u64 (se_user_data s)))
      else if attribute = VI_ATTR_SEND_END_EN then (VI_SUCCESS, Some (Attr_u16 (se_send_end_enabled s)))
      else if attribute = VI_ATTR_TERMCHAR then (VI_SUCCESS, Some (Attr_u8 (se_termchar s)))
      else if attribute = VI_ATTR_TMO_VALUE then (VI_SUCCESS, Some (Attr_u32 (se_timeout s)))
      else if attribute = VI_ATTR_RD_BUF_SIZE then (VI_SUCCESS, Some (Attr_u32 (se_read_buffer_size s)))
      else if attribute = VI_ATTR_WR_BUF_SIZE then (VI_SUCCESS, Some (Attr_u32 (se_write_buffer_size s)))
      else if attribute = VI_ATTR_TERMCHAR_EN then (VI_SUCCESS, Some (Attr_u16 (se_termchar_enabled s)))
      else if attribute = VI_ATTR_RM_SESSION then (VI_SUCCESS, Some (Attr_u32 (se_parent_handle s)))
      else if attribute = VI_ATTR_RSRC_SPEC_VERSION then (VI_SUCCESS, Some (Attr_u32 VI_SPEC_VERSION))
      else if attribute = VI_ATTR_INTF_TYPE then (VI_SUCCESS, Some (Attr_u16 (interface_type (se_descriptor s))))
      else if attribute = VI_ATTR_INTF_NUM then (VI_SUCCESS, Some (Attr_u16 (interface_number (se_descriptor s))))
      else be_get_attribute be (se_backend s) attribute)"

definition session_set_buffer :: "u16 \<Rightarrow> u32 \<Rightarrow> 'b session \<Rightarrow> vi_status \<times> 'b session" where
  "session_set_buffer flags amount s =
     (if amount = 0 then (VI_ERROR_INV_SIZE, s)
      else if flags = 0 \<or> flags AND NOT (VI_READ_BUF OR VI_WRITE_BUF OR VI_IO_IN_BUF OR VI_IO_OUT_BUF) \<noteq> 0
      then (VI_ERROR_INV_MASK, s)
      else
        let s1 = (if flags AND (VI_READ_BUF OR VI_IO_IN_BUF) \<noteq> 0 then s\<lparr>se_read_buffer_size := amount\<rparr> else s);
            s2 = (if flags AND (VI_WRITE_BUF OR VI_IO_OUT_BUF) \<noteq> 0 then s1\<lparr>se_write_buffer_size := amount\<rparr> else s1) in
        (VI_SUCCESS, s2))"

section \<open>Closing\<close>

text \<open>Up to the wait for the operations in progress.\<close>

definition session_close_begin :: "'b backend_ops \<Rightarrow> 'b session \<Rightarrow> 'b session" where
  "session_close_begin be s =
     (let had_operations = se_operations s \<noteq> [];
          s1 = s\<lparr>se_closed := True, se_operations := cancel_all (se_operations s)\<rparr>;
          s2 = (if had_operations then s1\<lparr>se_backend := be_notify_cancel be (se_backend s1)\<rparr> else s1) in
      s2\<lparr>se_backend := be_close be (se_backend s2)\<rparr>)"

text \<open>\<open>finishing\<close> are the operations that other threads finish while \<open>close\<close> waits; without the last call, of the
  parent's \<open>remove_child\<close>, which the owner of the objects makes.\<close>

definition session_close ::
  "'b backend_ops \<Rightarrow> u64 list \<Rightarrow> lock_manager \<Rightarrow> 'b session \<Rightarrow> (lock_manager \<times> 'b session) option" where
  "session_close be finishing lm s =
     (let s1 = fold (\<lambda>nr. finish_operation (Some nr)) finishing (session_close_begin be s) in
      if se_operations s1 \<noteq> [] then None
      else Some (snd (lock_release_all (se_handle s1) (se_resource s1) lm), s1))"

section \<open>Calls and the table of operations\<close>

lemmas session_defs =
  session_read_def session_write_def session_clear_def session_flush_def session_read_stb_def
  session_assert_trigger_def session_usb_control_def

lemma begin_operation_cases:
  assumes "begin_operation now t s = (tr, x, s1)"
  obtains (closed) "se_closed s" "tr = None" "s1 = s" "x = snd (snd (request_cancel (operation_new now t)))"
    | (untracked) "\<not> se_closed s" "tr = None" "s1 = s\<lparr>se_next_operation_id := se_next_operation_id s + 1\<rparr>"
        "x = operation_new now t"
    | (tracked) nr where "\<not> se_closed s" "tr = Some nr" "nr \<notin> fst ` set (se_operations s)" "x = operation_new now t"
        "s1 = s\<lparr>se_next_operation_id := se_next_operation_id s + 1, se_operations := (nr, x) # se_operations s\<rparr>"
  using assms by (auto simp: begin_operation_def Let_def map_of_eq_None_iff split: if_splits)

lemma cancelled_completed [simp]:
  "op_completed (snd (snd (request_cancel (operation_new now t))))"
  "op_result (snd (snd (request_cancel (operation_new now t)))) = VI_ERROR_ABORT"
  by (simp_all add: operation_new_def operation_defs)

lemma begin_completed: "begin_operation now t s = (tr, x, s1) \<Longrightarrow> op_completed x \<longleftrightarrow> se_closed s"
  by (erule begin_operation_cases) auto

lemma begin_backend: "begin_operation now t s = (tr, x, s1) \<Longrightarrow>
   se_backend s1 = se_backend s \<and> se_handle s1 = se_handle s \<and> se_descriptor s1 = se_descriptor s"
  by (erule begin_operation_cases) auto

text \<open>Finishing the operation that was begun restores the table, so a call changes nothing of the session but
  the backend and the operation counter.\<close>

definition same_but_device :: "'b session \<Rightarrow> 'b session \<Rightarrow> bool" where
  "same_but_device s s' \<longleftrightarrow> s' = s\<lparr>se_backend := se_backend s', se_next_operation_id := se_next_operation_id s'\<rparr>"

lemma same_but_device_refl [simp]: "same_but_device s s"
  by (simp add: same_but_device_def)

lemma delete_head: "nr \<notin> fst ` set xs \<Longrightarrow> AList.delete nr ((nr, x) # xs) = xs"
  by (simp add: AList.delete_eq) (force intro: filter_id_conv [THEN iffD2])

lemma finish_begin:
  assumes "begin_operation now t s = (tr, x, s1)"
  shows "same_but_device s (finish_operation tr (s1\<lparr>se_backend := b\<rparr>))"
    and "same_but_device s (finish_operation tr s1)"
  using assms by (auto elim!: begin_operation_cases simp: finish_operation_def same_but_device_def delete_head)

datatype io_call =
    Io_read u32
  | Io_write "byte list"
  | Io_clear
  | Io_flush u16
  | Io_read_stb bool
  | Io_assert_trigger u16
  | Io_usb_control byte byte u16 u16 "byte list"

fun session_io ::
  "'b backend_ops \<Rightarrow> nat \<Rightarrow> lock_manager \<Rightarrow> io_call \<Rightarrow> 'b session \<Rightarrow> (vi_status \<times> 'b session) option" where
  "session_io be now lm (Io_read count) s =
     map_option (\<lambda>(st, _, _, s'). (st, s')) (session_read be now lm count s)"
| "session_io be now lm (Io_write data) s =
     map_option (\<lambda>(st, _, s'). (st, s')) (session_write be now lm data s)"
| "session_io be now lm Io_clear s = session_clear be now lm s"
| "session_io be now lm (Io_flush flags) s = Some (session_flush be now lm flags s)"
| "session_io be now lm (Io_read_stb out) s =
     map_option (\<lambda>(st, _, s'). (st, s')) (session_read_stb be now lm out s)"
| "session_io be now lm (Io_assert_trigger protocol) s = session_assert_trigger be now lm protocol s"
| "session_io be now lm (Io_usb_control rt rq v i data) s =
     (case session_usb_control be now lm rt rq v i data s of (st, _, _, s') \<Rightarrow> Some (st, s'))"

lemma session_io_refused: "\<not> session_can_access lm s \<Longrightarrow> session_io be now lm c s = Some (VI_ERROR_RSRC_LOCKED, s)"
  by (cases c) (simp_all add: session_defs)

lemma session_io_same:
  assumes "session_io be now lm c s = Some (st, s')"
  shows "same_but_device s s'"
proof (cases "session_can_access lm s")
  case True
  obtain tr x s1 where b: "begin_operation now (se_timeout s) s = (tr, x, s1)" by (metis prod_cases3)
  show ?thesis using assms True finish_begin [OF b]
    by (cases c) (auto simp: session_defs b split: if_splits option.splits prod.splits)
next
  case False
  with assms session_io_refused [of lm s be now c] show ?thesis by simp
qed

text \<open>What a backend owes to the session: its calls never undo a completion.\<close>

context backend
begin

lemma aborted_stays:
  assumes "op_advances (snd (snd (request_cancel (operation_new now t)))) y"
  shows "fst (finish_with st y) = VI_ERROR_ABORT"
proof -
  from assms have "op_result y = VI_ERROR_ABORT" by (simp add: op_advances_def)
  moreover from this have "op_completed y" by (simp add: op_completed_def)
  ultimately show ?thesis by (simp add: finish_with_completed)
qed

lemma closed_io:
  assumes "se_closed s" and "session_can_access lm s" and "session_io be now lm c s = Some (st, s')"
  shows "st = VI_ERROR_ABORT"
proof -
  obtain tr x s1 where b: "begin_operation now (se_timeout s) s = (tr, x, s1)" by (metis prod_cases3)
  with assms(1) have x: "x = snd (snd (request_cancel (operation_new now (se_timeout s))))"
    by (auto elim: begin_operation_cases)
  note a = aborted_stays [of now "se_timeout s", folded x]
  have r: "op_completed x" "op_result x = VI_ERROR_ABORT" by (simp_all add: x)
  show ?thesis using assms(2,3) a r
    by (cases c) (auto simp: session_defs b split: if_splits option.splits prod.splits
        dest: clear_advances flush_advances read_stb_advances assert_trigger_advances)
qed

lemma session_read_bounds:
  assumes "session_read be now lm n s = Some (st, data, k, s')"
  shows "length data \<le> unat n \<and> (case k of None \<Rightarrow> data = [] | Some k \<Rightarrow> unat k = length data)"
  using assms read_count
  by (fastforce simp: session_read_def Let_def split: if_splits option.splits prod.splits)

end

section \<open>Locks of a session\<close>

fun lock_op_owner :: "lock_op \<Rightarrow> u32" where
  "lock_op_owner (Grant_op owner r lock_type key) = owner"
| "lock_op_owner (Release_op owner r) = owner"
| "lock_op_owner (Release_all_op owner r) = owner"

text \<open>Events that do not come from the session itself; an operation is only ever completed early with an error.\<close>

fun foreign_event :: "u32 \<Rightarrow> lock_event \<Rightarrow> bool" where
  "foreign_event w (Other_thread c) \<longleftrightarrow> lock_op_owner c \<noteq> w"
| "foreign_event w (Operation_done st) \<longleftrightarrow> st < VI_SUCCESS"
| "foreign_event w Notify \<longleftrightarrow> True"
| "foreign_event w Deadline \<longleftrightarrow> True"

lemma foreign_holder:
  assumes "lock_inv m" and "lock_op_owner c \<noteq> w"
  shows "w \<in> lock_holders (snd (exec_lock_op c m)) r \<longleftrightarrow> w \<in> lock_holders m r"
  using assms
  by (cases c) (auto simp: lock_holders_grant lock_holders_release lock_holders_release_all split: if_splits)

lemma foreign_holders:
  assumes "lock_inv m" and "\<And>c. c \<in> set cs \<Longrightarrow> lock_op_owner c \<noteq> w"
  shows "w \<in> lock_holders (other_threads cs m) r \<longleftrightarrow> w \<in> lock_holders m r"
  using assms unfolding other_threads_def
  by (induction cs arbitrary: m) (simp_all add: foreign_holder exec_lock_op_inv)

lemma other_threads_inv: "lock_inv m \<Longrightarrow> lock_inv (other_threads cs m)"
  unfolding other_threads_def by (rule lock_run.run_inv)

lemma release_not_held: "w \<notin> lock_holders m r \<Longrightarrow> snd (snd (lock_release w r m)) = m"
  by (auto simp: lock_holders_eq state_holders_def lock_release_def Let_def domIff split: option.splits)

lemma holders_locks: "lm_locks m = lm_locks m' \<Longrightarrow> lock_holders m = lock_holders m'"
  by (rule ext) (simp add: lock_holders_eq)

lemma acquire_wait_op:
  "acquire_wait f g evs (Some x) m = (res, y, m') \<Longrightarrow>
   \<exists>x'. y = Some x' \<and> (op_completed x' \<longrightarrow> op_completed x \<and> op_result x' = op_result x \<or> Operation_done (op_result x') \<in> set evs)"
proof (induction f g evs "Some x" m arbitrary: x rule: acquire_wait.induct)
  case (3 f g st evs m)
  then have "acquire_wait f g evs (Some (snd (try_complete st x))) m = (res, y, m')" by simp
  with 3(1) [of "snd (try_complete st x)"] show ?case
    by (auto simp: try_complete_result split: if_splits)
qed (auto split: if_splits prod.splits)

lemma lock_acquire_op:
  assumes "lock_acquire w r ty t key ak (Some x) evs m = Some (st, key', y, m')" and "\<not> op_completed x"
  obtains x' where "y = Some x'" and "op_completed x' \<Longrightarrow> Operation_done (op_result x') \<in> set evs"
    and "op_completed x' \<Longrightarrow> st \<ge> VI_SUCCESS \<Longrightarrow> st = op_result x'"
proof -
  from assms acquire_wait_op [of _ _ evs x m]
  have "\<exists>x'. y = Some x' \<and> (op_completed x' \<longrightarrow> Operation_done (op_result x') \<in> set evs)"
    by (auto simp: lock_acquire_def Let_def split: if_splits prod.splits wait_result.splits)
  then obtain x' where x': "y = Some x'" "op_completed x' \<longrightarrow> Operation_done (op_result x') \<in> set evs" by blast
  moreover from assms(1) have "st = op_result x'" if "op_completed x'" "st \<ge> VI_SUCCESS"
    using that unfolding x'(1)
    by (auto simp: lock_acquire_def operation_done_def Let_def split: if_splits prod.splits wait_result.splits)
  ultimately show ?thesis using that by blast
qed

lemma session_lock_same:
  assumes "session_lock be now evs during late ty t key ak lm s = Some (st, ak', lm', s')"
  shows "same_but_device s s'"
proof -
  obtain tr x s1 where b: "begin_operation now t s = (tr, x, s1)" by (metis prod_cases3)
  show ?thesis using assms finish_begin [OF b]
    by (auto simp: session_lock_def session_lock_remote_def b Let_def split: if_splits option.splits prod.splits)
qed

lemma session_unlock_same:
  assumes "session_unlock be now during lm s = Some (st, lm', s')"
  shows "same_but_device s s'"
proof -
  obtain tr x s1 where b: "begin_operation now (se_timeout s) s = (tr, x, s1)" by (metis prod_cases3)
  show ?thesis using assms finish_begin [OF b]
    by (auto simp: session_unlock_def b Let_def split: if_splits option.splits prod.splits)
qed

text \<open>Whether the backend refused the lock or the operation was completed meanwhile, a lock call that fails gives
  back what it was granted.\<close>

lemma grant_released:
  assumes "lock_inv m" and "lock_type \<in> {VI_EXCLUSIVE_LOCK, VI_SHARED_LOCK}"
    and "can_grant (lock_entry m r) w lock_type key" and "w \<notin> lock_holders m r"
    and "acquire_grant w r lock_type ak m = (st, ak', m1)"
  defines "m2 \<equiv> snd (snd (lock_release w r m1))"
  shows "lm_locks m2 = lm_locks m" and "snd (snd (lock_release w r m2)) = m2"
proof -
  show l: "lm_locks m2 = lm_locks m"
    using release_after_grant [OF assms(1-3), of ak] assms(4,5) by (simp add: m2_def)
  from holders_locks [OF l] assms(4) show "snd (snd (lock_release w r m2)) = m2"
    by (simp add: release_not_held)
qed

lemma lock_remote_restores:
  assumes "lock_inv m" and "ty \<in> {VI_EXCLUSIVE_LOCK, VI_SHARED_LOCK}"
    and "can_grant (lock_entry m (se_resource s)) (se_handle s) ty key"
    and free: "se_handle s \<in> lock_holders m (se_resource s) \<Longrightarrow> d \<noteq> 0"
    and grant: "acquire_grant (se_handle s) (se_resource s) ty ak m = (status, k, m1)" and "\<not> op_completed x"
    and remote: "session_lock_remote be [] [] ty d status k tr x m1 s = Some (st, ak', lm', s')" and "st < VI_SUCCESS"
  shows "lm_locks lm' = lm_locks m"
proof (cases "d = 0")
  case False
  have "0 \<le> status" using acquire_grant_status [of "se_handle s" "se_resource s" ty ak m] by (simp add: grant)
  with False assms(6-8) show ?thesis
    by (simp add: session_lock_remote_def other_threads_def try_complete_result)
next
  case True
  with free have "se_handle s \<notin> lock_holders m (se_resource s)" by auto
  note g = grant_released [OF assms(1-3) this grant]
  have "0 \<le> status" using acquire_grant_status [of "se_handle s" "se_resource s" ty ak m] by (simp add: grant)
  with g remote assms(8) True show ?thesis
    by (auto simp: session_lock_remote_def other_threads_def Let_def split: prod.splits if_splits)
qed

lemma lock_failure_restores:
  assumes inv: "lock_inv lm" and foreign: "list_all (foreign_event (se_handle s)) evs"
    and depth: "se_handle s \<in> lock_holders lm (se_resource s) \<Longrightarrow> owned_lock_depth (se_handle s) (se_resource s) lm \<noteq> 0"
    and lock: "session_lock be now evs [] [] ty t key ak lm s = Some (st, ak', lm', s')" and fails: "st < VI_SUCCESS"
  shows "\<exists>cs. Other_thread ` set cs \<subseteq> set evs \<and> lm_locks lm' = lm_locks (other_threads cs lm)"
proof -
  let ?w = "se_handle s" and ?r = "se_resource s"
  obtain tr x s1 where b: "begin_operation now t s = (tr, x, s1)" by (metis prod_cases3)
  note sel = begin_backend [OF b]
  show ?thesis
  proof (cases "op_completed x")
    case True
    with lock b show ?thesis by (intro exI [of _ "[]"]) (auto simp: session_lock_def other_threads_def)
  next
    case pending: False
    then obtain status k xo m1 where
      acq: "lock_acquire ?w ?r ty t key ak (Some x) evs lm = Some (status, k, xo, m1)"
      using lock b sel by (auto simp: session_lock_def Let_def split: option.splits if_splits)
    obtain x1 where xo: "xo = Some x1"
      and early: "op_completed x1 \<Longrightarrow> Operation_done (op_result x1) \<in> set evs"
        "op_completed x1 \<Longrightarrow> status \<ge> VI_SUCCESS \<Longrightarrow> status = op_result x1"
      using lock_acquire_op [OF acq pending] by blast
    have "op_result x1 < VI_SUCCESS" if "op_completed x1"
      using early(1) [OF that] foreign by (force simp: list_all_iff)
    note early = this early(2)
    have res: "if status < VI_SUCCESS then lm' = m1
        else session_lock_remote be [] [] ty (owned_lock_depth ?w ?r lm) status k tr x1 m1 s1 = Some (st, ak', lm', s')"
      using lock b sel acq xo pending by (auto simp: session_lock_def Let_def split: if_splits)
    from acq show ?thesis
    proof (cases rule: lock_acquire_cases)
      case (unchanged cs)
      with early res xo have "lm' = m1" by (auto simp: operation_done_def split: if_splits)
      with unchanged show ?thesis by (auto simp: other_threads_def)
    next
      case (granted cs m0)
      have m0: "m0 = other_threads cs lm" using granted(2) by (simp add: other_threads_def)
      have "lock_op_owner c \<noteq> ?w" if "c \<in> set cs" for c
        using that granted(1) foreign by (force simp: list_all_iff)
      then have h: "?w \<in> lock_holders m0 ?r \<longleftrightarrow> ?w \<in> lock_holders lm ?r"
        unfolding m0 by (rule foreign_holders [OF inv])
      have "0 \<le> status" using acquire_grant_status [of ?w ?r ty ak m0] by (simp add: granted(5))
      with res have "session_lock_remote be [] [] ty (owned_lock_depth ?w ?r lm) status k tr x1 m1 s1 = Some (st, ak', lm', s')"
        by simp
      from lock_remote_restores [OF _ granted(3) _ _ _ _ this fails, of m0 key ak] granted h depth sel xo
        other_threads_inv [OF inv, of cs] m0
      have "lm_locks lm' = lm_locks m0" by (simp add: operation_done_def)
      with granted(1) m0 show ?thesis by blast
    qed
  qed
qed

section \<open>Interleaved threads of a session\<close>

text \<open>The atomic steps of the threads that use one session, and every operation of any thread on the lock manager.\<close>

inductive session_step :: "'b backend_ops \<Rightarrow> 'b session \<times> lock_manager \<Rightarrow> 'b session \<times> lock_manager \<Rightarrow> bool"
  for be :: "'b backend_ops" where
  begins: "begin_operation now t s = (tr, x, s') \<Longrightarrow> session_step be (s, m) (s', m)"
| completes: "map_of (se_operations s) nr = Some x \<Longrightarrow>
     session_step be (s, m) (s\<lparr>se_operations := AList.update nr (snd (try_complete st x)) (se_operations s)\<rparr>, m)"
| finishes: "session_step be (s, m) (finish_operation tr s, m)"
| device: "session_step be (s, m) (s\<lparr>se_backend := b\<rparr>, m)"
| sets_attribute: "session_step be (s, m) (snd (session_set_attribute be a v s), m)"
| sets_buffer: "session_step be (s, m) (snd (session_set_buffer flags amount s), m)"
| cancels: "session_step be (s, m) (snd (cancel_operations be s), m)"
| locks: "session_step be (s, m) (s, snd (exec_lock_op c m))"
| close_begins: "session_step be (s, m) (session_close_begin be s, m)"

text \<open>The methods of a session are sequences of these steps.\<close>

abbreviation session_steps :: "'b backend_ops \<Rightarrow> 'b session \<times> lock_manager \<Rightarrow> 'b session \<times> lock_manager \<Rightarrow> bool" where
  "session_steps be \<equiv> (session_step be)\<^sup>*\<^sup>*"

lemma lock_steps: "session_steps be (s, m) (s, fold (\<lambda>c m. snd (exec_lock_op c m)) cs m)"
  by (induction cs arbitrary: m) (auto intro: converse_rtranclp_into_rtranclp session_step.locks)

text \<open>The lock manager after some operations of any thread.\<close>

definition locks_later :: "lock_manager \<Rightarrow> lock_manager \<Rightarrow> bool" where
  "locks_later m m' \<longleftrightarrow> (\<exists>cs. m' = other_threads cs m)"

lemma locks_later_refl [simp]: "locks_later m m"
  unfolding locks_later_def by (rule exI [of _ "[]"]) (simp add: other_threads_def)

lemma other_threads_append: "other_threads (cs @ ds) m = other_threads ds (other_threads cs m)"
  by (simp add: other_threads_def)

lemma locks_later_trans: "locks_later m m' \<Longrightarrow> locks_later m' m'' \<Longrightarrow> locks_later m m''"
  unfolding locks_later_def by (metis other_threads_append)

lemma locks_later_other: "locks_later m m' \<Longrightarrow> locks_later m (other_threads cs m')"
  unfolding locks_later_def by (metis other_threads_append)

lemma locks_later_release: "locks_later m m' \<Longrightarrow> locks_later m (snd (snd (lock_release w r m')))"
  using locks_later_other [of m m' "[Release_op w r]"] by (simp add: other_threads_def)

lemma locks_later_steps: "locks_later m m' \<Longrightarrow> session_steps be (s, m) (s, m')"
  by (auto simp: locks_later_def other_threads_def lock_steps)

lemma grant_manager: "snd (snd (acquire_grant w r ty ak m)) = snd (snd (acquire_grant w r ty ak' m))"
  by (simp add: acquire_grant_def Let_def split: prod.split)

lemma acquire_later:
  assumes "lock_acquire w r ty t key ak op evs m = Some (st, ak', op', m')"
  shows "locks_later m m'"
  using assms
proof (cases rule: lock_acquire_cases)
  case (unchanged cs)
  then show ?thesis by (auto simp: locks_later_def other_threads_def)
next
  case (granted cs m1)
  then have "m' = snd (exec_lock_op (Grant_op w r ty key) m1)"
    using grant_manager [of w r ty ak m1 "[]"] by simp
  with granted(2) have "m' = other_threads (cs @ [Grant_op w r ty key]) m" by (simp add: other_threads_def)
  then show ?thesis by (auto simp: locks_later_def)
qed

lemma lock_remote_later:
  assumes "session_lock_remote be during late ty d status k tr x m s = Some (st, ak', m', s')"
  shows "locks_later m m' \<and> (s' = finish_operation tr s \<or> (\<exists>b. s' = finish_operation tr (s\<lparr>se_backend := b\<rparr>)))"
  using assms
  by (auto simp: session_lock_remote_def Let_def split: if_splits prod.splits
      intro!: locks_later_release locks_later_other)

lemma call_steps:
  assumes "begin_operation now t s = (tr, x, s1)"
  shows "session_steps be (s, m) (finish_operation tr s1, m)"
    and "session_steps be (s, m) (finish_operation tr (s1\<lparr>se_backend := b\<rparr>), m)"
proof -
  have s1: "session_step be (s, m) (s1, m)" by (rule session_step.begins [OF assms])
  then have "session_steps be (s, m) (s1\<lparr>se_backend := b\<rparr>, m)"
    by (rule converse_rtranclp_into_rtranclp [OF _ r_into_rtranclp]) (rule session_step.device)
  then show "session_steps be (s, m) (finish_operation tr (s1\<lparr>se_backend := b\<rparr>), m)"
    by (rule rtranclp.rtrancl_into_rtrancl) (rule session_step.finishes)
  from s1 show "session_steps be (s, m) (finish_operation tr s1, m)"
    by (rule converse_rtranclp_into_rtranclp [OF _ r_into_rtranclp]) (rule session_step.finishes)
qed

lemma session_io_is_steps:
  assumes "session_io be now m c s = Some (st, s')"
  shows "session_steps be (s, m) (s', m)"
proof (cases "session_can_access m s")
  case True
  obtain tr x s1 where b: "begin_operation now (se_timeout s) s = (tr, x, s1)" by (metis prod_cases3)
  show ?thesis using assms True call_steps [OF b, where be = be]
    by (cases c) (auto simp: session_defs b split: if_splits option.splits prod.splits)
next
  case False
  with assms session_io_refused [of m s be now c] show ?thesis by simp
qed

lemma session_lock_is_steps:
  assumes "session_lock be now evs during late ty t key ak m s = Some (st, ak', m', s')"
  shows "session_steps be (s, m) (s', m')"
proof -
  obtain tr x s1 where b: "begin_operation now t s = (tr, x, s1)" by (metis prod_cases3)
  note calls = call_steps [OF b, where be = be]
  show ?thesis
  proof (cases "op_completed x")
    case True
    with assms b calls(1) show ?thesis by (auto simp: session_lock_def)
  next
    case False
    obtain status k xo m1 where
      acq: "lock_acquire (se_handle s1) (se_resource s1) ty t key ak (Some x) evs m = Some (status, k, xo, m1)"
      using assms b False by (auto simp: session_lock_def Let_def split: option.splits if_splits)
    have "locks_later m m' \<and> (s' = finish_operation tr s1 \<or> (\<exists>b. s' = finish_operation tr (s1\<lparr>se_backend := b\<rparr>)))"
    proof (cases "status < VI_SUCCESS")
      case True
      with assms b False acq acquire_later [OF acq] show ?thesis by (auto simp: session_lock_def Let_def)
    next
      case nonneg: False
      with assms b False acq
      have "session_lock_remote be during late ty (owned_lock_depth (se_handle s1) (se_resource s1) m) status k tr (the xo)
          m1 s1 = Some (st, ak', m', s')" by (auto simp: session_lock_def Let_def)
      from lock_remote_later [OF this] locks_later_trans [OF acquire_later [OF acq]] show ?thesis by blast
    qed
    then have "session_steps be (s, m) (s, m')" and "session_steps be (s, m') (s', m')"
      using calls by (auto intro: locks_later_steps)
    then show ?thesis by (rule rtranclp_trans)
  qed
qed

lemma session_unlock_is_steps:
  assumes "session_unlock be now during m s = Some (st, m', s')"
  shows "session_steps be (s, m) (s', m')"
proof -
  obtain tr x s1 where b: "begin_operation now (se_timeout s) s = (tr, x, s1)" by (metis prod_cases3)
  note calls = call_steps [OF b, where be = be]
  obtain st1 nt m1 where l1: "lock_release (se_handle s) (se_resource s) m = (st1, nt, m1)" by (metis prod_cases3)
  have r1: "locks_later m m1" using locks_later_release [OF locks_later_refl, of m "se_handle s" "se_resource s"] l1 by simp
  obtain st2 nt2 m2 where l2: "lock_release (se_handle s) (se_resource s) (other_threads during m) = (st2, nt2, m2)"
    by (metis prod_cases3)
  have r2: "locks_later m m2"
    using locks_later_release [OF locks_later_other [OF locks_later_refl], of m "se_handle s" "se_resource s" during] l2 by simp
  have o: "locks_later m (other_threads during m)" by (rule locks_later_other) simp
  have "locks_later m m' \<and> (s' = s \<or> (\<exists>b. s' = finish_operation tr (s1\<lparr>se_backend := b\<rparr>)))"
    using assms b r1 r2 o by (auto simp: session_unlock_def l1 l2 Let_def split: if_splits)
  then have "session_steps be (s, m) (s, m')" and "session_steps be (s, m') (s', m')"
    using calls by (auto intro: locks_later_steps)
  then show ?thesis by (rule rtranclp_trans)
qed

text \<open>A closing session: no new operations, and every remaining one is completed.\<close>

definition draining :: "u64 set \<Rightarrow> 'b session \<times> lock_manager \<Rightarrow> bool" where
  "draining nrs sm \<longleftrightarrow> se_closed (fst sm) \<and> fst ` set (se_operations (fst sm)) \<subseteq> nrs \<and>
     (\<forall>(nr, x) \<in> set (se_operations (fst sm)). op_completed x)"

lemma request_cancel_completed [simp]: "op_completed (snd (snd (request_cancel x)))"
  by (auto simp: operation_defs)

lemma cancel_all_simps [simp]:
  "fst ` set (cancel_all ops) = fst ` set ops"
  "(nr, x) \<in> set (cancel_all ops) \<Longrightarrow> op_completed x"
  "cancel_all ops = [] \<longleftrightarrow> ops = []"
  by (force simp: cancel_all_def)+

lemma close_begin_sel [simp]:
  "se_closed (session_close_begin be s)"
  "se_operations (session_close_begin be s) = cancel_all (se_operations s)"
  "se_handle (session_close_begin be s) = se_handle s"
  "se_descriptor (session_close_begin be s) = se_descriptor s"
  by (simp_all add: session_close_begin_def Let_def)

lemma attribute_sel [simp]:
  "se_closed (snd (session_set_attribute be a v s)) = se_closed s"
  "se_operations (snd (session_set_attribute be a v s)) = se_operations s"
  "se_handle (snd (session_set_attribute be a v s)) = se_handle s"
  "se_descriptor (snd (session_set_attribute be a v s)) = se_descriptor s"
  by (auto simp: session_set_attribute_def Let_def split: prod.splits)

lemma buffer_sel [simp]:
  "se_closed (snd (session_set_buffer flags v s)) = se_closed s"
  "se_operations (snd (session_set_buffer flags v s)) = se_operations s"
  "se_handle (snd (session_set_buffer flags v s)) = se_handle s"
  "se_descriptor (snd (session_set_buffer flags v s)) = se_descriptor s"
  by (auto simp: session_set_buffer_def Let_def)

lemma draining_step: "session_step be sm sm' \<Longrightarrow> draining nrs sm \<Longrightarrow> draining nrs sm'"
proof (induction rule: session_step.induct)
  case (begins now t s tr x s' m)
  then show ?case by (auto elim!: begin_operation_cases simp: draining_def)
next
  case (completes s nr x m st)
  then have "op_completed x" and "nr \<in> fst ` set (se_operations s)"
    by (force simp: draining_def dest: map_of_SomeD)+
  then have "snd (try_complete st x) = x" by (simp add: try_complete_result)
  with completes show ?case by (simp add: update_id)
next
  case (finishes s m tr)
  then show ?case by (auto simp: draining_def finish_operation_def AList.delete_eq split: option.splits)
next
  case (cancels s m)
  then show ?case by (auto simp: draining_def cancel_operations_def)
next
  case (close_begins s m)
  then show ?case by (auto simp: draining_def)
qed (auto simp: draining_def)

interpretation drain: transition_invariant "session_step be" "draining nrs" for be nrs
  by unfold_locales (rule draining_step)

section \<open>Calls on a closed session\<close>

text \<open>The calls the API makes on a session object, and what other sessions do to the lock manager meanwhile.
  A call that does not return changes nothing the locks depend on.\<close>

datatype session_call =
    Call_io io_call
  | Call_lock u32 u32 "string option" string "lock_event list" "lock_op list" "lock_op list"
  | Call_unlock "lock_op list"
  | Call_set_attribute u32 u64
  | Call_set_buffer u16 u32
  | Call_terminate
  | Call_close "u64 list"
  | Other_session lock_op

fun run_session_call :: "'b backend_ops \<Rightarrow> nat \<times> session_call \<Rightarrow> 'b session \<times> lock_manager \<Rightarrow> 'b session \<times> lock_manager" where
  "run_session_call be (now, Call_io c) (s, m) =
     (case session_io be now m c s of None \<Rightarrow> (s, m) | Some (_, s') \<Rightarrow> (s', m))"
| "run_session_call be (now, Call_lock ty t key ak evs during late) (s, m) =
     (case session_lock be now evs during late ty t key ak m s of None \<Rightarrow> (s, m) | Some (_, _, m', s') \<Rightarrow> (s', m'))"
| "run_session_call be (now, Call_unlock during) (s, m) =
     (case session_unlock be now during m s of None \<Rightarrow> (s, m) | Some (_, m', s') \<Rightarrow> (s', m'))"
| "run_session_call be (now, Call_set_attribute a v) (s, m) = (snd (session_set_attribute be a v s), m)"
| "run_session_call be (now, Call_set_buffer flags n) (s, m) = (snd (session_set_buffer flags n s), m)"
| "run_session_call be (now, Call_terminate) (s, m) = (snd (cancel_operations be s), m)"
| "run_session_call be (now, Call_close fin) (s, m) =
     (case session_close be fin m s of None \<Rightarrow> (s, m) | Some (m', s') \<Rightarrow> (s', m'))"
| "run_session_call be (now, Other_session c) (s, m) = (s, snd (exec_lock_op c m))"

definition retired :: "u32 \<Rightarrow> string \<Rightarrow> 'b session \<times> lock_manager \<Rightarrow> bool" where
  "retired w r sm \<longleftrightarrow> se_closed (fst sm) \<and> se_operations (fst sm) = [] \<and> se_handle (fst sm) = w \<and>
     se_resource (fst sm) = r \<and> lock_inv (snd sm) \<and> w \<notin> lock_holders (snd sm) r"

lemma not_holder_depth: "w \<notin> lock_holders m r \<Longrightarrow> owned_lock_depth w r m = 0"
  by (auto simp: lock_holders_def owned_lock_type_def owned_lock_depth_def split: option.splits if_splits)

lemma closed_lock:
  "se_closed s \<Longrightarrow> session_lock be now evs during late ty t key ak m s = Some (VI_ERROR_ABORT, ak, m, s)"
  by (simp add: session_lock_def begin_operation_def finish_operation_def del: VI_ERROR_ABORT_def)

lemma closed_unlock:
  "retired w r (s, m) \<Longrightarrow> session_unlock be now during m s = Some (VI_ERROR_SESN_NLOCKED, m, s)"
  by (auto simp: session_unlock_def retired_def not_holder_depth)

lemma same_but_device_sel:
  assumes "same_but_device s s'"
  shows "se_closed s' = se_closed s" "se_operations s' = se_operations s" "se_handle s' = se_handle s"
    "se_descriptor s' = se_descriptor s"
  by (subst assms [unfolded same_but_device_def], simp)+

lemma finish_all_sel:
  "se_handle (fold (\<lambda>nr. finish_operation (Some nr)) fin t) = se_handle t"
  "se_descriptor (fold (\<lambda>nr. finish_operation (Some nr)) fin t) = se_descriptor t"
  "se_closed (fold (\<lambda>nr. finish_operation (Some nr)) fin t) = se_closed t"
  by (induction fin arbitrary: t) (simp_all add: finish_operation_def)

lemma close_retires:
  assumes "lock_inv m" and "session_close be fin m s = Some (m', s')"
  shows "retired (se_handle s) (se_resource s) (s', m')"
  using assms
  by (auto simp: session_close_def Let_def retired_def finish_all_sel lock_holders_release_all
      lock_release_all_inv split: if_splits)

lemma retired_call:
  assumes "retired w r (s, m)" and "\<And>now' c. call = (now', Other_session c) \<Longrightarrow> lock_op_owner c \<noteq> w"
  shows "retired w r (run_session_call be call (s, m))"
proof -
  obtain now c where call: "call = (now, c)" by (cases call)
  show ?thesis unfolding call
  proof (cases c)
    case (Call_io io)
    with assms(1) session_io_same [of be now m io s] show "retired w r (run_session_call be (now, c) (s, m))"
      by (auto simp: retired_def same_but_device_sel split: option.split)
  next
    case (Call_lock ty t key ak evs during late)
    with assms(1) closed_lock [of s] show "retired w r (run_session_call be (now, c) (s, m))" by (simp add: retired_def)
  next
    case (Call_unlock during)
    with assms(1) closed_unlock [OF assms(1)] show "retired w r (run_session_call be (now, c) (s, m))" by simp
  next
    case (Call_close fin)
    with assms(1) close_retires [of m be fin s] show "retired w r (run_session_call be (now, c) (s, m))"
      by (auto simp: retired_def split: option.split)
  next
    case (Other_session d)
    with assms call show "retired w r (run_session_call be (now, c) (s, m))"
      by (simp add: retired_def foreign_holder exec_lock_op_inv)
  qed (use assms(1) in \<open>auto simp: retired_def cancel_operations_def cancel_all_def\<close>)
qed

lemma retired_calls:
  assumes "retired w r sm" and "\<forall>(now, call) \<in> set calls. \<forall>c. call = Other_session c \<longrightarrow> lock_op_owner c \<noteq> w"
  shows "retired w r (fold (run_session_call be) calls sm)"
  using assms
proof (induction calls arbitrary: sm)
  case (Cons call calls)
  have "retired w r (run_session_call be call sm)"
    by (cases sm, simp only:, rule retired_call) (use Cons.prems in auto)
  with Cons show ?case by simp
qed simp

lemma finish_all:
  "se_operations (fold (\<lambda>nr. finish_operation (Some nr)) fin s) =
     filter (\<lambda>(nr, x). nr \<notin> set fin) (se_operations s)"
  by (induction fin arbitrary: s) (auto simp: finish_operation_def AList.delete_eq intro: filter_cong)

definition attr_number :: "attr_value \<Rightarrow> u64" where
  "attr_number v = (case v of Attr_u8 x \<Rightarrow> ucast x | Attr_u16 x \<Rightarrow> ucast x | Attr_u32 x \<Rightarrow> ucast x | Attr_u64 x \<Rightarrow> x
     | Attr_string _ \<Rightarrow> 0)"

lemma ucast_ucast_le:
  "v \<le> 0xFFFFFFFF \<Longrightarrow> ucast (ucast (v :: u64) :: u32) = v"
  "v \<le> 0xFF \<Longrightarrow> ucast (ucast (v :: u64) :: byte) = v"
  by (simp_all add: word_unat_eq_iff unsigned_ucast_eq unat_mod word_le_nat_alt take_bit_eq_mod)

text \<open>A fresh session of the mock device, for the examples below.\<close>

definition example_session :: "mock_session session" where
  "example_session = session_new 0 1 (descriptor Project_mock 0 0 ''INSTR'' ''R'') mock_session_new"

lemma example_session_sel [simp]:
  "se_handle example_session = 0" "se_resource example_session = ''R''" "se_operations example_session = []"
  "\<not> se_closed example_session" "se_backend example_session = mock_session_new"
  "se_next_operation_id example_session = 1"
  by (simp_all add: example_session_def session_new_def descriptor_def)

section \<open>Properties\<close>

text \<open>C7. A lock protects the device: while other sessions hold a lock on the resource of a session, each of its
  input and output calls is refused and leaves the session, its device and its operations untouched.\<close>

theorem foreign_lock_blocks_io:
  assumes "lock_inv lm" and "lock_holders lm (se_resource s) \<noteq> {}" and "se_handle s \<notin> lock_holders lm (se_resource s)"
  shows "session_io be now lm c s = Some (VI_ERROR_RSRC_LOCKED, s)"
  by (rule session_io_refused) (simp add: session_can_access_def can_access_iff assms)

theorem foreign_lock_blocks_io_witness:
  "session_io (mock_backend [] None) 0 (snd (exec_lock_op (Grant_op 7 ''R'' VI_SHARED_LOCK None) lock_manager_empty))
     (Io_write [42]) example_session =
   Some (VI_ERROR_RSRC_LOCKED, example_session)"
proof -
  let ?m = "snd (exec_lock_op (Grant_op 7 ''R'' VI_SHARED_LOCK None) lock_manager_empty)"
  have i: "lock_inv ?m" by (rule exec_lock_op_inv) simp
  have h: "lock_holders ?m ''R'' = {7}"
    using lock_holders_grant [OF lock_inv_empty, of VI_SHARED_LOCK "''R''" 7 None "[]"]
    by (simp add: can_grant_def lock_simps lock_manager_empty_def lock_holders_eq)
  show ?thesis
    by (rule foreign_lock_blocks_io [OF i]) (simp_all only: h example_session_sel, simp_all)
qed

text \<open>No call leaks an operation: when an input, output, lock or unlock call returns, with whatever result, the
  table of active operations and all other fields of the session are as before, except for the device and the
  operation counter. A later close therefore never waits for a call that has returned.\<close>

theorem calls_leak_no_operation:
  assumes "(\<exists>c st. session_io be now lm c s = Some (st, s')) \<or>
     (\<exists>evs during late ty t key ak st ak' lm'.
        session_lock be now evs during late ty t key ak lm s = Some (st, ak', lm', s')) \<or>
     (\<exists>during st lm'. session_unlock be now during lm s = Some (st, lm', s'))"
  shows "s' = s\<lparr>se_backend := se_backend s', se_next_operation_id := se_next_operation_id s'\<rparr>"
  using assms session_io_same session_lock_same session_unlock_same unfolding same_but_device_def by metis

theorem calls_leak_no_operation_witness:
  "\<exists>st lm' s'. session_unlock (mock_backend [] None) 0 [] lock_manager_empty example_session = Some (st, lm', s') \<and>
     se_operations s' = []"
proof -
  let ?s = "example_session"
  obtain st lm' s' where u: "session_unlock (mock_backend [] None) 0 [] lock_manager_empty ?s = Some (st, lm', s')"
    by (simp add: session_unlock_def owned_lock_depth_def lock_manager_empty_def lock_simps)
  then have "s' = ?s\<lparr>se_backend := se_backend s', se_next_operation_id := se_next_operation_id s'\<rparr>"
    by (intro calls_leak_no_operation) blast
  from arg_cong [OF this, of se_operations] have "se_operations s' = []" by (rule trans) simp
  with u show ?thesis by blast
qed

text \<open>C38. A closed session performs nothing: over any backend that keeps its contract (above all never undoes a completion), each
  input or output call that returns on a closed session, and that the locks admit, ends in \<open>VI_ERROR_ABORT\<close>.\<close>

theorem closed_session_aborts_io:
  assumes "backend be" and "se_closed s" and "session_can_access lm s" and "session_io be now lm c s = Some (st, s')"
  shows "st = VI_ERROR_ABORT"
  by (rule backend.closed_io [OF assms])

theorem closed_session_aborts_io_witness:
  "session_io (mock_backend [] None) 0 lock_manager_empty Io_clear
     (session_close_begin (mock_backend [] None) example_session)
   = Some (VI_ERROR_ABORT,
       session_close_begin (mock_backend [] None) example_session)"
proof -
  let ?s = "session_close_begin (mock_backend [] None) example_session"
  have a: "session_can_access lock_manager_empty ?s"
    by (simp add: session_can_access_def lock_can_access_def lock_manager_empty_def)
  obtain tr x s1 where "begin_operation 0 (se_timeout ?s) ?s = (tr, x, s1)" by (metis prod_cases3)
  then obtain st s' where io: "session_io (mock_backend [] None) 0 lock_manager_empty Io_clear ?s = Some (st, s')"
    using a by (simp add: session_clear_def mock_clear_def mock_backend_def [of "[]" None, THEN arg_cong, of be_clear])
  with closed_session_aborts_io [OF mock.backend_axioms _ a this] a show ?thesis
    by (auto simp: session_clear_def begin_operation_def finish_operation_def mock_backend_def mock_clear_def
        session_close_begin_def session_new_def mock_session_new_def)
qed

text \<open>C12. Closing drains the session: from the moment \<open>close\<close> has marked the session, whatever the threads do, no
  operation is added to the table and every operation still in it is completed, so its caller is on the way out.\<close>

theorem closing_session_drains:
  assumes "(session_step be)\<^sup>*\<^sup>* (session_close_begin be s, m) (s', m')"
  shows "fst ` set (se_operations s') \<subseteq> fst ` set (se_operations s) \<and>
         (\<forall>(nr, x) \<in> set (se_operations s'). op_completed x)"
proof -
  have "draining (fst ` set (se_operations s)) (session_close_begin be s, m)" by (auto simp: draining_def)
  from drain.reach_inv [OF assms this] show ?thesis by (simp add: draining_def)
qed

theorem closing_session_drains_witness:
  "let s = snd (snd (begin_operation 0 100 example_session)) in
   fst ` set (se_operations (session_close_begin (mock_backend [] None) s)) \<subseteq> {1} \<and>
   (\<forall>(nr, x) \<in> set (se_operations (session_close_begin (mock_backend [] None) s)). op_completed x)"
  using closing_session_drains [where be = "mock_backend [] None" and s = "snd (snd (begin_operation 0 100 example_session))"
      and m = lock_manager_empty, OF rtranclp.rtrancl_refl]
  unfolding Let_def [of "snd (snd (begin_operation 0 100 example_session))"] by (simp add: begin_operation_def Let_def)

text \<open>\<open>close\<close> returns exactly when the operations that were in progress have finished; it never waits for more.\<close>

theorem close_returns_iff_operations_finished:
  "(session_close be fin lm s \<noteq> None) \<longleftrightarrow> fst ` set (se_operations s) \<subseteq> set fin"
proof -
  have "filter (\<lambda>(nr, x). nr \<notin> set fin) (cancel_all (se_operations s)) = [] \<longleftrightarrow>
      fst ` set (cancel_all (se_operations s)) \<subseteq> set fin"
    by (auto simp: filter_empty_conv simp del: cancel_all_simps)
  then show ?thesis by (simp add: session_close_def Let_def finish_all)
qed

text \<open>C13. A closed session holds no lock, for ever: after \<open>close\<close> has returned, whatever calls are made on the
  session (input and output, \<open>lock\<close> with any events while it would wait, \<open>unlock\<close>, attributes, \<open>terminate\<close>, \<open>close\<close>
  again) and whatever other sessions do to the lock manager, over any backend, it holds no lock on its resource,
  \<open>lock\<close> ends in \<open>VI_ERROR_ABORT\<close> and \<open>unlock\<close> in \<open>VI_ERROR_SESN_NLOCKED\<close>, and neither changes the locks.\<close>

theorem closed_session_never_holds_lock:
  assumes "lock_inv m" and "session_close be fin m s = Some (m1, s1)"
    and "\<forall>(now, call) \<in> set calls. \<forall>c. call = Other_session c \<longrightarrow> lock_op_owner c \<noteq> se_handle s"
    and "fold (run_session_call be) calls (s1, m1) = (s', m')"
  shows "se_handle s \<notin> lock_holders m' (se_resource s) \<and>
         session_lock be now evs during late ty t key ak m' s' = Some (VI_ERROR_ABORT, ak, m', s') \<and>
         session_unlock be now during m' s' = Some (VI_ERROR_SESN_NLOCKED, m', s')"
proof -
  have r: "retired (se_handle s) (se_resource s) (s', m')"
    using retired_calls [OF close_retires [OF assms(1,2)] assms(3), of be] by (simp only: assms(4))
  then have "se_closed s'" and "se_handle s \<notin> lock_holders m' (se_resource s)" by (simp_all add: retired_def)
  with closed_lock closed_unlock [OF r] show ?thesis by blast
qed

theorem closed_session_never_holds_lock_witness:
  "let (s', m') = fold (run_session_call (mock_backend [] None))
         [(0, Call_lock VI_EXCLUSIVE_LOCK 100 None [] [] [] []), (5, Other_session (Grant_op 7 ''R'' VI_SHARED_LOCK None))]
         (session_close_begin (mock_backend [] None) example_session,
          snd (lock_release_all 0 ''R'' (snd (exec_lock_op (Grant_op 0 ''R'' VI_SHARED_LOCK None) lock_manager_empty)))) in
   0 \<notin> lock_holders m' ''R''"
proof -
  let ?m = "snd (exec_lock_op (Grant_op 0 ''R'' VI_SHARED_LOCK None) lock_manager_empty)"
  let ?calls = "[(0, Call_lock VI_EXCLUSIVE_LOCK 100 None [] [] [] []), (5, Other_session (Grant_op 7 ''R'' VI_SHARED_LOCK None))]"
  let ?s1 = "session_close_begin (mock_backend [] None) example_session" and ?m1 = "snd (lock_release_all 0 ''R'' ?m)"
  have i: "lock_inv ?m" by (rule exec_lock_op_inv) simp
  have c: "session_close (mock_backend [] None) [] ?m example_session = Some (?m1, ?s1)"
    by (simp add: session_close_def session_new_def cancel_all_def descriptor_def del: exec_lock_op.simps)
  have o: "\<forall>(now, call) \<in> set ?calls. \<forall>c. call = Other_session c \<longrightarrow> lock_op_owner c \<noteq> se_handle example_session"
    by simp
  obtain s' m' where r: "fold (run_session_call (mock_backend [] None)) ?calls (?s1, ?m1) = (s', m')"
    by (cases "fold (run_session_call (mock_backend [] None)) ?calls (?s1, ?m1)")
  from closed_session_never_holds_lock [OF i c o r] show ?thesis
    unfolding r by (simp add: session_new_def descriptor_def)
qed

text \<open>C40. A lock call that fails leaves no lock behind: whether the request was refused, timed out, was cancelled or the
  device refused the lock, the lock table is what the other sessions made of it while the call waited. The call starts with a
  non-zero depth if the session holds the lock already, its operation is completed early only with an error, while it
  waits only other sessions change the locks, and nobody does once it is granted (with a lock of another thread of the
  session in that time the statement is false, see below).\<close>

theorem failed_lock_restores_table:
  assumes "lock_inv lm" and "list_all (foreign_event (se_handle s)) evs"
    and "se_handle s \<in> lock_holders lm (se_resource s) \<Longrightarrow> owned_lock_depth (se_handle s) (se_resource s) lm \<noteq> 0"
    and "session_lock be now evs [] [] ty t key ak lm s = Some (st, ak', lm', s')" and "st < VI_SUCCESS"
  shows "\<exists>cs. Other_thread ` set cs \<subseteq> set evs \<and> lm_locks lm' = lm_locks (other_threads cs lm)"
  by (rule lock_failure_restores [OF assms])

text \<open>A device that refuses the lock after the operation has timed out.\<close>

definition refusing_backend :: "mock_session backend_ops" where
  "refusing_backend =
     (mock_backend [] None)\<lparr>be_lock := (\<lambda>b x ty key. Some (VI_ERROR_TMO, snd (try_complete VI_ERROR_TMO x), b))\<rparr>"

theorem failed_lock_restores_table_witness:
  "\<exists>s' lm'. session_lock refusing_backend 0 [] [] [] VI_EXCLUSIVE_LOCK 100 None [] lock_manager_empty
     example_session = Some (VI_ERROR_TMO, [], lm', s') \<and>
     lm_locks lm' = lm_locks lock_manager_empty"
proof -
  let ?s = "example_session"
  obtain lm' s' where l: "session_lock refusing_backend 0 [] [] [] VI_EXCLUSIVE_LOCK 100 None [] lock_manager_empty ?s =
      Some (VI_ERROR_TMO, [], lm', s')"
    by (simp add: session_lock_def session_lock_remote_def refusing_backend_def begin_operation_def session_new_def
        lock_acquire_def lock_manager_empty_def lock_simps can_grant_def acquire_grant_def operation_done_def
        owned_lock_depth_def operation_new_def operation_defs other_threads_def)
  have h: "se_handle ?s \<in> lock_holders lock_manager_empty (se_resource ?s) \<Longrightarrow>
      owned_lock_depth (se_handle ?s) (se_resource ?s) lock_manager_empty \<noteq> 0"
    by (simp add: lock_holders_eq lock_manager_empty_def)
  from failed_lock_restores_table [OF lock_inv_empty _ h l] l show ?thesis by (auto simp: other_threads_def)
qed

text \<open>The release after a failed device lock can take away another thread's lock: thread A of a session is granted
  the lock and asks the device, thread B of the same session takes the lock too (nested, successfully), the
  device refuses A after A's operation has timed out. A releases twice, and B's lock is gone, so that another
  session can take the resource; with one release the session would still hold it.\<close>

theorem failed_lock_releases_other_thread:
  "map_option (\<lambda>(st, _, lm, _). (st, owned_lock_type 0 ''R'' lm,
       can_grant (lock_entry lm ''R'') 9 VI_EXCLUSIVE_LOCK None))
     (session_lock refusing_backend 0 [] [Grant_op 0 ''R'' VI_EXCLUSIVE_LOCK None] [] VI_EXCLUSIVE_LOCK 100 None []
        lock_manager_empty example_session) = Some (VI_ERROR_TMO, VI_NO_LOCK, True) \<and>
   owned_lock_type 0 ''R'' (snd (snd (lock_release 0 ''R'' (other_threads [Grant_op 0 ''R'' VI_EXCLUSIVE_LOCK None]
     (snd (snd (acquire_grant 0 ''R'' VI_EXCLUSIVE_LOCK [] lock_manager_empty))))))) = VI_EXCLUSIVE_LOCK"
  by (simp add: session_lock_def session_lock_remote_def refusing_backend_def begin_operation_def
      lock_acquire_def lock_manager_empty_def lock_simps can_grant_def acquire_grant_def operation_done_def
      owned_lock_depth_def operation_new_def operation_defs other_threads_def lock_release_def owned_lock_type_def)

text \<open>Attributes read back: after the timeout, the termination character, its enabling, the END enabling or the
  user data of a session was set successfully, getting the attribute returns the value that was set.\<close>

theorem attribute_round_trip:
  assumes "session_set_attribute be a v s = (VI_SUCCESS, s')"
    and "a \<in> {VI_ATTR_TMO_VALUE, VI_ATTR_TERMCHAR, VI_ATTR_TERMCHAR_EN, VI_ATTR_SEND_END_EN, VI_ATTR_USER_DATA}"
  shows "\<exists>x. session_get_attribute be lm a True s' = (VI_SUCCESS, Some x) \<and> attr_number x = v"
  using assms
  by (auto simp: session_set_attribute_def session_get_attribute_def attr_number_def ucast_ucast_le not_less
      split: if_splits)

theorem attribute_round_trip_witness:
  "\<exists>x. session_get_attribute (mock_backend [] None) lock_manager_empty VI_ATTR_TMO_VALUE True
     (example_session\<lparr>se_timeout := 5000\<rparr>) = (VI_SUCCESS, Some x) \<and> attr_number x = 5000"
  by (rule attribute_round_trip [where s = example_session]) (simp_all add: session_set_attribute_def)

text \<open>A read of a session stays within the caller's buffer: over any backend that keeps its contract, it stores at
  most the requested number of bytes and reports exactly the number it stored, or reports nothing and stores nothing.\<close>

theorem session_read_within_buffer:
  assumes "backend be" and "session_read be now lm n s = Some (st, data, k, s')"
  shows "length data \<le> unat n \<and> (case k of None \<Rightarrow> data = [] | Some k \<Rightarrow> unat k = length data)"
  by (rule backend.session_read_bounds [OF assms])

theorem session_read_within_buffer_witness:
  "case session_read (mock_backend [Mock_written [1, 2, 3]] None) 0 lock_manager_empty 2 example_session of
     None \<Rightarrow> False
   | Some (st, data, k, s') \<Rightarrow> data = [1, 2] \<and> length data \<le> unat (2 :: u32)"
proof -
  let ?r = "session_read (mock_backend [Mock_written [1, 2, 3]] None) 0 lock_manager_empty 2 example_session"
  obtain k s' where r: "?r = Some (VI_SUCCESS_MAX_CNT, [1, 2], k, s')"
    by (simp add: session_read_def session_can_access_def lock_can_access_def lock_manager_empty_def begin_operation_def
        mock_backend_def mock_read_def mock_claim_def mock_session_new_def operation_new_def mock_ready_def
        read_amount_def operation_defs finish_with_def Let_def example_session_def session_new_def)
  from session_read_within_buffer [OF mock.backend_axioms r] r show ?thesis by simp
qed

end
