(* ===== verification/Visa_Api.thy ===== *)
theory Visa_Api
  imports Handle_Table Session Find_Expression
begin

text \<open>
  The exported C functions of \<open>src/api/visa_api.cpp\<close>, with the closing of objects from \<open>src/core/objects.cpp\<close>.
  The state of the library is the handle table, the managers, find lists and sessions, and the lock manager. The
  table holds references (the shared pointers); objects stay in their lists when they are closed, since nothing
  can reach them any more. Null pointers are \<open>None\<close> or a flag; what a function stores through an output pointer is
  part of its result, \<open>None\<close> if it stores nothing. A function that blocks (a read, a lock, an open with a lock)
  returns an option. The device backends other than the mock device, platform discovery and the Prologix
  provider are the fields of \<open>platform\<close>.
\<close>

section \<open>Backends\<close>

datatype 'd device = Mock_device mock_session | Device 'd

text \<open>The virtual call: the operations of the mock device or of the other backends.\<close>

definition device_ops :: "mock_event list \<Rightarrow> vi_status option \<Rightarrow> 'd backend_ops \<Rightarrow> 'd device backend_ops" where
  "device_ops evs race be =
     (let mb = mock_backend evs race in
      \<lparr>be_read = (\<lambda>b x n ro. case b of
          Mock_device m \<Rightarrow> map_option (\<lambda>(st, bs, k, y, m'). (st, bs, k, y, Mock_device m')) (be_read mb m x n ro)
        | Device d \<Rightarrow> map_option (\<lambda>(st, bs, k, y, d'). (st, bs, k, y, Device d')) (be_read be d x n ro)),
       be_write = (\<lambda>b x bs wo. case b of
          Mock_device m \<Rightarrow> map_option (\<lambda>(st, k, y, m'). (st, k, y, Mock_device m')) (be_write mb m x bs wo)
        | Device d \<Rightarrow> map_option (\<lambda>(st, k, y, d'). (st, k, y, Device d')) (be_write be d x bs wo)),
       be_clear = (\<lambda>b x. case b of
          Mock_device m \<Rightarrow> map_option (\<lambda>(st, y, m'). (st, y, Mock_device m')) (be_clear mb m x)
        | Device d \<Rightarrow> map_option (\<lambda>(st, y, d'). (st, y, Device d')) (be_clear be d x)),
       be_flush = (\<lambda>b x fl. case b of
          Mock_device m \<Rightarrow> (case be_flush mb m x fl of (st, y, m') \<Rightarrow> (st, y, Mock_device m'))
        | Device d \<Rightarrow> (case be_flush be d x fl of (st, y, d') \<Rightarrow> (st, y, Device d'))),
       be_read_stb = (\<lambda>b x out. case b of
          Mock_device m \<Rightarrow> map_option (\<lambda>(st, v, y, m'). (st, v, y, Mock_device m')) (be_read_stb mb m x out)
        | Device d \<Rightarrow> map_option (\<lambda>(st, v, y, d'). (st, v, y, Device d')) (be_read_stb be d x out)),
       be_assert_trigger = (\<lambda>b x pr. case b of
          Mock_device m \<Rightarrow> map_option (\<lambda>(st, y, m'). (st, y, Mock_device m')) (be_assert_trigger mb m x pr)
        | Device d \<Rightarrow> map_option (\<lambda>(st, y, d'). (st, y, Device d')) (be_assert_trigger be d x pr)),
       be_usb_control = (\<lambda>b x rt rq v i bs. case b of
          Mock_device m \<Rightarrow> (case be_usb_control mb m x rt rq v i bs of (st, ds, k, y, m') \<Rightarrow> (st, ds, k, y, Mock_device m'))
        | Device d \<Rightarrow> (case be_usb_control be d x rt rq v i bs of (st, ds, k, y, d') \<Rightarrow> (st, ds, k, y, Device d'))),
       be_lock = (\<lambda>b x ty key. case b of
          Mock_device m \<Rightarrow> map_option (\<lambda>(st, y, m'). (st, y, Mock_device m')) (be_lock mb m x ty key)
        | Device d \<Rightarrow> map_option (\<lambda>(st, y, d'). (st, y, Device d')) (be_lock be d x ty key)),
       be_unlock = (\<lambda>b x. case b of
          Mock_device m \<Rightarrow> map_option (\<lambda>(st, y, m'). (st, y, Mock_device m')) (be_unlock mb m x)
        | Device d \<Rightarrow> map_option (\<lambda>(st, y, d'). (st, y, Device d')) (be_unlock be d x)),
       be_set_attribute = (\<lambda>b a v. case b of
          Mock_device m \<Rightarrow> (case be_set_attribute mb m a v of (st, m') \<Rightarrow> (st, Mock_device m'))
        | Device d \<Rightarrow> (case be_set_attribute be d a v of (st, d') \<Rightarrow> (st, Device d'))),
       be_get_attribute = (\<lambda>b a. case b of
          Mock_device m \<Rightarrow> be_get_attribute mb m a
        | Device d \<Rightarrow> be_get_attribute be d a),
       be_close = (\<lambda>b. case b of Mock_device m \<Rightarrow> Mock_device (be_close mb m) | Device d \<Rightarrow> Device (be_close be d)),
       be_notify_cancel = (\<lambda>b. case b of
          Mock_device m \<Rightarrow> Mock_device (be_notify_cancel mb m)
        | Device d \<Rightarrow> Device (be_notify_cancel be d))\<rparr>)"

section \<open>State\<close>

datatype obj_ref = Rm_ref nat | Find_ref nat | Session_ref nat

fun ref_type :: "obj_ref \<Rightarrow> object_type" where
  "ref_type (Rm_ref a) = Type_resource_manager"
| "ref_type (Find_ref a) = Type_find_list"
| "ref_type (Session_ref a) = Type_session"

record ('d, 'p) visa =
  v_handles :: "obj_ref handle_table"
  v_managers :: "'p resource_manager list"
  v_lists :: "find_list list"
  v_sessions :: "'d device session list"
  v_locks :: lock_manager

definition visa_init :: "('d, 'p) visa" where
  "visa_init = \<lparr>v_handles = [], v_managers = [], v_lists = [], v_sessions = [], v_locks = lock_manager_empty\<rparr>"

record usb_raw_config =
  urcfg_struct_size :: u32
  urcfg_abi_major :: u16
  urcfg_abi_minor :: u16
  urcfg_alternate_setting :: byte
  urcfg_read_transfer_type :: byte
  urcfg_read_endpoint :: byte
  urcfg_write_transfer_type :: byte
  urcfg_write_endpoint :: byte
  urcfg_reserved8 :: "byte list"
  urcfg_flags :: u32
  urcfg_reserved :: "u32 list"

record usb_control_request =
  ucr_struct_size :: u32
  ucr_abi_major :: u16
  ucr_abi_minor :: u16
  ucr_request_type :: byte
  ucr_request :: byte
  ucr_value :: u16
  ucr_index :: u16
  ucr_reserved16 :: u16
  ucr_flags :: u32
  ucr_reserved :: "u32 list"

record prologix_controller_config =
  pcc_struct_size :: u32
  pcc_abi_major :: u16
  pcc_abi_minor :: u16
  pcc_connection_type :: u16
  pcc_tcp_port :: u16
  pcc_eot_char :: byte
  pcc_reserved8 :: "byte list"
  pcc_read_timeout_ms :: u32
  pcc_maximum_response_size :: u32
  pcc_flags :: u32
  pcc_reserved :: "u32 list"

datatype prologix_connection_kind = Prologix_serial | Prologix_tcp

record prologix_configuration =
  px_connection :: prologix_connection_kind
  px_endpoint :: string
  px_tcp_port :: u16
  px_eot_char :: byte
  px_read_timeout_ms :: u32
  px_maximum_response_size :: u32

text \<open>The \<open>create\<close> functions of the backends return the open status and the device, if there is one.\<close>

record ('d, 'p) platform =
  pf_serial_ports :: "(u16 \<times> string) list"
  pf_gpib_resources :: "string list"
  pf_usb_resources :: "string list"
  pf_device :: "'d backend_ops"
  pf_tcp :: "string \<Rightarrow> u16 \<Rightarrow> u32 \<Rightarrow> vi_status \<times> 'd option"
  pf_hislip :: "string \<Rightarrow> string \<Rightarrow> u32 \<Rightarrow> u16 \<Rightarrow> vi_status \<times> 'd option"
  pf_vxi11 :: "string \<Rightarrow> string \<Rightarrow> u32 \<Rightarrow> u16 \<Rightarrow> vi_status \<times> 'd option"
  pf_serial :: "string \<Rightarrow> vi_status \<times> 'd option"
  pf_gpib_provider :: "'p \<Rightarrow> resource_descriptor \<Rightarrow> u32 \<Rightarrow> vi_status option \<times> 'd option"
  pf_gpib :: "resource_descriptor \<Rightarrow> u32 \<Rightarrow> vi_status \<times> 'd option"
  pf_usbtmc :: "resource_descriptor \<Rightarrow> u32 \<Rightarrow> vi_status \<times> 'd option"
  pf_usb_raw :: "resource_descriptor \<Rightarrow> usb_raw_configuration \<Rightarrow> u32 \<Rightarrow> vi_status \<times> 'd option"
  pf_prologix :: "u16 \<Rightarrow> prologix_configuration \<Rightarrow> vi_status \<times> 'p option"

text \<open>What other threads do during a call.\<close>

record call_env =
  ce_now :: nat
  ce_mock_events :: "mock_event list"
  ce_race :: "vi_status option"
  ce_lock_events :: "lock_event list"
  ce_during :: "lock_op list"
  ce_late :: "lock_op list"

abbreviation call_ops :: "('d, 'p) platform \<Rightarrow> call_env \<Rightarrow> 'd device backend_ops" where
  "call_ops pf c \<equiv> device_ops (ce_mock_events c) (ce_race c) (pf_device pf)"

section \<open>Helpers\<close>

definition api_error :: "table_error \<Rightarrow> vi_status" where
  "api_error e = (case e of Bad_alloc \<Rightarrow> VI_ERROR_ALLOC | Invalid_argument \<Rightarrow> VI_ERROR_SYSTEM_ERROR)"

definition copy_output :: "string \<Rightarrow> string" where
  "copy_output value = take (VI_FIND_BUFLEN - 1) value"

definition require_outputs :: "bool list \<Rightarrow> vi_status" where
  "require_outputs outputs = (if list_all (\<lambda>present. present) outputs then VI_SUCCESS else VI_ERROR_INV_PARAMETER)"

definition get_manager :: "vi_object \<Rightarrow> ('d, 'p) visa \<Rightarrow> nat option" where
  "get_manager h v = (case handle_get (v_handles v) h Type_resource_manager of Some (Rm_ref a) \<Rightarrow> Some a | _ \<Rightarrow> None)"

definition get_find_list :: "vi_object \<Rightarrow> ('d, 'p) visa \<Rightarrow> nat option" where
  "get_find_list h v = (case handle_get (v_handles v) h Type_find_list of Some (Find_ref a) \<Rightarrow> Some a | _ \<Rightarrow> None)"

definition get_session :: "vi_object \<Rightarrow> ('d, 'p) visa \<Rightarrow> nat option" where
  "get_session h v = (case handle_get (v_handles v) h Type_session of Some (Session_ref a) \<Rightarrow> Some a | _ \<Rightarrow> None)"

definition put_manager :: "nat \<Rightarrow> 'p resource_manager \<Rightarrow> ('d, 'p) visa \<Rightarrow> ('d, 'p) visa" where
  "put_manager a m v = v\<lparr>v_managers := (v_managers v)[a := m]\<rparr>"

definition put_list :: "nat \<Rightarrow> find_list \<Rightarrow> ('d, 'p) visa \<Rightarrow> ('d, 'p) visa" where
  "put_list a l v = v\<lparr>v_lists := (v_lists v)[a := l]\<rparr>"

definition put_session :: "nat \<Rightarrow> 'd device session \<Rightarrow> ('d, 'p) visa \<Rightarrow> ('d, 'p) visa" where
  "put_session a s v = v\<lparr>v_sessions := (v_sessions v)[a := s]\<rparr>"

text \<open>The descriptions of \<open>status_description\<close>, in the order of its cases.\<close>

definition status_descriptions :: "(vi_status \<times> string) list" where
  "status_descriptions =
     [(VI_SUCCESS, ''Operation completed successfully.''),
      (VI_SUCCESS_TERM_CHAR, ''The termination character was read.''),
      (VI_SUCCESS_MAX_CNT, ''The requested byte count was read.''),
      (VI_SUCCESS_NESTED_SHARED, ''The session already held a shared lock.''),
      (VI_SUCCESS_NESTED_EXCLUSIVE, ''The session already held an exclusive lock.''),
      (VI_ERROR_SYSTEM_ERROR, ''An internal system error occurred.''),
      (VI_ERROR_INV_OBJECT, ''The session or object handle is invalid.''),
      (VI_ERROR_RSRC_LOCKED, ''The resource is locked by another session.''),
      (VI_ERROR_INV_EXPR, ''The resource expression is invalid or unsupported.''),
      (VI_ERROR_RSRC_NFOUND, ''No resource matched the request.''),
      (VI_ERROR_INV_RSRC_NAME, ''The resource name is invalid.''),
      (VI_ERROR_INV_ACC_MODE, ''The access mode is invalid.''),
      (VI_ERROR_TMO, ''The operation timed out.''),
      (VI_ERROR_INV_DEGREE, ''The termination degree is invalid.''),
      (VI_ERROR_INV_JOB_ID, ''The job identifier is invalid.''),
      (VI_ERROR_NSUP_ATTR, ''The attribute is not supported.''),
      (VI_ERROR_NSUP_ATTR_STATE, ''The attribute value is not supported.''),
      (VI_ERROR_ATTR_READONLY, ''The attribute is read-only.''),
      (VI_ERROR_INV_LOCK_TYPE, ''The lock type is invalid.''),
      (VI_ERROR_INV_ACCESS_KEY, ''The lock access key is invalid.''),
      (VI_ERROR_ABORT, ''The operation was aborted.''),
      (VI_ERROR_ALLOC, ''Memory allocation failed.''),
      (VI_ERROR_INV_MASK, ''The buffer mask is invalid.''),
      (VI_ERROR_IO, ''An I/O error occurred.''),
      (VI_ERROR_NSUP_OPER, ''The operation is not supported by this implementation or backend.''),
      (VI_ERROR_RSRC_BUSY, ''The resource is busy.''),
      (VI_ERROR_INV_PARAMETER, ''A parameter is invalid.''),
      (VI_ERROR_INV_PROT, ''The protocol is invalid.''),
      (VI_ERROR_INV_SIZE, ''The requested size is invalid.''),
      (VI_ERROR_SESN_NLOCKED, ''The session does not own a lock.''),
      (VI_ERROR_INTF_NUM_NCONFIG, ''The interface number has no platform resource mapping.''),
      (VI_ERROR_CONN_LOST, ''The connection to the resource was lost.''),
      (VI_ERROR_NPERMISSION, ''Permission to access the resource was denied.'')]"

definition status_description :: "vi_status \<Rightarrow> string option" where
  "status_description status = map_of status_descriptions status"

definition valid_open_mode :: "u32 \<Rightarrow> bool" where
  "valid_open_mode mode =
     (if mode AND NOT (VI_EXCLUSIVE_LOCK OR VI_SHARED_LOCK OR VI_LOAD_CONFIG) \<noteq> 0 then False
      else mode AND VI_EXCLUSIVE_LOCK = 0 \<or> mode AND VI_SHARED_LOCK = 0)"

definition mock_discovery_opted_in :: "string \<Rightarrow> bool" where
  "mock_discovery_opted_in expression =
     (let e = takeWhile (\<lambda>c. c \<noteq> CHR ''{'') expression in
      if length e \<noteq> length WRVISA_MOCK_FIND_EXPRESSION then False
      else list_all2 (\<lambda>l r. toupper l = toupper r) e WRVISA_MOCK_FIND_EXPRESSION)"

definition validate_usb_structure :: "u32 \<Rightarrow> u32 \<Rightarrow> u16 \<Rightarrow> u16 \<Rightarrow> vi_status" where
  "validate_usb_structure sizeof struct_size abi_major abi_minor =
     (if struct_size < sizeof then VI_ERROR_INV_SIZE
      else if abi_major \<noteq> WRVISA_USB_RAW_ABI_MAJOR \<or> abi_minor > WRVISA_USB_RAW_ABI_MINOR then VI_ERROR_NSUP_OPER
      else VI_SUCCESS)"

definition usb_transfer_type :: "byte \<Rightarrow> usb_transfer option" where
  "usb_transfer_type value =
     (if value = WRVISA_USB_TRANSFER_NONE then Some Usb_none
      else if value = WRVISA_USB_TRANSFER_BULK then Some Usb_bulk
      else if value = WRVISA_USB_TRANSFER_INTERRUPT then Some Usb_interrupt
      else None)"

definition valid_usb_endpoint :: "usb_transfer \<Rightarrow> byte \<Rightarrow> bool \<Rightarrow> bool" where
  "valid_usb_endpoint ty endpoint input =
     (if ty = Usb_none then endpoint = 0
      else endpoint AND 0x70 = 0 \<and> endpoint AND 0x0F \<noteq> 0 \<and> (endpoint AND 0x80 \<noteq> 0) = input)"

definition zero_usb_raw_reserved :: "usb_raw_config \<Rightarrow> bool" where
  "zero_usb_raw_reserved config \<longleftrightarrow>
     list_all (\<lambda>x. x = 0) (urcfg_reserved8 config) \<and> urcfg_flags config = 0 \<and>
     list_all (\<lambda>x. x = 0) (urcfg_reserved config)"

definition validate_prologix_structure :: "prologix_controller_config \<Rightarrow> vi_status" where
  "validate_prologix_structure config =
     (if pcc_struct_size config < 40 then VI_ERROR_INV_SIZE
      else if pcc_abi_major config \<noteq> WRVISA_PROLOGIX_ABI_MAJOR \<or> pcc_abi_minor config > WRVISA_PROLOGIX_ABI_MINOR
      then VI_ERROR_NSUP_OPER
      else VI_SUCCESS)"

definition zero_prologix_reserved :: "prologix_controller_config \<Rightarrow> bool" where
  "zero_prologix_reserved config \<longleftrightarrow>
     list_all (\<lambda>x. x = 0) (pcc_reserved8 config) \<and> pcc_flags config = 0 \<and>
     list_all (\<lambda>x. x = 0) (pcc_reserved config)"

definition zero_usb_control_reserved :: "usb_control_request \<Rightarrow> bool" where
  "zero_usb_control_reserved request \<longleftrightarrow>
     ucr_reserved16 request = 0 \<and> ucr_flags request = 0 \<and> list_all (\<lambda>x. x = 0) (ucr_reserved request)"

section \<open>Closing objects\<close>

definition close_find_list :: "nat \<Rightarrow> ('d, 'p) visa \<Rightarrow> ('d, 'p) visa" where
  "close_find_list a v =
     (let l = v_lists v ! a; v1 = put_list a (find_list_close l) v in
      put_manager (fl_parent l) (remove_child (fl_handle l) (v_managers v1 ! fl_parent l)) v1)"

text \<open>Every call restores the table of operations (see \<open>Session\<close>), so \<open>close\<close> finds none to wait for here.\<close>

definition close_session :: "'d device backend_ops \<Rightarrow> nat \<Rightarrow> ('d, 'p) visa \<Rightarrow> ('d, 'p) visa option" where
  "close_session be a v =
     (case session_close be [] (v_locks v) (v_sessions v ! a) of
        None \<Rightarrow> None
      | Some (lm, s) \<Rightarrow>
          let v1 = (put_session a s v)\<lparr>v_locks := lm\<rparr> in
          Some (put_manager (se_parent s) (remove_child (se_handle s) (v_managers v1 ! se_parent s)) v1))"

text \<open>The children of a manager are find lists and sessions; a manager among them would be a defect of the table.\<close>

fun close_children :: "'d device backend_ops \<Rightarrow> vi_object list \<Rightarrow> ('d, 'p) visa \<Rightarrow> ('d, 'p) visa option" where
  "close_children be [] v = Some v"
| "close_children be (child # children) v =
     (let (object, slots) = handle_remove child (v_handles v); v1 = v\<lparr>v_handles := slots\<rparr> in
      case object of
        None \<Rightarrow> close_children be children v1
      | Some (Find_ref a) \<Rightarrow> close_children be children (close_find_list a v1)
      | Some (Session_ref a) \<Rightarrow>
          (case close_session be a v1 of None \<Rightarrow> None | Some v2 \<Rightarrow> close_children be children v2)
      | Some (Rm_ref a) \<Rightarrow> None)"

definition close_manager :: "'d device backend_ops \<Rightarrow> nat \<Rightarrow> ('d, 'p) visa \<Rightarrow> ('d, 'p) visa option" where
  "close_manager be a v =
     (let (children, m) = take_children (v_managers v ! a) in close_children be children (put_manager a m v))"

definition close_object :: "'d device backend_ops \<Rightarrow> obj_ref \<Rightarrow> ('d, 'p) visa \<Rightarrow> ('d, 'p) visa option" where
  "close_object be object v =
     (case object of
        Rm_ref a \<Rightarrow> close_manager be a v
      | Find_ref a \<Rightarrow> Some (close_find_list a v)
      | Session_ref a \<Rightarrow> close_session be a v)"

definition register_child ::
  "'d device backend_ops \<Rightarrow> nat \<Rightarrow> obj_ref \<Rightarrow> ('d, 'p) visa \<Rightarrow> (vi_status \<times> vi_object \<times> ('d, 'p) visa) option" where
  "register_child be manager child v =
     (case handle_insert ref_type (ref_type child) (Some child) (v_handles v) of
        Inl e \<Rightarrow> Some (api_error e, VI_NULL, v)
      | Inr (handle, slots) \<Rightarrow>
          let (added, m) = add_child handle (v_managers v ! manager) in
          if added then Some (VI_SUCCESS, handle, put_manager manager m (v\<lparr>v_handles := slots\<rparr>))
          else (case close_object be child (v\<lparr>v_handles := snd (handle_remove handle slots)\<rparr>) of
                  None \<Rightarrow> None
                | Some v' \<Rightarrow> Some (VI_ERROR_INV_OBJECT, VI_NULL, v')))"

section \<open>Resource managers\<close>

definition viOpenDefaultRM :: "('d, 'p) platform \<Rightarrow> bool \<Rightarrow> ('d, 'p) visa \<Rightarrow> vi_status \<times> vi_object option \<times> ('d, 'p) visa" where
  "viOpenDefaultRM pf has_vi v =
     (if \<not> has_vi then (VI_ERROR_INV_PARAMETER, None, v)
      else
        let manager = resource_manager_new (pf_serial_ports pf) (pf_gpib_resources pf) (pf_usb_resources pf);
            a = length (v_managers v) in
        case handle_insert ref_type Type_resource_manager (Some (Rm_ref a)) (v_handles v) of
          Inl e \<Rightarrow> (api_error e, None, v)
        | Inr (handle, slots) \<Rightarrow>
            (VI_SUCCESS, Some handle, v\<lparr>v_handles := slots, v_managers := v_managers v @ [manager]\<rparr>))"

definition viGetDefaultRM :: "('d, 'p) platform \<Rightarrow> bool \<Rightarrow> ('d, 'p) visa \<Rightarrow> vi_status \<times> vi_object option \<times> ('d, 'p) visa" where
  "viGetDefaultRM pf has_vi v = viOpenDefaultRM pf has_vi v"

definition find_matches :: "find_expression \<Rightarrow> string \<Rightarrow> 'p resource_manager \<Rightarrow> string list" where
  "find_matches expression expr m =
     filter (\<lambda>resource. case parse_resource resource of None \<Rightarrow> False | Some parsed \<Rightarrow> matches_resource expression parsed)
       (discoverable_resources m) @
     (case parse_resource WRVISA_MOCK_RESOURCE of
        None \<Rightarrow> []
      | Some mock \<Rightarrow>
          if mock_discovery_opted_in expr \<and> matches_resource expression mock then [WRVISA_MOCK_RESOURCE] else [])"

definition viFindRsrc ::
  "'d device backend_ops \<Rightarrow> vi_object \<Rightarrow> string option \<Rightarrow> bool \<Rightarrow> bool \<Rightarrow> bool \<Rightarrow> ('d, 'p) visa \<Rightarrow>
   (vi_status \<times> vi_object option \<times> u32 option \<times> string option \<times> ('d, 'p) visa) option" where
  "viFindRsrc be sesn expr has_vi has_count has_desc v =
     (case expr of
        None \<Rightarrow> Some (VI_ERROR_INV_PARAMETER, None, None, None, v)
      | Some expr \<Rightarrow>
          if \<not> has_desc then Some (VI_ERROR_INV_PARAMETER, None, None, None, v)
          else
            let null = (if has_vi then Some VI_NULL else None); zero = (if has_count then Some 0 else None) in
            case get_manager sesn v of
              None \<Rightarrow> Some (VI_ERROR_INV_OBJECT, null, zero, None, v)
            | Some a \<Rightarrow>
                (case find_compile expr of
                   Parsed expression _ \<Rightarrow>
                     let matches = find_matches expression expr (v_managers v ! a) in
                     if matches = [] then Some (VI_ERROR_RSRC_NFOUND, null, zero, None, v)
                     else
                       let count = (if has_count then Some (of_nat (length matches)) else None) in
                       if \<not> has_vi then Some (VI_SUCCESS, None, count, Some (copy_output (hd matches)), v)
                       else
                         let la = length (v_lists v);
                             v1 = v\<lparr>v_lists := v_lists v @ [find_list_new a sesn matches]\<rparr> in
                         (case register_child be a (Find_ref la) v1 of
                            None \<Rightarrow> None
                          | Some (status, handle, v2) \<Rightarrow>
                              if status < VI_SUCCESS then Some (status, null, count, None, v2)
                              else Some (VI_SUCCESS, Some handle, count, Some (copy_output (hd matches)),
                                     put_list la ((v_lists v2 ! la)\<lparr>fl_handle := handle\<rparr>) v2))
                 | _ \<Rightarrow> Some (VI_ERROR_INV_EXPR, null, zero, None, v)))"

definition viFindNext :: "vi_object \<Rightarrow> bool \<Rightarrow> ('d, 'p) visa \<Rightarrow> vi_status \<times> string option \<times> ('d, 'p) visa" where
  "viFindNext vi has_desc v =
     (if \<not> has_desc then (VI_ERROR_INV_PARAMETER, None, v)
      else case get_find_list vi v of
        None \<Rightarrow> (VI_ERROR_INV_OBJECT, None, v)
      | Some a \<Rightarrow>
          (case find_list_next (v_lists v ! a) of
             (None, l) \<Rightarrow> (VI_ERROR_RSRC_NFOUND, None, put_list a l v)
           | (Some next, l) \<Rightarrow> (VI_SUCCESS, Some (copy_output next), put_list a l v)))"

definition viParseRsrc ::
  "vi_object \<Rightarrow> string option \<Rightarrow> bool \<Rightarrow> bool \<Rightarrow> ('d, 'p) visa \<Rightarrow> vi_status \<times> (u16 \<times> u16) option" where
  "viParseRsrc rm_sesn rsrc_name has_type has_num v =
     (case rsrc_name of
        None \<Rightarrow> (VI_ERROR_INV_PARAMETER, None)
      | Some name \<Rightarrow>
          if require_outputs [has_type, has_num] \<noteq> VI_SUCCESS then (VI_ERROR_INV_PARAMETER, None)
          else case get_manager rm_sesn v of
            None \<Rightarrow> (VI_ERROR_INV_OBJECT, None)
          | Some a \<Rightarrow>
              (case resolve_resource name (v_managers v ! a) of
                 None \<Rightarrow> (VI_ERROR_INV_RSRC_NAME, None)
               | Some (d, _) \<Rightarrow> (VI_SUCCESS, Some (interface_type d, interface_number d))))"

text \<open>The three optional string outputs are the class, the expanded name and the alias.\<close>

definition viParseRsrcEx ::
  "vi_object \<Rightarrow> string option \<Rightarrow> bool \<Rightarrow> bool \<Rightarrow> ('d, 'p) visa \<Rightarrow>
   vi_status \<times> (u16 \<times> u16 \<times> string \<times> string \<times> string) option" where
  "viParseRsrcEx rm_sesn rsrc_name has_type has_num v =
     (case rsrc_name of
        None \<Rightarrow> (VI_ERROR_INV_PARAMETER, None)
      | Some name \<Rightarrow>
          if require_outputs [has_type, has_num] \<noteq> VI_SUCCESS then (VI_ERROR_INV_PARAMETER, None)
          else case get_manager rm_sesn v of
            None \<Rightarrow> (VI_ERROR_INV_OBJECT, None)
          | Some a \<Rightarrow>
              (case resolve_resource name (v_managers v ! a) of
                 None \<Rightarrow> (VI_ERROR_INV_RSRC_NAME, None)
               | Some (d, alias) \<Rightarrow>
                   (VI_SUCCESS, Some (interface_type d, interface_number d, copy_output (resource_class d),
                      copy_output (canonical_name d), copy_output alias))))"

section \<open>Opening and closing sessions\<close>

text \<open>The switch of \<open>viOpen\<close>: the backend, or the status with which \<open>viOpen\<close> returns.\<close>

definition as_device :: "vi_status \<times> 'd option \<Rightarrow> vi_status + 'd device" where
  "as_device r = (case r of (_, Some d) \<Rightarrow> Inr (Device d) | (status, None) \<Rightarrow> Inl status)"

definition port_or :: "u16 \<Rightarrow> u16 option \<Rightarrow> u16" where
  "port_or fallback port = (case port of None \<Rightarrow> fallback | Some p \<Rightarrow> p)"

definition open_backend ::
  "('d, 'p) platform \<Rightarrow> 'p resource_manager \<Rightarrow> resource_descriptor \<Rightarrow> u32 \<Rightarrow> vi_status + 'd device" where
  "open_backend pf m parsed timeout =
     (case rd_kind parsed of
        Project_mock \<Rightarrow> Inr (Mock_device mock_session_new)
      | Tcpip_socket \<Rightarrow> as_device (pf_tcp pf (rd_host parsed) (rd_port parsed) timeout)
      | Tcpip_instr \<Rightarrow>
          if rd_tcpip_protocol parsed = Hislip then
            as_device (pf_hislip pf (rd_host parsed) (device_name parsed) timeout
              (port_or 4880 (tcpip_service_port (rd_host parsed) (rd_tcpip_protocol parsed) m)))
          else if rd_tcpip_protocol parsed = Vxi11 then
            as_device (pf_vxi11 pf (rd_host parsed) (device_name parsed) timeout
              (port_or 111 (tcpip_service_port (rd_host parsed) (rd_tcpip_protocol parsed) m)))
          else Inl VI_ERROR_NSUP_OPER
      | Asrl_instr \<Rightarrow>
          (case serial_path (interface_number parsed) m of
             None \<Rightarrow> Inl VI_ERROR_INTF_NUM_NCONFIG
           | Some path \<Rightarrow> as_device (pf_serial pf path))
      | Gpib_instr \<Rightarrow>
          (case gpib_provider (interface_number parsed) m of
             Some provider \<Rightarrow>
               (case pf_gpib_provider pf provider parsed timeout of
                  (_, Some d) \<Rightarrow> Inr (Device d)
                | (stored, None) \<Rightarrow>
                    let open_status = (case stored of None \<Rightarrow> VI_ERROR_RSRC_NFOUND | Some st \<Rightarrow> st) in
                    Inl (if open_status \<ge> VI_SUCCESS then VI_ERROR_SYSTEM_ERROR else open_status))
           | None \<Rightarrow> as_device (pf_gpib pf parsed timeout))
      | Gpib_intfc \<Rightarrow> Inl VI_ERROR_NSUP_OPER
      | Usb_instr \<Rightarrow> as_device (pf_usbtmc pf parsed timeout)
      | Usb_raw \<Rightarrow>
          (case rm_usb_raw_configuration (canonical_name parsed) m of
             Some configuration \<Rightarrow> as_device (pf_usb_raw pf parsed configuration timeout)
           | None \<Rightarrow> Inl VI_ERROR_INTF_NUM_NCONFIG))"

text \<open>A session that has just been opened takes its lock, or is closed again.\<close>

definition open_lock ::
  "'d device backend_ops \<Rightarrow> call_env \<Rightarrow> u32 \<Rightarrow> u32 \<Rightarrow> vi_object \<Rightarrow> nat \<Rightarrow> ('d, 'p) visa \<Rightarrow>
   (vi_status \<times> vi_object option \<times> ('d, 'p) visa) option" where
  "open_lock be c lock_type timeout handle sa v =
     (if lock_type = VI_NO_LOCK then Some (VI_SUCCESS, Some handle, v)
      else
        (case session_lock be (ce_now c) (ce_lock_events c) (ce_during c) (ce_late c)
                lock_type timeout None [] (v_locks v) (v_sessions v ! sa) of
           None \<Rightarrow> None
         | Some (lock_status, key, lm, s') \<Rightarrow>
             let v4 = (put_session sa s' v)\<lparr>v_locks := lm\<rparr> in
             if lock_status \<ge> VI_SUCCESS then Some (lock_status, Some handle, v4)
             else
               let (removed, slots) = handle_remove handle (v_handles v4);
                   v5 = v4\<lparr>v_handles := slots\<rparr> in
               (case removed of
                  None \<Rightarrow> Some (lock_status, Some VI_NULL, v5)
                | Some object \<Rightarrow>
                    (case close_object be object v5 of
                       None \<Rightarrow> None
                     | Some v6 \<Rightarrow> Some (lock_status, Some VI_NULL, v6)))))"

definition viOpen ::
  "('d, 'p) platform \<Rightarrow> call_env \<Rightarrow> vi_object \<Rightarrow> string option \<Rightarrow> u32 \<Rightarrow> u32 \<Rightarrow> bool \<Rightarrow> ('d, 'p) visa \<Rightarrow>
   (vi_status \<times> vi_object option \<times> ('d, 'p) visa) option" where
  "viOpen pf c sesn name mode timeout has_vi v =
     (if name = None \<or> \<not> has_vi then Some (VI_ERROR_INV_PARAMETER, None, v)
      else if \<not> valid_open_mode mode then Some (VI_ERROR_INV_ACC_MODE, Some VI_NULL, v)
      else case get_manager sesn v of
        None \<Rightarrow> Some (VI_ERROR_INV_OBJECT, Some VI_NULL, v)
      | Some a \<Rightarrow>
          (case resolve_resource (the name) (v_managers v ! a) of
             None \<Rightarrow> Some (VI_ERROR_INV_RSRC_NAME, Some VI_NULL, v)
           | Some (parsed, _) \<Rightarrow>
               (case open_backend pf (v_managers v ! a) parsed timeout of
                  Inl open_status \<Rightarrow> Some (open_status, Some VI_NULL, v)
                | Inr device \<Rightarrow>
                    let sa = length (v_sessions v);
                        v1 = v\<lparr>v_sessions := v_sessions v @ [session_new a sesn parsed device]\<rparr> in
                    (case register_child (call_ops pf c) a (Session_ref sa) v1 of
                       None \<Rightarrow> None
                     | Some (status, handle, v2) \<Rightarrow>
                         if status < VI_SUCCESS then Some (status, Some VI_NULL, v2)
                         else
                           open_lock (call_ops pf c) c (mode AND (VI_EXCLUSIVE_LOCK OR VI_SHARED_LOCK)) timeout handle sa
                             (put_session sa ((v_sessions v2 ! sa)\<lparr>se_handle := handle\<rparr>) v2)))))"

definition viClose :: "'d device backend_ops \<Rightarrow> vi_object \<Rightarrow> ('d, 'p) visa \<Rightarrow> (vi_status \<times> ('d, 'p) visa) option" where
  "viClose be vi v =
     (let (object, slots) = handle_remove vi (v_handles v); v1 = v\<lparr>v_handles := slots\<rparr> in
      case object of
        None \<Rightarrow> Some (VI_ERROR_INV_OBJECT, v1)
      | Some ob \<Rightarrow> map_option (\<lambda>v2. (VI_SUCCESS, v2)) (close_object be ob v1))"

section \<open>Session functions\<close>

definition viSetAttribute :: "'d device backend_ops \<Rightarrow> vi_object \<Rightarrow> u32 \<Rightarrow> u64 \<Rightarrow> ('d, 'p) visa \<Rightarrow> vi_status \<times> ('d, 'p) visa" where
  "viSetAttribute be vi attr_name attr_value v =
     (case get_session vi v of
        None \<Rightarrow> (VI_ERROR_INV_OBJECT, v)
      | Some a \<Rightarrow>
          let (status, s) = session_set_attribute be attr_name attr_value (v_sessions v ! a) in (status, put_session a s v))"

definition viGetAttribute :: "'d device backend_ops \<Rightarrow> vi_object \<Rightarrow> u32 \<Rightarrow> bool \<Rightarrow> ('d, 'p) visa \<Rightarrow> vi_status \<times> attr_value option" where
  "viGetAttribute be vi attr_name has_value v =
     (if \<not> has_value then (VI_ERROR_INV_PARAMETER, None)
      else case get_session vi v of
        Some a \<Rightarrow> session_get_attribute be (v_locks v) attr_name True (v_sessions v ! a)
      | None \<Rightarrow>
          (case get_manager vi v of
             None \<Rightarrow> (VI_ERROR_INV_OBJECT, None)
           | Some _ \<Rightarrow>
               if attr_name = VI_ATTR_RSRC_CLASS then (VI_SUCCESS, Some (Attr_string (copy_output ''RM'')))
               else if attr_name = VI_ATTR_RSRC_IMPL_VERSION then (VI_SUCCESS, Some (Attr_u32 0x00000600))
               else if attr_name = VI_ATTR_RSRC_SPEC_VERSION then (VI_SUCCESS, Some (Attr_u32 VI_SPEC_VERSION))
               else (VI_ERROR_NSUP_ATTR, None)))"

definition viStatusDesc :: "vi_object \<Rightarrow> vi_status \<Rightarrow> bool \<Rightarrow> ('d, 'p) visa \<Rightarrow> vi_status \<times> string option" where
  "viStatusDesc vi status has_desc v =
     (if \<not> has_desc then (VI_ERROR_INV_PARAMETER, None)
      else if handle_get_any (v_handles v) vi = None then (VI_ERROR_INV_OBJECT, None)
      else case status_description status of
        None \<Rightarrow> (VI_ERROR_NSUP_OPER, None)
      | Some description \<Rightarrow> (VI_SUCCESS, Some (copy_output description)))"

definition viTerminate :: "'d device backend_ops \<Rightarrow> vi_object \<Rightarrow> u16 \<Rightarrow> u32 \<Rightarrow> ('d, 'p) visa \<Rightarrow> vi_status \<times> ('d, 'p) visa" where
  "viTerminate be vi degree job_id v =
     (if degree \<noteq> 0 then (VI_ERROR_INV_DEGREE, v)
      else if job_id \<noteq> VI_NULL then (VI_ERROR_INV_JOB_ID, v)
      else case get_session vi v of
        None \<Rightarrow> (VI_ERROR_INV_OBJECT, v)
      | Some a \<Rightarrow> let (status, s) = cancel_operations be (v_sessions v ! a) in (status, put_session a s v))"

definition viLock ::
  "'d device backend_ops \<Rightarrow> call_env \<Rightarrow> vi_object \<Rightarrow> u32 \<Rightarrow> u32 \<Rightarrow> string option \<Rightarrow> bool \<Rightarrow> ('d, 'p) visa \<Rightarrow>
   (vi_status \<times> string option \<times> ('d, 'p) visa) option" where
  "viLock be c vi lock_type timeout requested_key has_key v =
     (case get_session vi v of
        None \<Rightarrow> Some (VI_ERROR_INV_OBJECT, None, v)
      | Some a \<Rightarrow>
          (case session_lock be (ce_now c) (ce_lock_events c) (ce_during c) (ce_late c) lock_type timeout
                  requested_key [] (v_locks v) (v_sessions v ! a) of
             None \<Rightarrow> None
           | Some (status, key, lm, s) \<Rightarrow>
               Some (status, if status \<ge> VI_SUCCESS \<and> has_key then Some (copy_output key) else None,
                     (put_session a s v)\<lparr>v_locks := lm\<rparr>)))"

definition viUnlock :: "'d device backend_ops \<Rightarrow> call_env \<Rightarrow> vi_object \<Rightarrow> ('d, 'p) visa \<Rightarrow> (vi_status \<times> ('d, 'p) visa) option" where
  "viUnlock be c vi v =
     (case get_session vi v of
        None \<Rightarrow> Some (VI_ERROR_INV_OBJECT, v)
      | Some a \<Rightarrow>
          map_option (\<lambda>(status, lm, s). (status, (put_session a s v)\<lparr>v_locks := lm\<rparr>))
            (session_unlock be (ce_now c) (ce_during c) (v_locks v) (v_sessions v ! a)))"

definition viRead ::
  "'d device backend_ops \<Rightarrow> nat \<Rightarrow> vi_object \<Rightarrow> bool \<Rightarrow> u32 \<Rightarrow> bool \<Rightarrow> ('d, 'p) visa \<Rightarrow>
   (vi_status \<times> byte list \<times> u32 option \<times> ('d, 'p) visa) option" where
  "viRead be now vi has_buffer count has_count v =
     (if \<not> has_buffer \<or> \<not> has_count \<or> count = 0 then Some (VI_ERROR_INV_PARAMETER, [], None, v)
      else case get_session vi v of
        None \<Rightarrow> Some (VI_ERROR_INV_OBJECT, [], None, v)
      | Some a \<Rightarrow>
          map_option (\<lambda>(status, data, k, s). (status, data, k, put_session a s v))
            (session_read be now (v_locks v) count (v_sessions v ! a)))"

text \<open>The buffer of a write is the list of its first \<open>cnt\<close> bytes, \<open>None\<close> for a null pointer.\<close>

definition viWrite ::
  "'d device backend_ops \<Rightarrow> nat \<Rightarrow> vi_object \<Rightarrow> byte list option \<Rightarrow> bool \<Rightarrow> ('d, 'p) visa \<Rightarrow>
   (vi_status \<times> u32 option \<times> ('d, 'p) visa) option" where
  "viWrite be now vi buf has_count v =
     (case buf of
        None \<Rightarrow> Some (VI_ERROR_INV_PARAMETER, None, v)
      | Some data \<Rightarrow>
          if \<not> has_count \<or> data = [] then Some (VI_ERROR_INV_PARAMETER, None, v)
          else case get_session vi v of
            None \<Rightarrow> Some (VI_ERROR_INV_OBJECT, None, v)
          | Some a \<Rightarrow>
              map_option (\<lambda>(status, k, s). (status, k, put_session a s v))
                (session_write be now (v_locks v) data (v_sessions v ! a)))"

definition viAssertTrigger ::
  "'d device backend_ops \<Rightarrow> nat \<Rightarrow> vi_object \<Rightarrow> u16 \<Rightarrow> ('d, 'p) visa \<Rightarrow> (vi_status \<times> ('d, 'p) visa) option" where
  "viAssertTrigger be now vi protocol v =
     (case get_session vi v of
        None \<Rightarrow> Some (VI_ERROR_INV_OBJECT, v)
      | Some a \<Rightarrow>
          map_option (\<lambda>(status, s). (status, put_session a s v))
            (session_assert_trigger be now (v_locks v) protocol (v_sessions v ! a)))"

definition viReadSTB ::
  "'d device backend_ops \<Rightarrow> nat \<Rightarrow> vi_object \<Rightarrow> bool \<Rightarrow> ('d, 'p) visa \<Rightarrow>
   (vi_status \<times> u16 option \<times> ('d, 'p) visa) option" where
  "viReadSTB be now vi has_status v =
     (case get_session vi v of
        None \<Rightarrow> Some (VI_ERROR_INV_OBJECT, None, v)
      | Some a \<Rightarrow>
          map_option (\<lambda>(result, status, s). (result, status, put_session a s v))
            (session_read_stb be now (v_locks v) has_status (v_sessions v ! a)))"

definition viClear :: "'d device backend_ops \<Rightarrow> nat \<Rightarrow> vi_object \<Rightarrow> ('d, 'p) visa \<Rightarrow> (vi_status \<times> ('d, 'p) visa) option" where
  "viClear be now vi v =
     (case get_session vi v of
        None \<Rightarrow> Some (VI_ERROR_INV_OBJECT, v)
      | Some a \<Rightarrow>
          map_option (\<lambda>(status, s). (status, put_session a s v))
            (session_clear be now (v_locks v) (v_sessions v ! a)))"

definition viSetBuf :: "vi_object \<Rightarrow> u16 \<Rightarrow> u32 \<Rightarrow> ('d, 'p) visa \<Rightarrow> vi_status \<times> ('d, 'p) visa" where
  "viSetBuf vi flags amount v =
     (case get_session vi v of
        None \<Rightarrow> (VI_ERROR_INV_OBJECT, v)
      | Some a \<Rightarrow> let (status, s) = session_set_buffer flags amount (v_sessions v ! a) in (status, put_session a s v))"

definition viFlush :: "'d device backend_ops \<Rightarrow> nat \<Rightarrow> vi_object \<Rightarrow> u16 \<Rightarrow> ('d, 'p) visa \<Rightarrow> vi_status \<times> ('d, 'p) visa" where
  "viFlush be now vi flags v =
     (case get_session vi v of
        None \<Rightarrow> (VI_ERROR_INV_OBJECT, v)
      | Some a \<Rightarrow>
          let (status, s) = session_flush be now (v_locks v) flags (v_sessions v ! a) in (status, put_session a s v))"

section \<open>Project extensions\<close>

definition wrvisaSetSerialPath :: "vi_object \<Rightarrow> u16 \<Rightarrow> string option \<Rightarrow> ('d, 'p) visa \<Rightarrow> vi_status \<times> ('d, 'p) visa" where
  "wrvisaSetSerialPath rm_sesn intf_num native_path v =
     (case native_path of
        None \<Rightarrow> (VI_ERROR_INV_PARAMETER, v)
      | Some path \<Rightarrow>
          if path = [] then (VI_ERROR_INV_PARAMETER, v)
          else case get_manager rm_sesn v of
            None \<Rightarrow> (VI_ERROR_INV_OBJECT, v)
          | Some a \<Rightarrow>
              let (ok, m) = set_serial_path intf_num path (v_managers v ! a) in
              (if ok then VI_SUCCESS else VI_ERROR_INV_OBJECT, put_manager a m v))"

definition wrvisaSetTcpipServicePort ::
  "vi_object \<Rightarrow> string option \<Rightarrow> u16 \<Rightarrow> u16 \<Rightarrow> ('d, 'p) visa \<Rightarrow> vi_status \<times> ('d, 'p) visa" where
  "wrvisaSetTcpipServicePort rm_sesn host protocol port v =
     (if host = None \<or> host = Some [] \<or> port = 0 then (VI_ERROR_INV_PARAMETER, v)
      else if protocol \<noteq> WRVISA_TCPIP_PROTOCOL_VXI11 \<and> protocol \<noteq> WRVISA_TCPIP_PROTOCOL_HISLIP
      then (VI_ERROR_INV_PROT, v)
      else
        let selected = (if protocol = WRVISA_TCPIP_PROTOCOL_VXI11 then Vxi11 else Hislip) in
        case get_manager rm_sesn v of
          None \<Rightarrow> (VI_ERROR_INV_OBJECT, v)
        | Some a \<Rightarrow>
            let (ok, m) = set_tcpip_service_port (the host) selected port (v_managers v ! a) in
            (if ok then VI_SUCCESS else VI_ERROR_INV_PARAMETER, put_manager a m v))"

definition wrvisaSetResourceAlias ::
  "vi_object \<Rightarrow> string option \<Rightarrow> string option \<Rightarrow> ('d, 'p) visa \<Rightarrow> vi_status \<times> ('d, 'p) visa" where
  "wrvisaSetResourceAlias rm_sesn alias resource_name v =
     (if alias = None \<or> alias = Some [] \<or> resource_name = None \<or> resource_name = Some []
      then (VI_ERROR_INV_PARAMETER, v)
      else case get_manager rm_sesn v of
        None \<Rightarrow> (VI_ERROR_INV_OBJECT, v)
      | Some a \<Rightarrow>
          (case parse_resource (the resource_name) of
             None \<Rightarrow> (VI_ERROR_INV_RSRC_NAME, v)
           | Some resource \<Rightarrow>
               let (ok, m) = set_resource_alias (the alias) resource (v_managers v ! a) in
               (if ok then VI_SUCCESS else VI_ERROR_INV_PARAMETER, put_manager a m v)))"

definition wrvisaSetUsbRawConfig ::
  "vi_object \<Rightarrow> string option \<Rightarrow> usb_raw_config option \<Rightarrow> ('d, 'p) visa \<Rightarrow> vi_status \<times> ('d, 'p) visa" where
  "wrvisaSetUsbRawConfig rm_sesn resource_name config v =
     (if resource_name = None \<or> resource_name = Some [] \<or> config = None then (VI_ERROR_INV_PARAMETER, v)
      else
        let config = the config;
            structure_status = validate_usb_structure 32 (urcfg_struct_size config) (urcfg_abi_major config)
              (urcfg_abi_minor config) in
        if structure_status < VI_SUCCESS then (structure_status, v)
        else if \<not> zero_usb_raw_reserved config then (VI_ERROR_INV_PARAMETER, v)
        else case (usb_transfer_type (urcfg_read_transfer_type config), usb_transfer_type (urcfg_write_transfer_type config)) of
          (Some read_type, Some write_type) \<Rightarrow>
            if \<not> valid_usb_endpoint read_type (urcfg_read_endpoint config) True \<or>
               \<not> valid_usb_endpoint write_type (urcfg_write_endpoint config) False
            then (VI_ERROR_INV_PARAMETER, v)
            else (case get_manager rm_sesn v of
              None \<Rightarrow> (VI_ERROR_INV_OBJECT, v)
            | Some a \<Rightarrow>
                (case resolve_resource (the resource_name) (v_managers v ! a) of
                   None \<Rightarrow> (VI_ERROR_INV_RSRC_NAME, v)
                 | Some (d, _) \<Rightarrow>
                     if rd_kind d \<noteq> Usb_raw then (VI_ERROR_NSUP_OPER, v)
                     else
                       let configuration =
                             \<lparr>urc_alternate_setting = urcfg_alternate_setting config, urc_read_type = read_type,
                              urc_read_endpoint = urcfg_read_endpoint config, urc_write_type = write_type,
                              urc_write_endpoint = urcfg_write_endpoint config\<rparr>;
                           (ok, m) = set_usb_raw_configuration (canonical_name d) configuration (v_managers v ! a) in
                       (if ok then VI_SUCCESS else VI_ERROR_INV_OBJECT, put_manager a m v)))
        | _ \<Rightarrow> (VI_ERROR_INV_PARAMETER, v))"

definition prologix_connection :: "prologix_controller_config \<Rightarrow> prologix_connection_kind option" where
  "prologix_connection config =
     (if pcc_connection_type config = WRVISA_PROLOGIX_CONNECTION_SERIAL then
        if pcc_tcp_port config \<noteq> 0 then None else Some Prologix_serial
      else if pcc_connection_type config = WRVISA_PROLOGIX_CONNECTION_TCP then
        if pcc_tcp_port config = 0 then None else Some Prologix_tcp
      else None)"

definition wrvisaSetPrologixController ::
  "('d, 'p) platform \<Rightarrow> vi_object \<Rightarrow> u16 \<Rightarrow> string option \<Rightarrow> prologix_controller_config option \<Rightarrow> ('d, 'p) visa \<Rightarrow>
   vi_status \<times> ('d, 'p) visa" where
  "wrvisaSetPrologixController pf rm_sesn board endpoint config v =
     (if endpoint = None \<or> endpoint = Some [] \<or> config = None then (VI_ERROR_INV_PARAMETER, v)
      else
        let config = the config; structure_status = validate_prologix_structure config in
        if structure_status < VI_SUCCESS then (structure_status, v)
        else if \<not> zero_prologix_reserved config then (VI_ERROR_INV_PARAMETER, v)
        else case prologix_connection config of
          None \<Rightarrow> (VI_ERROR_INV_PARAMETER, v)
        | Some connection \<Rightarrow>
            if pcc_read_timeout_ms config < 1 \<or> pcc_read_timeout_ms config > 3000 \<or>
               pcc_maximum_response_size config < 1 \<or>
               pcc_maximum_response_size config > WRVISA_PROLOGIX_MAX_RESPONSE_SIZE
            then (VI_ERROR_INV_PARAMETER, v)
            else (case get_manager rm_sesn v of
              None \<Rightarrow> (VI_ERROR_INV_OBJECT, v)
            | Some a \<Rightarrow>
                let configuration =
                      \<lparr>px_connection = connection, px_endpoint = the endpoint, px_tcp_port = pcc_tcp_port config,
                       px_eot_char = pcc_eot_char config, px_read_timeout_ms = pcc_read_timeout_ms config,
                       px_maximum_response_size = pcc_maximum_response_size config\<rparr> in
                (case pf_prologix pf board configuration of
                   (status, None) \<Rightarrow> (status, v)
                 | (_, Some provider) \<Rightarrow>
                     let (ok, m) = set_gpib_provider board (Some provider) (v_managers v ! a) in
                     (if ok then VI_SUCCESS else VI_ERROR_INV_OBJECT, put_manager a m v))))"

text \<open>\<open>data\<close> is \<open>None\<close> for a null pointer; then \<open>count\<close> is still the count the caller passed.\<close>

definition wrvisaUsbControlTransfer ::
  "'d device backend_ops \<Rightarrow> nat \<Rightarrow> vi_object \<Rightarrow> usb_control_request option \<Rightarrow> byte list option \<Rightarrow> u32 \<Rightarrow> bool \<Rightarrow>
   ('d, 'p) visa \<Rightarrow> vi_status \<times> byte list option \<times> u32 option \<times> ('d, 'p) visa" where
  "wrvisaUsbControlTransfer be now vi request data count has_count v =
     (let zero = (if has_count then Some 0 else None) in
      if request = None \<or> \<not> has_count \<or> (count \<noteq> 0 \<and> data = None) then (VI_ERROR_INV_PARAMETER, data, zero, v)
      else if count > 0xFFFF then (VI_ERROR_INV_SIZE, data, zero, v)
      else
        let request = the request;
            structure_status = validate_usb_structure 32 (ucr_struct_size request) (ucr_abi_major request)
              (ucr_abi_minor request) in
        if structure_status < VI_SUCCESS then (structure_status, data, zero, v)
        else if \<not> zero_usb_control_reserved request \<or> ucr_request_type request AND 0x60 = 0x60 \<or>
                ucr_request_type request AND 0x1F > 3
        then (VI_ERROR_INV_PARAMETER, data, zero, v)
        else case get_session vi v of
          None \<Rightarrow> (VI_ERROR_INV_OBJECT, data, zero, v)
        | Some a \<Rightarrow>
            let bytes = (case data of None \<Rightarrow> [] | Some bs \<Rightarrow> take (unat count) bs);
                (status, bytes', k, s) =
                  session_usb_control be now (v_locks v) (ucr_request_type request) (ucr_request request)
                    (ucr_value request) (ucr_index request) bytes (v_sessions v ! a) in
            (status, map_option (\<lambda>bs. bytes' @ drop (unat count) bs) data, (case k of None \<Rightarrow> zero | Some k \<Rightarrow> Some k), put_session a s v))"

end
