(* ===== verification/Visa_World.thy ===== *)
theory Visa_World
  imports Visa_Api
begin

text \<open>
  The state of the whole library is well-formed under every sequence of API calls: live handles point to open objects
  of the right class that know their handle, open sessions and find lists are children of a live manager and the
  children of a live manager are live, and locks are held by open sessions on their own resource. From this the
  end-to-end properties follow: closing a manager closes everything below it, no lock outlives its session, failing
  calls leave no handle behind, and what is written to the mock device is read back.
\<close>

section \<open>The invariant\<close>

definition live :: "('d, 'p) visa \<Rightarrow> vi_object \<Rightarrow> obj_ref option" where
  "live v h = handle_get_any (v_handles v) h"

fun ref_parent :: "('d, 'p) visa \<Rightarrow> obj_ref \<Rightarrow> (nat \<times> vi_object) option" where
  "ref_parent v (Rm_ref a) = None"
| "ref_parent v (Find_ref a) = Some (fl_parent (v_lists v ! a), fl_parent_handle (v_lists v ! a))"
| "ref_parent v (Session_ref a) = Some (se_parent (v_sessions v ! a), se_parent_handle (v_sessions v ! a))"

fun ref_ok :: "('d, 'p) visa \<Rightarrow> vi_object \<Rightarrow> obj_ref \<Rightarrow> bool" where
  "ref_ok v h (Rm_ref a) \<longleftrightarrow> a < length (v_managers v) \<and> \<not> rm_closed (v_managers v ! a) \<and> distinct (rm_children (v_managers v ! a))"
| "ref_ok v h (Find_ref a) \<longleftrightarrow> a < length (v_lists v) \<and> fl_handle (v_lists v ! a) = h \<and> \<not> fl_closed (v_lists v ! a)"
| "ref_ok v h (Session_ref a) \<longleftrightarrow> a < length (v_sessions v) \<and> se_handle (v_sessions v ! a) = h \<and>
     \<not> se_closed (v_sessions v ! a) \<and> se_operations (v_sessions v ! a) = []"

text \<open>\<open>D\<close> are the managers whose children are being closed.\<close>

definition parent_ok :: "nat set \<Rightarrow> ('d, 'p) visa \<Rightarrow> vi_object \<Rightarrow> obj_ref \<Rightarrow> bool" where
  "parent_ok D v h ref \<longleftrightarrow>
     (case ref_parent v ref of
        None \<Rightarrow> True
      | Some (p, ph) \<Rightarrow> p \<in> D \<or> live v ph = Some (Rm_ref p) \<and> h \<in> set (rm_children (v_managers v ! p)))"

definition handles_ok :: "nat set \<Rightarrow> ('d, 'p) visa \<Rightarrow> bool" where
  "handles_ok D v \<longleftrightarrow>
     table_inv ref_type (v_handles v) \<and>
     (\<forall>h ref. live v h = Some ref \<longrightarrow> ref_ok v h ref \<and> parent_ok D v h ref) \<and>
     (\<forall>h a c. live v h = Some (Rm_ref a) \<and> c \<in> set (rm_children (v_managers v ! a)) \<longrightarrow>
        (\<exists>ref ph. live v c = Some ref \<and> ref_parent v ref = Some (a, ph))) \<and>
     (\<forall>h h' a. live v h = Some (Rm_ref a) \<and> live v h' = Some (Rm_ref a) \<longrightarrow> h = h') \<and>
     (\<forall>h a. live v h = Some (Rm_ref a) \<longrightarrow> a \<notin> D)"

definition lock_sites :: "('d, 'p) visa \<Rightarrow> (u32 \<times> string) set" where
  "lock_sites v = {(w, r). \<exists>a. live v w = Some (Session_ref a) \<and> se_resource (v_sessions v ! a) = r}"

definition locks_ok :: "('d, 'p) visa \<Rightarrow> bool" where
  "locks_ok v \<longleftrightarrow> lock_inv (v_locks v) \<and> (\<forall>w r. w \<in> lock_holders (v_locks v) r \<longrightarrow> (w, r) \<in> lock_sites v)"

definition world_inv :: "('d, 'p) visa \<Rightarrow> bool" where
  "world_inv v \<longleftrightarrow> handles_ok {} v \<and> locks_ok v"

lemma lock_holders_empty [simp]: "lock_holders lock_manager_empty r = {}"
  by (simp add: lock_holders_eq lock_manager_empty_def)

lemma world_inv_init [simp]: "world_inv visa_init"
  by (simp add: world_inv_def handles_ok_def locks_ok_def visa_init_def live_def handle_get_any_def
      handle_get_locked_def lock_holders_empty split: option.splits prod.splits)

lemma handles_okD:
  assumes "handles_ok D v"
  shows "table_inv ref_type (v_handles v)" and "live v h = Some ref \<Longrightarrow> ref_ok v h ref"
    and "live v h = Some ref \<Longrightarrow> parent_ok D v h ref"
    and "live v h = Some (Rm_ref a) \<Longrightarrow> c \<in> set (rm_children (v_managers v ! a)) \<Longrightarrow>
      \<exists>ref ph. live v c = Some ref \<and> ref_parent v ref = Some (a, ph)"
    and "live v h = Some (Rm_ref a) \<Longrightarrow> live v h' = Some (Rm_ref a) \<Longrightarrow> h = h'"
  using assms by (auto simp: handles_ok_def)

lemma get_manager_live: "handles_ok D v \<Longrightarrow> get_manager h v = Some a \<Longrightarrow> live v h = Some (Rm_ref a)"
  by (auto simp: get_manager_def live_def get_is_get_any split: option.splits obj_ref.splits)

lemma get_find_list_live: "handles_ok D v \<Longrightarrow> get_find_list h v = Some a \<Longrightarrow> live v h = Some (Find_ref a)"
  by (auto simp: get_find_list_def live_def get_is_get_any split: option.splits obj_ref.splits)

lemma get_session_live: "handles_ok D v \<Longrightarrow> get_session h v = Some a \<Longrightarrow> live v h = Some (Session_ref a)"
  by (auto simp: get_session_def live_def get_is_get_any split: option.splits obj_ref.splits)

section \<open>Updates of one object\<close>

text \<open>The part of an object that the invariant speaks of.\<close>

definition manager_id :: "'p resource_manager \<Rightarrow> vi_object list \<times> bool" where
  "manager_id m = (rm_children m, rm_closed m)"

definition list_id :: "find_list \<Rightarrow> nat \<times> vi_object \<times> vi_object \<times> bool" where
  "list_id l = (fl_parent l, fl_parent_handle l, fl_handle l, fl_closed l)"

definition session_id :: "'b session \<Rightarrow> nat \<times> vi_object \<times> vi_object \<times> resource_descriptor \<times> (u64 \<times> op) list \<times> bool" where
  "session_id s = (se_parent s, se_parent_handle s, se_handle s, se_descriptor s, se_operations s, se_closed s)"

definition world_id where
  "world_id v = (v_handles v, map manager_id (v_managers v), map list_id (v_lists v), map session_id (v_sessions v))"

lemma map_eq_nth: "map f xs = map f ys \<Longrightarrow> length xs = length ys \<and> (i < length xs \<longrightarrow> f (xs ! i) = f (ys ! i))"
  by (metis length_map nth_map)

lemma world_id_sel:
  fixes v v' :: "('d, 'p) visa"
  assumes "world_id v' = world_id v"
  shows "v_handles v' = v_handles v" and "length (v_managers v') = length (v_managers v)"
    and "length (v_lists v') = length (v_lists v)" and "length (v_sessions v') = length (v_sessions v)"
    and "a < length (v_managers v) \<Longrightarrow> manager_id (v_managers v' ! a) = manager_id (v_managers v ! a)"
    and "a < length (v_lists v) \<Longrightarrow> list_id (v_lists v' ! a) = list_id (v_lists v ! a)"
    and "a < length (v_sessions v) \<Longrightarrow> session_id (v_sessions v' ! a) = session_id (v_sessions v ! a)"
proof -
  have m: "map manager_id (v_managers v') = map manager_id (v_managers v)"
    "map list_id (v_lists v') = map list_id (v_lists v)" "map session_id (v_sessions v') = map session_id (v_sessions v)"
    using assms by (simp_all add: world_id_def)
  note e = m [THEN map_eq_nth]
  show "v_handles v' = v_handles v" using assms by (simp add: world_id_def)
  show "length (v_managers v') = length (v_managers v)" "length (v_lists v') = length (v_lists v)"
    "length (v_sessions v') = length (v_sessions v)" using e by blast+
  show "a < length (v_managers v) \<Longrightarrow> manager_id (v_managers v' ! a) = manager_id (v_managers v ! a)"
    "a < length (v_lists v) \<Longrightarrow> list_id (v_lists v' ! a) = list_id (v_lists v ! a)"
    "a < length (v_sessions v) \<Longrightarrow> session_id (v_sessions v' ! a) = session_id (v_sessions v ! a)"
    using e by metis+
qed

lemma live_cong: "v_handles v' = v_handles v \<Longrightarrow> live v' = live v"
  by (rule ext) (simp add: live_def)

text \<open>An update that leaves this part alone keeps the handles well-formed and the places where locks may be.\<close>

lemma handles_ok_cong:
  fixes v v' :: "('d, 'p) visa"
  assumes e: "world_id v' = world_id v" and ok: "handles_ok D v"
  shows "handles_ok D v'" and "lock_sites v' = lock_sites v"
proof -
  note sel = world_id_sel [OF e] and l = live_cong [OF world_id_sel(1) [OF e]]
  have r: "ref_ok v' h ref = ref_ok v h ref" "ref_parent v' ref = ref_parent v ref" if "live v h = Some ref" for h ref
    using handles_okD(2) [OF ok that] sel(5-7)
    by (cases ref; force simp: sel(2-4) manager_id_def list_id_def session_id_def)+
  have c: "rm_children (v_managers v' ! a) = rm_children (v_managers v ! a)" if "live v h = Some (Rm_ref a)" for h a
    using handles_okD(2) [OF ok that] sel(5) by (auto simp: manager_id_def)
  have "parent_ok D v' h ref" if "live v h = Some ref" for h ref
    using handles_okD(3) [OF ok that] c by (auto simp: parent_ok_def r(2) [OF that] l split: option.splits)
  then show "handles_ok D v'"
    unfolding handles_ok_def l sel(1)
    using handles_okD(1,2,4,5) [OF ok] ok
    by (intro conjI allI impI) (simp_all add: r c handles_ok_def, metis c r(2))
  show "lock_sites v' = lock_sites v"
    using handles_okD(2) [OF ok] sel(7) by (force simp: lock_sites_def l session_id_def)
qed

lemma map_update_same: "f x = f (xs ! a) \<Longrightarrow> map f (xs[a := x]) = map f xs"
  by (cases "a < length xs") (auto intro!: nth_equalityI simp: nth_list_update)

lemma world_id_put:
  "manager_id m = manager_id (v_managers v ! a) \<Longrightarrow> world_id (put_manager a m v) = world_id v"
  "list_id l = list_id (v_lists v ! a) \<Longrightarrow> world_id (put_list a l v) = world_id v"
  "session_id s = session_id (v_sessions v ! a) \<Longrightarrow> world_id (put_session a s v) = world_id v"
  "world_id (v\<lparr>v_locks := lm\<rparr>) = world_id v"
  by (simp_all add: world_id_def put_manager_def put_list_def put_session_def map_update_same)

lemma put_locks [simp]:
  "v_locks (put_manager a m v) = v_locks v" "v_locks (put_list a l v) = v_locks v" "v_locks (put_session a s v) = v_locks v"
  by (simp_all add: put_manager_def put_list_def put_session_def)

lemma session_id_same [simp]:
  assumes "same_but_device s s'"
  shows "session_id s' = session_id s"
proof -
  from assms obtain b n where "s' = s\<lparr>se_backend := b, se_next_operation_id := n\<rparr>"
    unfolding same_but_device_def by blast
  then show ?thesis by (simp add: session_id_def)
qed

lemma session_id_calls [simp]:
  "session_id (snd (session_set_attribute be a v s)) = session_id s"
  "session_id (snd (session_set_buffer fl n s)) = session_id s"
  "se_operations s = [] \<Longrightarrow> session_id (snd (cancel_operations be s)) = session_id s"
  by (auto simp: session_id_def session_set_attribute_def session_set_buffer_def cancel_operations_def cancel_all_def Let_def
      split: prod.splits)

lemma list_id_next [simp]: "list_id (snd (find_list_next l)) = list_id l"
  by (simp add: list_id_def find_list_next_def)

lemma manager_id_sets [simp]:
  "manager_id (snd (set_serial_path n p m)) = manager_id m"
  "manager_id (snd (set_gpib_provider b pr m)) = manager_id m"
  "manager_id (snd (set_tcpip_service_port host prot port m)) = manager_id m"
  "manager_id (snd (set_resource_alias alias d m)) = manager_id m"
  "manager_id (snd (set_usb_raw_configuration r cfg m)) = manager_id m"
  by (auto simp: manager_id_def set_serial_path_def set_gpib_provider_def set_tcpip_service_port_def
      set_resource_alias_def set_usb_raw_configuration_def Let_def split: option.splits)

section \<open>Locks stay at open sessions\<close>

definition holders_in :: "(u32 \<times> string) set \<Rightarrow> lock_manager \<Rightarrow> bool" where
  "holders_in L m \<longleftrightarrow> lock_inv m \<and> (\<forall>w r. w \<in> lock_holders m r \<longrightarrow> (w, r) \<in> L)"

text \<open>The other threads use open sessions: they are granted locks only at the sites \<open>L\<close>.\<close>

fun legal_lock_op :: "(u32 \<times> string) set \<Rightarrow> lock_op \<Rightarrow> bool" where
  "legal_lock_op L (Grant_op w r ty key) \<longleftrightarrow> (w, r) \<in> L"
| "legal_lock_op L (Release_op w r) \<longleftrightarrow> True"
| "legal_lock_op L (Release_all_op w r) \<longleftrightarrow> True"

definition legal_env :: "(u32 \<times> string) set \<Rightarrow> call_env \<Rightarrow> bool" where
  "legal_env L c \<longleftrightarrow> (\<forall>x. Other_thread x \<in> set (ce_lock_events c) \<longrightarrow> legal_lock_op L x) \<and>
     list_all (legal_lock_op L) (ce_during c) \<and> list_all (legal_lock_op L) (ce_late c)"

lemma holders_in_grant:
  assumes "holders_in L m" and "ty \<in> {VI_EXCLUSIVE_LOCK, VI_SHARED_LOCK}" and "can_grant (lock_entry m r) w ty key" and "(w, r) \<in> L"
  shows "holders_in L (snd (snd (acquire_grant w r ty ak m)))"
  using assms lock_holders_grant [OF _ assms(2,3), of ak] acquire_grant_inv [of m ty r w key ak]
  by (auto simp: holders_in_def)

lemma holders_in_release: "holders_in L m \<Longrightarrow> holders_in L (snd (snd (lock_release w r m)))"
  using lm.holders_release [of m w r] lock_release_inv [of m w r] by (force simp: holders_in_def)

lemma holders_in_exec: "holders_in L m \<Longrightarrow> legal_lock_op L c \<Longrightarrow> holders_in L (snd (exec_lock_op c m))"
proof (cases c)
  case (Grant_op w r ty key)
  then show "holders_in L m \<Longrightarrow> legal_lock_op L c \<Longrightarrow> ?thesis" using holders_in_grant [of L m ty r w key "[]"] by auto
next
  case (Release_op w r)
  then show "holders_in L m \<Longrightarrow> legal_lock_op L c \<Longrightarrow> ?thesis" using holders_in_release [of L m w r] by auto
next
  case (Release_all_op w r)
  then show "holders_in L m \<Longrightarrow> legal_lock_op L c \<Longrightarrow> ?thesis"
    by (auto simp: holders_in_def lock_holders_release_all lock_release_all_inv split: if_splits)
qed

lemma holders_in_others: "holders_in L m \<Longrightarrow> list_all (legal_lock_op L) cs \<Longrightarrow> holders_in L (other_threads cs m)"
  unfolding other_threads_def by (induction cs arbitrary: m) (auto intro: holders_in_exec simp del: exec_lock_op.simps)

lemma holders_in_remote:
  assumes "holders_in L m" and "list_all (legal_lock_op L) during" and "list_all (legal_lock_op L) late"
    and "session_lock_remote be during late ty d st key tr x m s = Some (st', key', m', s')"
  shows "holders_in L m'"
  using assms holders_in_release holders_in_others
  by (auto simp: session_lock_remote_def Let_def split: prod.splits if_splits)

lemma holders_in_lock:
  assumes "holders_in L m" and "(se_handle s, se_resource s) \<in> L" and "legal_env L c"
    and lock: "session_lock be now (ce_lock_events c) (ce_during c) (ce_late c) ty t key ak m s = Some (st, ak', m', s')"
  shows "holders_in L m'"
proof -
  obtain tr x s1 where b: "begin_operation now t s = (tr, x, s1)" by (metis prod_cases3)
  note sel = begin_backend [OF b]
  have acq: "holders_in L m1"
    if "lock_acquire (se_handle s) (se_resource s) ty t key ak (Some x) (ce_lock_events c) m = Some (st1, k, xo, m1)" for st1 k xo m1
    using that
  proof (cases rule: lock_acquire_cases)
    case (unchanged cs)
    then show ?thesis
      using holders_in_others [OF assms(1), of cs] assms(3) by (force simp: other_threads_def legal_env_def list_all_iff)
  next
    case (granted cs m0)
    have "list_all (legal_lock_op L) cs" using granted(1) assms(3) by (force simp: legal_env_def list_all_iff)
    then have "holders_in L m0" using holders_in_others [OF assms(1)] granted(2) by (simp add: other_threads_def)
    from holders_in_grant [OF this granted(3,4) assms(2), of ak] granted(5) show ?thesis by simp
  qed
  show ?thesis using lock assms(1,3) acq holders_in_remote
    by (auto simp: session_lock_def b sel Let_def legal_env_def split: if_splits option.splits prod.splits)
qed

lemma holders_in_unlock:
  assumes "holders_in L m" and "legal_env L c" and "session_unlock be now (ce_during c) m s = Some (st, m', s')"
  shows "holders_in L m'"
  using assms holders_in_release holders_in_others
  by (auto simp: session_unlock_def Let_def legal_env_def split: prod.splits if_splits) (metis snd_conv)+

lemma locks_ok_iff: "locks_ok v \<longleftrightarrow> holders_in (lock_sites v) (v_locks v)"
  by (simp add: locks_ok_def holders_in_def)

lemma world_inv_cong:
  fixes v v' :: "('d, 'p) visa"
  assumes "world_inv v" and "world_id v' = world_id v" and "holders_in (lock_sites v) (v_locks v')"
  shows "world_inv v'"
  using handles_ok_cong [OF assms(2), of "{}"] assms by (simp add: world_inv_def locks_ok_iff)

lemma world_inv_same:
  fixes v v' :: "('d, 'p) visa"
  assumes "world_inv v" and "world_id v' = world_id v" and "v_locks v' = v_locks v"
  shows "world_inv v'"
  using world_inv_cong [OF assms(1,2)] assms by (simp add: world_inv_def locks_ok_iff)

section \<open>Registering children\<close>

lemma live_insert:
  assumes "table_inv ref_type (v_handles v)" and "handle_insert ref_type ty (Some ref) (v_handles v) = Inr (h, slots)"
    and "v_handles v' = slots"
  shows "live v h = None" and "live v' = (live v)(h \<mapsto> ref)" and "table_inv ref_type slots"
  using get_any_insert [OF assms(1,2)] table_inv_insert [OF assms(1,2)] assms(3) by (simp_all add: live_def fun_eq_iff)

lemma live_remove:
  assumes "table_inv ref_type (v_handles v)" and "v_handles v' = snd (handle_remove h (v_handles v))"
  shows "live v' = (live v)(h := None)" and "table_inv ref_type (v_handles v')"
  using get_any_remove [OF assms(1), of h] table_inv_remove [OF assms(1), of h] assms(2) by (simp_all add: live_def fun_eq_iff)

text \<open>A new child: a find list or a session whose handle has just been inserted and added to its manager.\<close>

lemma handles_ok_new_child:
  fixes v v' :: "('d, 'p) visa"
  assumes ok: "handles_ok {} v" and mgr: "live v ph = Some (Rm_ref a)"
    and fresh: "live v h = None" and l: "live v' = (live v)(h \<mapsto> ref)" and tab: "table_inv ref_type (v_handles v')"
    and mgrs: "v_managers v' = (v_managers v)[a := m]" "rm_children m = List.insert h (rm_children (v_managers v ! a))" "\<not> rm_closed m"
    and lists: "\<And>b. b < length (v_lists v) \<Longrightarrow> v_lists v' ! b = v_lists v ! b" "length (v_lists v) \<le> length (v_lists v')"
    and sessions: "\<And>b. b < length (v_sessions v) \<Longrightarrow> v_sessions v' ! b = v_sessions v ! b" "length (v_sessions v) \<le> length (v_sessions v')"
    and new: "ref_ok v' h ref" "ref_parent v' ref = Some (a, ph)"
  shows "handles_ok {} v'"
proof -
  note D = handles_okD [OF ok]
  from D(2) [OF mgr] have a: "a < length (v_managers v)" "distinct (rm_children (v_managers v ! a))" by simp_all
  have ch: "rm_children (v_managers v' ! b) = (if b = a then List.insert h (rm_children (v_managers v ! a)) else rm_children (v_managers v ! b))"
    if "b < length (v_managers v)" for b using that a by (simp add: mgrs nth_list_update)
  have cl: "rm_closed (v_managers v' ! b) = (if b = a then False else rm_closed (v_managers v ! b))"
    if "b < length (v_managers v)" for b using that a mgrs by (simp add: nth_list_update)
  have par: "ref_parent v' r = ref_parent v r" if "live v k = Some r" for k r
    using D(2) [OF that] lists(1) sessions(1) by (cases r) auto
  have old: "ref_ok v' k r \<and> parent_ok {} v' k r" if k: "live v k = Some r" for k r
  proof
    show "ref_ok v' k r"
      using D(2) [OF k] lists sessions a ch cl by (cases r) (auto simp: mgrs(1))
    from D(3) [OF k] show "parent_ok {} v' k r"
      using fresh ch D(2) by (force simp: parent_ok_def par [OF k] l split: option.splits)
  qed
  have newp: "parent_ok {} v' h ref" using new mgr fresh ch [OF a(1)] by (auto simp: parent_ok_def l)
  have kids: "\<exists>r ph'. live v' c = Some r \<and> ref_parent v' r = Some (b, ph')"
    if b: "live v k = Some (Rm_ref b)" and c: "c \<in> set (rm_children (v_managers v' ! b))" for k b c
  proof (cases "c = h")
    case True
    then have "b = a"
      using c ch D(2) [OF b] D(4) [OF b, of h] fresh by (auto split: if_splits)
    with True new l show ?thesis by auto
  next
    case False
    with c ch D(2) [OF b] have "c \<in> set (rm_children (v_managers v ! b))" by (auto split: if_splits)
    from D(4) [OF b this] False par l show ?thesis by auto
  qed
  have nr: "ref \<noteq> Rm_ref b" for b using new(2) by auto
  have lv: "live v' k = Some r \<Longrightarrow> live v k = Some r \<or> k = h \<and> r = ref" for k r by (auto simp: l split: if_splits)
  show ?thesis
    unfolding handles_ok_def using tab old new(1) newp kids D(5) lv nr by (intro conjI allI impI) blast+
qed

section \<open>Closing children\<close>

text \<open>A child is closed: its handle is gone, its manager no longer lists it.\<close>

lemma handles_ok_drop_child:
  fixes v v' :: "('d, 'p) visa"
  assumes ok: "handles_ok D v" and ref: "live v h = Some ref" "ref_parent v ref = Some (p, ph)"
    and l: "live v' = (live v)(h := None)" and tab: "table_inv ref_type (v_handles v')"
    and mgrs: "v_managers v' = (v_managers v)[p := remove_child h (v_managers v ! p)]"
    and lists: "\<And>k b. live v k = Some (Find_ref b) \<Longrightarrow> k \<noteq> h \<Longrightarrow> v_lists v' ! b = v_lists v ! b" "length (v_lists v') = length (v_lists v)"
    and sessions: "\<And>k b. live v k = Some (Session_ref b) \<Longrightarrow> k \<noteq> h \<Longrightarrow> v_sessions v' ! b = v_sessions v ! b"
      "length (v_sessions v') = length (v_sessions v)"
  shows "handles_ok D v'"
proof -
  note H = handles_okD [OF ok]
  have ch: "rm_children (v_managers v' ! b) = (if b = p then remove1 h (rm_children (v_managers v ! p)) else rm_children (v_managers v ! b))"
    "rm_closed (v_managers v' ! b) = rm_closed (v_managers v ! b)"
    if "b < length (v_managers v)" for b using that by (cases "b = p"; simp add: mgrs remove_child_def)+
  have par: "ref_parent v' r = ref_parent v r" if "live v k = Some r" "k \<noteq> h" for k r
    using that lists(1) sessions(1) by (cases r) auto
  have old: "ref_ok v' k r \<and> parent_ok D v' k r" if k: "live v k = Some r" "k \<noteq> h" for k r
  proof
    show "ref_ok v' k r"
      using H(2) [OF k(1)] k lists sessions ch by (cases r) (auto simp: mgrs distinct_remove1)
    have "live v h \<noteq> Some (Rm_ref q)" for q using ref by auto
    with H(3) [OF k(1)] show "parent_ok D v' k r"
      using ch H(2) k(2) by (force simp: parent_ok_def par [OF k] l split: option.splits)
  qed
  have kids: "\<exists>r ph'. live v' c = Some r \<and> ref_parent v' r = Some (b, ph')"
    if b: "live v k = Some (Rm_ref b)" "k \<noteq> h" and c: "c \<in> set (rm_children (v_managers v' ! b))" for k b c
  proof -
    from H(2) [OF b(1)] have bl: "b < length (v_managers v)" "distinct (rm_children (v_managers v ! b))" by simp_all
    with c ch(1) [OF bl(1)] have c1: "c \<in> set (rm_children (v_managers v ! b))" by (auto split: if_splits dest: notin_set_remove1)
    from H(4) [OF b(1) c1] obtain r ph' where r: "live v c = Some r" "ref_parent v r = Some (b, ph')" by auto
    have "c \<noteq> h"
    proof
      assume "c = h"
      with r ref have "b = p" by auto
      with c ch(1) [OF bl(1)] bl(2) \<open>c = h\<close> show False by simp
    qed
    with r par l show ?thesis by auto
  qed
  have lv: "live v' k = Some r \<Longrightarrow> live v k = Some r \<and> k \<noteq> h" for k r by (auto simp: l split: if_splits)
  have nd: "live v k = Some (Rm_ref b) \<Longrightarrow> b \<notin> D" for k b using ok by (auto simp: handles_ok_def)
  show ?thesis
    unfolding handles_ok_def
  proof (intro conjI allI impI)
    fix k r assume "live v' k = Some r"
    with old lv show "ref_ok v' k r" "parent_ok D v' k r" by blast+
  next
    fix k b c assume "live v' k = Some (Rm_ref b) \<and> c \<in> set (rm_children (v_managers v' ! b))"
    with kids lv show "\<exists>r ph. live v' c = Some r \<and> ref_parent v' r = Some (b, ph)" by blast
  next
    fix k k' b assume "live v' k = Some (Rm_ref b) \<and> live v' k' = Some (Rm_ref b)"
    with lv H(5) show "k = k'" by blast
  next
    fix k b assume "live v' k = Some (Rm_ref b)"
    with lv nd show "b \<notin> D" by blast
  qed (rule tab)
qed

lemma close_begin_parent [simp]:
  "se_parent (session_close_begin be s) = se_parent s" "se_parent_handle (session_close_begin be s) = se_parent_handle s"
  by (simp_all add: session_close_begin_def Let_def)

lemma session_ref_inj:
  assumes "handles_ok D v" and "live v h = Some (Session_ref a)" and "live v k = Some (Session_ref a)"
  shows "k = h"
  using handles_okD(2) [OF assms(1,2)] handles_okD(2) [OF assms(1,3)] by simp

lemma find_ref_inj:
  assumes "handles_ok D v" and "live v h = Some (Find_ref a)" and "live v k = Some (Find_ref a)"
  shows "k = h"
  using handles_okD(2) [OF assms(1,2)] handles_okD(2) [OF assms(1,3)] by simp

lemma close_session_eq:
  assumes ok: "handles_ok D v" and ref: "live v h = Some (Session_ref a)"
  defines "s \<equiv> v_sessions v ! a"
  shows "close_session be a (v\<lparr>v_handles := slots\<rparr>) =
    Some (v\<lparr>v_handles := slots, v_sessions := (v_sessions v)[a := session_close_begin be s],
            v_locks := snd (lock_release_all h (se_resource s) (v_locks v)),
            v_managers := (v_managers v)[se_parent s := remove_child h (v_managers v ! se_parent s)]\<rparr>)"
  using handles_okD(2) [OF ok ref]
  by (simp add: close_session_def session_close_def cancel_all_def put_session_def put_manager_def s_def Let_def)

lemma close_session_locks:
  assumes ok: "handles_ok D v" "locks_ok v" and ref: "live v h = Some (Session_ref a)"
    and l: "live v' = (live v)(h := None)" and sess: "\<And>k b. live v k = Some (Session_ref b) \<Longrightarrow> k \<noteq> h \<Longrightarrow> v_sessions v' ! b = v_sessions v ! b"
    and lm: "v_locks v' = snd (lock_release_all h (se_resource (v_sessions v ! a)) (v_locks v))"
  shows "locks_ok v'"
proof -
  have inv: "lock_inv (v_locks v)" using ok(2) by (simp add: locks_ok_def)
  have "(w, r) \<in> lock_sites v'" if "w \<in> lock_holders (v_locks v') r" for w r
  proof -
    from that have h: "w \<in> lock_holders (v_locks v) r" and n: "\<not> (w = h \<and> r = se_resource (v_sessions v ! a))"
      by (auto simp: lm lock_holders_release_all [OF inv] split: if_splits)
    from h ok(2) obtain b where b: "live v w = Some (Session_ref b)" "se_resource (v_sessions v ! b) = r"
      by (auto simp: locks_ok_def lock_sites_def)
    with n ref have "w \<noteq> h" by auto
    with b sess l show ?thesis by (auto simp: lock_sites_def)
  qed
  then show ?thesis by (simp add: locks_ok_def lm lock_release_all_inv [OF inv])
qed

text \<open>Closing a child through its handle.\<close>

lemma close_child_ok:
  fixes v :: "('d, 'p) visa"
  assumes ok: "handles_ok D v" "locks_ok v" and c: "live v c = Some ref" "ref_parent v ref = Some (p, ph)"
  obtains v2 where "close_object be ref (v\<lparr>v_handles := snd (handle_remove c (v_handles v))\<rparr>) = Some v2"
    and "handles_ok D v2" and "locks_ok v2" and "live v2 = (live v)(c := None)"
    and "\<And>k r. live v k = Some r \<Longrightarrow> k \<noteq> c \<Longrightarrow> ref_parent v2 r = ref_parent v r"
    and "v_managers v2 = (v_managers v)[p := remove_child c (v_managers v ! p)]"
proof -
  let ?slots = "snd (handle_remove c (v_handles v))"
  note tab = handles_okD(1) [OF ok(1)]
  show thesis
  proof (cases ref)
    case (Session_ref a)
    define s where "s = v_sessions v ! a"
    define v2 where "v2 = v\<lparr>v_handles := ?slots, v_sessions := (v_sessions v)[a := session_close_begin be s],
            v_locks := snd (lock_release_all c (se_resource s) (v_locks v)),
            v_managers := (v_managers v)[se_parent s := remove_child c (v_managers v ! se_parent s)]\<rparr>"
    have p: "se_parent s = p" using c Session_ref by (simp add: s_def)
    have l: "live v2 = (live v)(c := None)" and t: "table_inv ref_type (v_handles v2)"
      by (rule live_remove [OF tab], simp add: v2_def)+
    have others: "v_sessions v2 ! b = v_sessions v ! b" if "live v k = Some (Session_ref b)" "k \<noteq> c" for k b
      using that session_ref_inj [OF ok(1), of c a k] c(1) Session_ref by (cases "b = a") (auto simp: v2_def)
    have "close_object be ref (v\<lparr>v_handles := ?slots\<rparr>) = Some v2"
      using close_session_eq [OF ok(1), of c a be ?slots] c(1) Session_ref by (simp add: close_object_def v2_def s_def)
    moreover have "handles_ok D v2"
      by (rule handles_ok_drop_child [OF ok(1) c l t]) (simp_all add: v2_def p [symmetric] others [unfolded v2_def, simplified])
    moreover have "locks_ok v2"
      by (rule close_session_locks [OF ok c(1) [unfolded Session_ref] l others]) (simp_all add: v2_def s_def)
    moreover have "ref_parent v2 r = ref_parent v r" if "live v k = Some r" "k \<noteq> c" for k r
      using that others by (cases r) (simp_all add: v2_def)
    ultimately show thesis using that l p by (simp add: v2_def)
  next
    case (Find_ref a)
    define l0 where "l0 = v_lists v ! a"
    define v2 where "v2 = v\<lparr>v_handles := ?slots, v_lists := (v_lists v)[a := find_list_close l0],
            v_managers := (v_managers v)[fl_parent l0 := remove_child c (v_managers v ! fl_parent l0)]\<rparr>"
    have p: "fl_parent l0 = p" "fl_handle l0 = c" using c Find_ref handles_okD(2) [OF ok(1) c(1)] by (simp_all add: l0_def)
    have l: "live v2 = (live v)(c := None)" and t: "table_inv ref_type (v_handles v2)"
      by (rule live_remove [OF tab], simp add: v2_def)+
    have others: "v_lists v2 ! b = v_lists v ! b" if "live v k = Some (Find_ref b)" "k \<noteq> c" for k b
      using that find_ref_inj [OF ok(1), of c a k] c(1) Find_ref by (cases "b = a") (auto simp: v2_def)
    have "close_object be ref (v\<lparr>v_handles := ?slots\<rparr>) = Some v2"
      using p by (simp add: close_object_def Find_ref close_find_list_def put_list_def put_manager_def v2_def l0_def Let_def)
    moreover have "handles_ok D v2"
      by (rule handles_ok_drop_child [OF ok(1) c l t]) (simp_all add: v2_def p [symmetric] others [unfolded v2_def, simplified])
    moreover have "locks_ok v2"
    proof -
      have "live v2 w = Some (Session_ref b) \<longleftrightarrow> live v w = Some (Session_ref b)" for w b
        using l c(1) Find_ref by auto
      moreover have "v_sessions v2 = v_sessions v" "v_locks v2 = v_locks v" by (simp_all add: v2_def)
      ultimately show ?thesis using ok(2) by (simp add: locks_ok_def lock_sites_def)
    qed
    moreover have "ref_parent v2 r = ref_parent v r" if "live v k = Some r" "k \<noteq> c" for k r
      using that others by (cases r) (simp_all add: v2_def)
    ultimately show thesis using that l p by (simp add: v2_def)
  qed (use c in simp)
qed

lemma handle_remove_live: "handle_remove h (v_handles v) = (live v h, snd (handle_remove h (v_handles v)))"
  by (simp add: live_def prod_eq_iff handle_remove_fst)

lemma close_children_child:
  assumes "live v c = Some ref" and "ref_parent v ref \<noteq> None"
  shows "close_children be (c # cs) v =
    (case close_object be ref (v\<lparr>v_handles := snd (handle_remove c (v_handles v))\<rparr>) of None \<Rightarrow> None | Some v' \<Rightarrow> close_children be cs v')"
proof -
  obtain slots where "handle_remove c (v_handles v) = (Some ref, slots)"
    using handle_remove_live [of c v] assms(1) by metis
  with assms show ?thesis by (cases ref) (simp_all add: close_object_def)
qed

lemma close_children_ok:
  fixes v :: "('d, 'p) visa"
  assumes "handles_ok D v" and "locks_ok v" and "\<forall>c\<in>set cs. \<forall>r. live v c = Some r \<longrightarrow> ref_parent v r \<noteq> None"
  shows "\<exists>v'. close_children be cs v = Some v' \<and> handles_ok D v' \<and> locks_ok v' \<and>
           live v' = (\<lambda>h. if h \<in> set cs then None else live v h) \<and>
           (\<forall>k r. live v' k = Some r \<longrightarrow> ref_parent v' r = ref_parent v r)"
  using assms
proof (induction cs arbitrary: v)
  case (Cons c cs)
  show ?case
  proof (cases "live v c")
    case None
    then have "close_children be (c # cs) v = close_children be cs v"
      by (simp add: handle_remove_None [OF None [unfolded live_def]])
    with Cons.IH [OF Cons.prems(1,2)] Cons.prems(3) None show ?thesis by (auto simp: fun_eq_iff)
  next
    case (Some ref)
    with Cons.prems(3) obtain p ph where p: "ref_parent v ref = Some (p, ph)" by auto
    from Cons.prems(1,2) Some p obtain v2 where
      v2: "close_object be ref (v\<lparr>v_handles := snd (handle_remove c (v_handles v))\<rparr>) = Some v2"
        "handles_ok D v2" "locks_ok v2" "live v2 = (live v)(c := None)"
      and par: "\<And>k r. live v k = Some r \<Longrightarrow> k \<noteq> c \<Longrightarrow> ref_parent v2 r = ref_parent v r"
      by (rule close_child_ok [where be = be]) blast
    have "\<forall>c\<in>set cs. \<forall>r. live v2 c = Some r \<longrightarrow> ref_parent v2 r \<noteq> None"
      using Cons.prems(3) par by (auto simp: v2(4) split: if_splits)
    from Cons.IH [OF v2(2,3) this] obtain v' where
      v': "close_children be cs v2 = Some v'" "handles_ok D v'" "locks_ok v'"
        "live v' = (\<lambda>h. if h \<in> set cs then None else live v2 h)"
      and par': "\<forall>k r. live v' k = Some r \<longrightarrow> ref_parent v' r = ref_parent v2 r" by blast
    have "close_children be (c # cs) v = Some v'"
      using close_children_child [OF Some, of be cs] p v2(1) v'(1) by simp
    moreover have "ref_parent v' r = ref_parent v r" if "live v' k = Some r" for k r
      using that par' par [of k r] v'(4) v2(4) by (auto split: if_splits)
    ultimately show ?thesis using v' v2(4) by (auto simp: fun_eq_iff)
  qed
qed (simp add: fun_eq_iff)

lemma close_manager_start:
  fixes v :: "('d, 'p) visa"
  assumes ok: "handles_ok {} v" "locks_ok v" and h: "live v h = Some (Rm_ref a)"
  defines "v1 \<equiv> put_manager a (snd (take_children (v_managers v ! a))) (v\<lparr>v_handles := snd (handle_remove h (v_handles v))\<rparr>)"
  shows "handles_ok {a} v1" and "locks_ok v1" and "live v1 = (live v)(h := None)" and "ref_parent v1 = ref_parent v"
proof -
  note H = handles_okD [OF ok(1)]
  have l: "live v1 = (live v)(h := None)" and t: "table_inv ref_type (v_handles v1)"
    by (rule live_remove [OF H(1)], simp add: v1_def put_manager_def)+
  have mgr: "v_managers v1 ! b = v_managers v ! b" if "b \<noteq> a" for b using that by (simp add: v1_def put_manager_def)
  have par: "ref_parent v1 r = ref_parent v r" for r by (cases r) (simp_all add: v1_def put_manager_def)
  then show "ref_parent v1 = ref_parent v" by blast
  have lv: "live v1 k = Some r \<Longrightarrow> live v k = Some r \<and> k \<noteq> h \<and> r \<noteq> Rm_ref a" for k r
    using H(5) [OF h, of k] by (auto simp: l split: if_splits)
  show "handles_ok {a} v1" unfolding handles_ok_def
  proof (intro conjI allI impI)
    fix k r assume k: "live v1 k = Some r"
    with lv have k': "live v k = Some r" "r \<noteq> Rm_ref a" "k \<noteq> h" by blast+
    from H(2) [OF k'(1)] k'(2) show "ref_ok v1 k r" by (cases r) (auto simp: mgr v1_def put_manager_def)
    from H(3) [OF k'(1)] show "parent_ok {a} v1 k r"
      using h by (auto simp: parent_ok_def par l mgr split: option.splits)
  next
    fix k b c assume "live v1 k = Some (Rm_ref b) \<and> c \<in> set (rm_children (v_managers v1 ! b))"
    then have b: "live v k = Some (Rm_ref b)" "b \<noteq> a" and c1: "c \<in> set (rm_children (v_managers v1 ! b))" using lv by blast+
    from c1 have c: "c \<in> set (rm_children (v_managers v ! b))" by (simp add: mgr [OF b(2)])
    from H(4) [OF b(1) c] obtain r ph where r: "live v c = Some r" "ref_parent v r = Some (b, ph)" by blast
    with h have "c \<noteq> h" by auto
    with r show "\<exists>r ph. live v1 c = Some r \<and> ref_parent v1 r = Some (b, ph)" by (auto simp: l par)
  next
    fix k k' b assume "live v1 k = Some (Rm_ref b) \<and> live v1 k' = Some (Rm_ref b)"
    with lv H(5) show "k = k'" by blast
  next
    fix k b assume "live v1 k = Some (Rm_ref b)"
    with lv show "b \<notin> {a}" by blast
  qed (rule t)
  have "live v1 w = Some (Session_ref b) \<longleftrightarrow> live v w = Some (Session_ref b)" for w b using l h by auto
  moreover have "v_sessions v1 = v_sessions v" "v_locks v1 = v_locks v" by (simp_all add: v1_def put_manager_def)
  ultimately show "locks_ok v1" using ok(2) by (simp add: locks_ok_def lock_sites_def)
  show "live v1 = (live v)(h := None)" by (rule l)
qed

lemma handles_ok_closed:
  assumes "handles_ok {a} v" and "\<And>k r ph. live v k = Some r \<Longrightarrow> ref_parent v r \<noteq> Some (a, ph)"
  shows "handles_ok {} v"
proof -
  have "parent_ok {} v k r" if "live v k = Some r" for k r
    using handles_okD(3) [OF assms(1) that] assms(2) [OF that] by (auto simp: parent_ok_def split: option.splits)
  with assms(1) show ?thesis unfolding handles_ok_def by blast
qed

lemma close_manager_ok:
  fixes v :: "('d, 'p) visa"
  assumes ok: "world_inv v" and h: "live v h = Some (Rm_ref a)"
  shows "\<exists>v'. close_manager be a (v\<lparr>v_handles := snd (handle_remove h (v_handles v))\<rparr>) = Some v' \<and> world_inv v' \<and>
     live v' = (\<lambda>k. if k = h \<or> k \<in> set (rm_children (v_managers v ! a)) then None else live v k)"
proof -
  from ok have ok': "handles_ok {} v" "locks_ok v" by (simp_all add: world_inv_def)
  note H = handles_okD [OF ok'(1)] and st = close_manager_start [OF ok' h]
  let ?v1 = "put_manager a (snd (take_children (v_managers v ! a))) (v\<lparr>v_handles := snd (handle_remove h (v_handles v))\<rparr>)"
  let ?cs = "rm_children (v_managers v ! a)"
  have "\<forall>c\<in>set ?cs. \<forall>r. live ?v1 c = Some r \<longrightarrow> ref_parent ?v1 r \<noteq> None"
    using H(4) [OF h] by (fastforce simp: st(3,4) split: if_splits)
  from close_children_ok [OF st(1,2) this, of be] obtain v' where
    v': "close_children be ?cs ?v1 = Some v'" "handles_ok {a} v'" "locks_ok v'"
      "live v' = (\<lambda>k. if k \<in> set ?cs then None else live ?v1 k)"
    and par: "\<forall>k r. live v' k = Some r \<longrightarrow> ref_parent v' r = ref_parent ?v1 r" by blast
  have "ref_parent v' r \<noteq> Some (a, ph)" if "live v' k = Some r" for k r ph
  proof
    assume "ref_parent v' r = Some (a, ph)"
    with that par st(4) have r: "ref_parent v r = Some (a, ph)" by metis
    from that v'(4) st(3) have "live v k = Some r" "k \<notin> set ?cs" by (auto split: if_splits)
    with H(3) r show False by (force simp: parent_ok_def)
  qed
  from handles_ok_closed [OF v'(2) this] v'(3) have "world_inv v'" by (simp add: world_inv_def)
  moreover have "close_manager be a (v\<lparr>v_handles := snd (handle_remove h (v_handles v))\<rparr>) = Some v'"
    using v'(1) by (simp add: close_manager_def take_children_def)
  ultimately show ?thesis using v'(4) st(3) by (auto simp: fun_eq_iff)
qed

text \<open>Everything that a call of \<open>viClose\<close> can do.\<close>

lemma viClose_ok:
  fixes v :: "('d, 'p) visa"
  assumes ok: "world_inv v"
  shows "\<exists>st v'. viClose be h v = Some (st, v') \<and> world_inv v' \<and>
     st = (if live v h = None then VI_ERROR_INV_OBJECT else VI_SUCCESS) \<and>
     live v' = (\<lambda>k. if k = h \<or> (\<exists>a. live v h = Some (Rm_ref a) \<and> k \<in> set (rm_children (v_managers v ! a))) then None else live v k)"
proof -
  have eq: "viClose be h v = (case live v h of None \<Rightarrow> Some (VI_ERROR_INV_OBJECT, v\<lparr>v_handles := snd (handle_remove h (v_handles v))\<rparr>)
      | Some ob \<Rightarrow> map_option (\<lambda>v2. (VI_SUCCESS, v2)) (close_object be ob (v\<lparr>v_handles := snd (handle_remove h (v_handles v))\<rparr>)))"
    unfolding viClose_def by (subst handle_remove_live) (simp split: option.splits)
  from ok have ok': "handles_ok {} v" "locks_ok v" by (simp_all add: world_inv_def)
  show ?thesis
  proof (cases "live v h")
    case None
    then have "v\<lparr>v_handles := snd (handle_remove h (v_handles v))\<rparr> = v"
      by (simp add: handle_remove_None [OF None [unfolded live_def]])
    with None ok eq show ?thesis by (auto simp: fun_eq_iff)
  next
    case (Some ref)
    show ?thesis
    proof (cases "ref_parent v ref")
      case None
      with Some obtain a where "live v h = Some (Rm_ref a)" by (cases ref) auto
      with close_manager_ok [OF ok this, of be] eq show ?thesis by (auto simp: close_object_def fun_eq_iff)
    next
      case (Some q)
      then obtain p ph where "ref_parent v ref = Some (p, ph)" by (cases q) simp
      with ok' \<open>live v h = Some ref\<close> obtain v2 where
        "close_object be ref (v\<lparr>v_handles := snd (handle_remove h (v_handles v))\<rparr>) = Some v2" "handles_ok {} v2" "locks_ok v2"
        "live v2 = (live v)(h := None)" by (rule close_child_ok [where be = be]) blast
      moreover have "live v h \<noteq> Some (Rm_ref a)" for a using Some \<open>live v h = Some ref\<close> by auto
      ultimately show ?thesis using eq \<open>live v h = Some ref\<close> by (auto simp: world_inv_def fun_eq_iff)
    qed
  qed
qed

section \<open>New objects\<close>

lemma lock_sites_cong:
  assumes "\<And>w b. live v' w = Some (Session_ref b) \<longleftrightarrow> live v w = Some (Session_ref b)" and "v_sessions v' = v_sessions v"
  shows "lock_sites v' = lock_sites v"
  using assms by (simp add: lock_sites_def)

lemma api_error_neg [simp]: "api_error e < 0"
  by (cases e) (simp_all add: api_error_def)

lemma register_child_eq:
  assumes "\<not> rm_closed (v_managers v ! a)"
  shows "register_child be a ref v =
    (case handle_insert ref_type (ref_type ref) (Some ref) (v_handles v) of
       Inl e \<Rightarrow> Some (api_error e, VI_NULL, v)
     | Inr (h, slots) \<Rightarrow> Some (VI_SUCCESS, h, put_manager a (snd (add_child h (v_managers v ! a))) (v\<lparr>v_handles := slots\<rparr>)))"
  using assms by (auto simp: register_child_def add_child_def split: sum.splits)

text \<open>Allocating an object that no handle refers to.\<close>

lemma world_inv_alloc:
  fixes v v' :: "('d, 'p) visa"
  assumes ok: "world_inv v" and e: "v_handles v' = v_handles v" "v_managers v' = v_managers v" "v_locks v' = v_locks v"
    and ls: "v_lists v' = v_lists v @ ls" and ss: "v_sessions v' = v_sessions v @ ss"
  shows "world_inv v'" and "live v' = live v"
proof -
  from ok have ok': "handles_ok {} v" by (simp add: world_inv_def)
  note H = handles_okD [OF ok'] and l = live_cong [OF e(1)]
  have r: "ref_ok v' k r = ref_ok v k r" "ref_parent v' r = ref_parent v r" if "live v k = Some r" for k r
    using H(2) [OF that] by (cases r; simp add: e ls ss nth_append)+
  have p: "parent_ok {} v' k r" if "live v k = Some r" for k r
    using H(3) [OF that] by (auto simp: parent_ok_def r(2) [OF that] l e split: option.splits)
  have "handles_ok {} v'" unfolding handles_ok_def l e(1,2)
  proof (intro conjI allI impI)
    fix k b c assume "live v k = Some (Rm_ref b) \<and> c \<in> set (rm_children (v_managers v ! b))"
    with H(4) obtain r0 ph where "live v c = Some r0" "ref_parent v r0 = Some (b, ph)" by blast
    with r(2) show "\<exists>r0 ph. live v c = Some r0 \<and> ref_parent v' r0 = Some (b, ph)" by metis
  next
    fix k k' b assume "live v k = Some (Rm_ref b) \<and> live v k' = Some (Rm_ref b)"
    with H(5) show "k = k'" by blast
  qed (simp_all add: H(1,2) r p)
  moreover have "se_resource (v_sessions v' ! b) = se_resource (v_sessions v ! b)" if "live v k = Some (Session_ref b)" for k b
    using H(2) [OF that] by (simp add: ss nth_append)
  then have "lock_sites v' = lock_sites v" by (auto simp: lock_sites_def l)
  ultimately show "world_inv v'" using ok by (simp add: world_inv_def locks_ok_iff e)
  show "live v' = live v" by (rule l)
qed

lemma new_session_ok:
  fixes v :: "('d, 'p) visa" and d :: resource_descriptor and dev :: "'d device"
  assumes ok: "world_inv v" and mgr: "live v ph = Some (Rm_ref a)"
    and ins: "handle_insert ref_type Type_session (Some (Session_ref (length (v_sessions v)))) (v_handles v) = Inr (h, slots)"
  defines "v3 \<equiv> v\<lparr>v_handles := slots, v_managers := (v_managers v)[a := snd (add_child h (v_managers v ! a))],
                 v_sessions := v_sessions v @ [(session_new a ph d dev)\<lparr>se_handle := h\<rparr>]\<rparr>"
  shows "world_inv v3" and "live v h = None" and "live v3 = (live v)(h \<mapsto> Session_ref (length (v_sessions v)))"
    and "lock_sites v3 = insert (h, canonical_name d) (lock_sites v)"
proof -
  from ok have ok': "handles_ok {} v" by (simp add: world_inv_def)
  note H = handles_okD [OF ok']
  have i: "live v h = None" "live v3 = (live v)(h \<mapsto> Session_ref (length (v_sessions v)))" "table_inv ref_type slots"
    using live_insert [OF H(1) ins, of v3] by (simp_all add: v3_def)
  show "live v h = None" "live v3 = (live v)(h \<mapsto> Session_ref (length (v_sessions v)))" by (rule i)+
  have open_mgr: "\<not> rm_closed (v_managers v ! a)" using H(2) [OF mgr] by simp
  have "handles_ok {} v3"
    by (rule handles_ok_new_child [OF ok' mgr i(1,2), where m = "snd (add_child h (v_managers v ! a))"])
       (use i(3) open_mgr in \<open>simp_all add: v3_def add_child_def nth_append session_new_def\<close>)
  moreover have sites: "lock_sites v3 = insert (h, canonical_name d) (lock_sites v)"
  proof -
    have "v_sessions v3 ! b = v_sessions v ! b" if "live v k = Some (Session_ref b)" for k b
      using H(2) [OF that] by (simp add: v3_def nth_append)
    moreover have "se_resource (v_sessions v3 ! length (v_sessions v)) = canonical_name d"
      by (simp add: v3_def session_new_def)
    ultimately show ?thesis using i(1) by (auto simp: lock_sites_def i(2) split: if_splits)
  qed
  ultimately show "world_inv v3" "lock_sites v3 = insert (h, canonical_name d) (lock_sites v)"
    using ok by (auto simp: world_inv_def locks_ok_def v3_def)
qed

lemma new_list_ok:
  fixes v :: "('d, 'p) visa" and ms :: "string list"
  assumes ok: "world_inv v" and mgr: "live v ph = Some (Rm_ref a)"
    and ins: "handle_insert ref_type Type_find_list (Some (Find_ref (length (v_lists v)))) (v_handles v) = Inr (h, slots)"
  defines "v3 \<equiv> v\<lparr>v_handles := slots, v_managers := (v_managers v)[a := snd (add_child h (v_managers v ! a))],
                 v_lists := v_lists v @ [(find_list_new a ph ms)\<lparr>fl_handle := h\<rparr>]\<rparr>"
  shows "world_inv v3" and "live v h = None" and "live v3 = (live v)(h \<mapsto> Find_ref (length (v_lists v)))"
proof -
  from ok have ok': "handles_ok {} v" by (simp add: world_inv_def)
  note H = handles_okD [OF ok']
  have i: "live v h = None" "live v3 = (live v)(h \<mapsto> Find_ref (length (v_lists v)))" "table_inv ref_type slots"
    using live_insert [OF H(1) ins, of v3] by (simp_all add: v3_def)
  show "live v h = None" "live v3 = (live v)(h \<mapsto> Find_ref (length (v_lists v)))" by (rule i)+
  have open_mgr: "\<not> rm_closed (v_managers v ! a)" using H(2) [OF mgr] by simp
  have "handles_ok {} v3"
    by (rule handles_ok_new_child [OF ok' mgr i(1,2), where m = "snd (add_child h (v_managers v ! a))"])
       (use i(3) open_mgr in \<open>simp_all add: v3_def add_child_def nth_append find_list_new_def\<close>)
  moreover have "lock_sites v3 = lock_sites v"
    by (rule lock_sites_cong) (use i(1) in \<open>auto simp: i(2)\<close>, simp add: v3_def)
  ultimately show "world_inv v3" using ok by (simp add: world_inv_def locks_ok_iff v3_def)
qed

lemma new_manager_ok:
  fixes v :: "('d, 'p) visa" and sp :: "(u16 \<times> string) list" and gp up :: "string list"
  assumes ok: "world_inv v"
    and ins: "handle_insert ref_type Type_resource_manager (Some (Rm_ref (length (v_managers v)))) (v_handles v) = Inr (h, slots)"
  defines "v3 \<equiv> v\<lparr>v_handles := slots, v_managers := v_managers v @ [resource_manager_new sp gp up]\<rparr>"
  shows "world_inv v3" and "live v h = None" and "live v3 = (live v)(h \<mapsto> Rm_ref (length (v_managers v)))"
proof -
  from ok have ok': "handles_ok {} v" by (simp add: world_inv_def)
  note H = handles_okD [OF ok']
  have i: "live v h = None" "live v3 = (live v)(h \<mapsto> Rm_ref (length (v_managers v)))" "table_inv ref_type slots"
    using live_insert [OF H(1) ins, of v3] by (simp_all add: v3_def)
  show "live v h = None" "live v3 = (live v)(h \<mapsto> Rm_ref (length (v_managers v)))" by (rule i)+
  have par: "ref_parent v3 r = ref_parent v r" for r by (cases r) (simp_all add: v3_def)
  have old: "ref_ok v3 k r \<and> parent_ok {} v3 k r" if k: "live v k = Some r" for k r
  proof
    show "ref_ok v3 k r" using H(2) [OF k] by (cases r) (auto simp: v3_def nth_append)
    have "v_managers v3 ! p = v_managers v ! p \<and> ph \<noteq> h" if "live v ph = Some (Rm_ref p)" for p ph
      using H(2) [OF that] that i(1) by (auto simp: v3_def nth_append)
    then show "parent_ok {} v3 k r"
      using H(3) [OF k] by (auto simp: parent_ok_def par i(2) split: option.splits)
  qed
  have new: "ref_ok v3 h (Rm_ref (length (v_managers v)))" "parent_ok {} v3 h (Rm_ref (length (v_managers v)))"
    "rm_children (v_managers v3 ! length (v_managers v)) = []"
    by (simp_all add: v3_def resource_manager_new_def parent_ok_def)
  have lv: "live v3 k = Some r \<Longrightarrow> live v k = Some r \<or> k = h \<and> r = Rm_ref (length (v_managers v))" for k r
    by (auto simp: i(2) split: if_splits)
  have less: "live v k = Some (Rm_ref b) \<Longrightarrow> b < length (v_managers v)" for k b using H(2) by fastforce
  have "handles_ok {} v3" unfolding handles_ok_def
  proof (intro conjI allI impI)
    fix k r assume "live v3 k = Some r"
    with lv old new show "ref_ok v3 k r" "parent_ok {} v3 k r" by blast+
  next
    fix k b c assume a: "live v3 k = Some (Rm_ref b) \<and> c \<in> set (rm_children (v_managers v3 ! b))"
    with lv new(3) have b: "live v k = Some (Rm_ref b)" by fastforce
    with a less have "c \<in> set (rm_children (v_managers v ! b))" by (force simp: v3_def nth_append)
    from H(4) [OF b this] i(1) show "\<exists>r ph. live v3 c = Some r \<and> ref_parent v3 r = Some (b, ph)" by (auto simp: i(2) par)
  next
    fix k k' b assume "live v3 k = Some (Rm_ref b) \<and> live v3 k' = Some (Rm_ref b)"
    with lv less H(5) show "k = k'" by (metis less_irrefl obj_ref.inject(1))
  qed (simp_all add: v3_def i(3))
  moreover have "lock_sites v3 = lock_sites v"
    by (rule lock_sites_cong) (use i(1) in \<open>auto simp: i(2)\<close>, simp add: v3_def)
  ultimately show "world_inv v3" using ok by (simp add: world_inv_def locks_ok_iff v3_def)
qed

section \<open>Calls that create objects\<close>

lemma insert_not_null:
  assumes "table_inv ref_type slots" and "handle_insert ref_type ty ob slots = Inr (h, slots')"
  shows "h \<noteq> 0"
proof
  assume "h = 0"
  moreover have "handle_decode 0 = None" by (simp add: handle_decode_def)
  ultimately show False using handle_insert_cases [OF assms] by auto
qed

lemma viOpenDefaultRM_ok:
  fixes v v' :: "('d, 'p) visa"
  assumes ok: "world_inv v" and call: "viOpenDefaultRM pf hv v = (st, out, v')"
  shows "world_inv v'" and "if st < 0 then v' = v else \<exists>h. out = Some h \<and> live v h = None \<and> live v' = (live v)(h \<mapsto> Rm_ref (length (v_managers v)))"
  using call new_manager_ok [OF ok] ok
  by (auto simp: viOpenDefaultRM_def Let_def split: if_splits sum.splits)

lemma viFindRsrc_ok:
  fixes v v' :: "('d, 'p) visa"
  assumes ok: "world_inv v" and call: "viFindRsrc be sesn expr hv hc hs v = Some (st, out, cnt, desc, v')"
  shows "world_inv v'" and "st < 0 \<Longrightarrow> live v' = live v"
proof -
  from ok have ok': "handles_ok {} v" by (simp add: world_inv_def)
  have "world_inv v' \<and> (st < 0 \<longrightarrow> live v' = live v)"
  proof (cases "v' = v")
    case False
    with call obtain a ms status h v2 where a: "get_manager sesn v = Some a"
      and reg: "register_child be a (Find_ref (length (v_lists v))) (v\<lparr>v_lists := v_lists v @ [find_list_new a sesn ms]\<rparr>) =
        Some (status, h, v2)"
      and res: "status < 0 \<and> v' = v2 \<or>
        status \<ge> 0 \<and> st = 0 \<and> v' = put_list (length (v_lists v)) ((v_lists v2 ! length (v_lists v))\<lparr>fl_handle := h\<rparr>) v2"
      by (auto simp: viFindRsrc_def Let_def split: option.splits if_splits parsed.splits prod.splits)
    note mgr = get_manager_live [OF ok' a]
    let ?v1 = "v\<lparr>v_lists := v_lists v @ [find_list_new a sesn ms]\<rparr>"
    have "\<not> rm_closed (v_managers ?v1 ! a)" using handles_okD(2) [OF ok' mgr] by simp
    note reg' = reg [unfolded register_child_eq [OF this]]
    show ?thesis
    proof (cases "handle_insert ref_type Type_find_list (Some (Find_ref (length (v_lists v)))) (v_handles v)")
      case (Inl e)
      with reg' res api_error_neg [of e] have "v' = ?v1" by auto
      with world_inv_alloc [OF ok, of ?v1] show ?thesis by simp
    next
      case (Inr r)
      with reg' obtain slots where ins: "handle_insert ref_type Type_find_list (Some (Find_ref (length (v_lists v)))) (v_handles v) = Inr (h, slots)"
        by (cases r) auto
      with reg' res have "st = 0" "v' = v\<lparr>v_handles := slots, v_managers := (v_managers v)[a := snd (add_child h (v_managers v ! a))],
          v_lists := v_lists v @ [(find_list_new a sesn ms)\<lparr>fl_handle := h\<rparr>]\<rparr>"
        by (auto simp: put_list_def put_manager_def)
      with new_list_ok(1) [OF ok mgr ins] show ?thesis by simp
    qed
  qed (use ok in simp)
  then show "world_inv v'" "st < 0 \<Longrightarrow> live v' = live v" by blast+
qed

lemma holders_in_mono: "holders_in L m \<Longrightarrow> L \<subseteq> L' \<Longrightarrow> holders_in L' m"
  by (auto simp: holders_in_def)

lemma legal_lock_op_mono: "legal_lock_op L c \<Longrightarrow> L \<subseteq> L' \<Longrightarrow> legal_lock_op L' c"
  by (cases c) auto

lemma legal_env_mono: "legal_env L c \<Longrightarrow> L \<subseteq> L' \<Longrightarrow> legal_env L' c"
  using legal_lock_op_mono by (fastforce simp: legal_env_def list_all_iff)

lemma open_lock_ok:
  fixes v v' :: "('d, 'p) visa"
  assumes ok: "world_inv v" and env: "legal_env (lock_sites v) c" and h: "live v h = Some (Session_ref sa)"
    and call: "open_lock be c ty t h sa v = Some (st, out, v')"
  shows "world_inv v'" and "out = Some h \<and> st \<ge> 0 \<and> live v' = live v \<or> st < 0 \<and> out = Some 0 \<and> live v' = (live v)(h := None)"
proof -
  from ok have ok': "handles_ok {} v" "holders_in (lock_sites v) (v_locks v)" by (simp_all add: world_inv_def locks_ok_iff)
  note r = handles_okD(2) [OF ok'(1) h]
  have site: "(se_handle (v_sessions v ! sa), se_resource (v_sessions v ! sa)) \<in> lock_sites v"
    using h r by (auto simp: lock_sites_def)
  have "world_inv v' \<and> (out = Some h \<and> st \<ge> 0 \<and> live v' = live v \<or> st < 0 \<and> out = Some 0 \<and> live v' = (live v)(h := None))"
  proof (cases "ty = VI_NO_LOCK")
    case True
    with call ok show ?thesis by (simp add: open_lock_def)
  next
    case False
    then obtain ls key lm s' where
      lock: "session_lock be (ce_now c) (ce_lock_events c) (ce_during c) (ce_late c) ty t None [] (v_locks v) (v_sessions v ! sa) =
        Some (ls, key, lm, s')"
      using call by (auto simp: open_lock_def split: option.splits)
    define v4 where "v4 = (put_session sa s' v)\<lparr>v_locks := lm\<rparr>"
    have e: "world_id v4 = world_id v"
      unfolding v4_def by (simp add: world_id_put session_id_same [OF session_lock_same [OF lock]])
    have hm: "holders_in (lock_sites v) (v_locks v4)"
      using holders_in_lock [OF ok'(2) site env lock] by (simp add: v4_def)
    note ok4 = world_inv_cong [OF ok e hm]
    have l4: "live v4 = live v" by (rule live_cong [OF world_id_sel(1) [OF e]])
    have ok4': "handles_ok {} v4" "locks_ok v4" using ok4 by (simp_all add: world_inv_def)
    show ?thesis
    proof (cases "ls \<ge> 0")
      case True
      with call False lock have "st = ls" "out = Some h" "v' = v4" by (simp_all add: open_lock_def v4_def)
      with True ok4 l4 show ?thesis by simp
    next
      case neg: False
      obtain slots where sl: "handle_remove h (v_handles v4) = (Some (Session_ref sa), slots)"
        using handle_remove_live [of h v4] l4 h by metis
      have h4: "live v4 h = Some (Session_ref sa)" using l4 h by simp
      have p4: "ref_parent v4 (Session_ref sa) = Some (se_parent (v_sessions v4 ! sa), se_parent_handle (v_sessions v4 ! sa))" by simp
      have slots: "snd (handle_remove h (v_handles v4)) = slots" by (simp add: sl)
      note v6' = close_child_ok [OF ok4' h4 p4, where be = be, unfolded slots]
      obtain v6 where
        v6: "close_object be (Session_ref sa) (v4\<lparr>v_handles := slots\<rparr>) = Some v6" "handles_ok {} v6" "locks_ok v6"
          "live v6 = (live v4)(h := None)" by (rule v6') (rule that)
      have "open_lock be c ty t h sa v = Some (ls, Some 0, v6)"
        using False neg unfolding open_lock_def lock option.case prod.case Let_def v4_def [symmetric] sl by (simp add: v6(1))
      with call v6 l4 neg show ?thesis by (simp add: world_inv_def)
    qed
  qed
  then show "world_inv v'" and "out = Some h \<and> st \<ge> 0 \<and> live v' = live v \<or> st < 0 \<and> out = Some 0 \<and> live v' = (live v)(h := None)"
    by blast+
qed

lemma viOpen_ok:
  fixes v v' :: "('d, 'p) visa"
  assumes ok: "world_inv v" and env: "legal_env (lock_sites v) c" and call: "viOpen pf c sesn name mode t hv v = Some (st, out, v')"
  shows "world_inv v'" and "out \<in> {None, Some 0} \<and> live v' = live v \<and> (st < 0 \<or> (\<exists>m d. open_backend pf m d t = Inl st)) \<or>
      (\<exists>h. out = Some h \<and> h \<noteq> 0 \<and> st \<ge> 0 \<and> live v h = None \<and> live v' = (live v)(h \<mapsto> Session_ref (length (v_sessions v))))"
proof -
  from ok have ok': "handles_ok {} v" by (simp add: world_inv_def)
  have "world_inv v' \<and> (out \<in> {None, Some 0} \<and> live v' = live v \<and> (st < 0 \<or> (\<exists>m d. open_backend pf m d t = Inl st)) \<or>
      (\<exists>h. out = Some h \<and> h \<noteq> 0 \<and> st \<ge> 0 \<and> live v h = None \<and> live v' = (live v)(h \<mapsto> Session_ref (length (v_sessions v)))))"
  proof (cases "v' = v \<and> out \<in> {None, Some 0} \<and> (st < 0 \<or> (\<exists>m d. open_backend pf m d t = Inl st))")
    case False
    with call obtain a d dev where a: "get_manager sesn v = Some a"
      and reg: "(case register_child (call_ops pf c) a (Session_ref (length (v_sessions v))) (v\<lparr>v_sessions := v_sessions v @ [session_new a sesn d dev]\<rparr>) of
          None \<Rightarrow> None
        | Some (status, h, v2) \<Rightarrow>
            if status < VI_SUCCESS then Some (status, Some VI_NULL, v2)
            else open_lock (call_ops pf c) c (mode AND (VI_EXCLUSIVE_LOCK OR VI_SHARED_LOCK)) t h (length (v_sessions v))
              (put_session (length (v_sessions v)) ((v_sessions v2 ! length (v_sessions v))\<lparr>se_handle := h\<rparr>) v2)) = Some (st, out, v')"
      by (auto simp: viOpen_def Let_def split: option.splits if_splits sum.splits prod.splits)
    note mgr = get_manager_live [OF ok' a]
    let ?v1 = "v\<lparr>v_sessions := v_sessions v @ [session_new a sesn d dev]\<rparr>"
    have "\<not> rm_closed (v_managers ?v1 ! a)" using handles_okD(2) [OF ok' mgr] by simp
    note reg' = reg [unfolded register_child_eq [OF this]]
    show ?thesis
    proof (cases "handle_insert ref_type Type_session (Some (Session_ref (length (v_sessions v)))) (v_handles v)")
      case (Inl e)
      with reg' api_error_neg [of e] have "v' = ?v1" "out = Some 0" "st < 0" by simp_all
      with world_inv_alloc [OF ok, of ?v1] show ?thesis by simp
    next
      case (Inr r)
      then obtain h slots where ins: "handle_insert ref_type Type_session (Some (Session_ref (length (v_sessions v)))) (v_handles v) = Inr (h, slots)"
        by (cases r) auto
      define v3 where "v3 = v\<lparr>v_handles := slots, v_managers := (v_managers v)[a := snd (add_child h (v_managers v ! a))],
          v_sessions := v_sessions v @ [(session_new a sesn d dev)\<lparr>se_handle := h\<rparr>]\<rparr>"
      note n = new_session_ok(1) [OF ok mgr ins, where d = d and dev = dev, folded v3_def]
        new_session_ok(2) [OF ok mgr ins]
        new_session_ok(3,4) [OF ok mgr ins, where d = d and dev = dev, folded v3_def]
      have ol: "open_lock (call_ops pf c) c (mode AND (VI_EXCLUSIVE_LOCK OR VI_SHARED_LOCK)) t h (length (v_sessions v)) v3 = Some (st, out, v')"
        using reg' ins by (simp add: put_session_def put_manager_def v3_def)
      have env3: "legal_env (lock_sites v3) c" by (rule legal_env_mono [OF env]) (auto simp: n(4))
      have h3: "live v3 h = Some (Session_ref (length (v_sessions v)))" by (simp add: n(3))
      note res = open_lock_ok [OF n(1) env3 h3 ol]
      have "(live v3)(h := None) = live v" using n(2,3) by (auto simp: fun_eq_iff)
      with res n insert_not_null [OF handles_okD(1) [OF ok'] ins] show ?thesis by auto
    qed
  qed (use ok in auto)
  then show "world_inv v'" and "out \<in> {None, Some 0} \<and> live v' = live v \<and> (st < 0 \<or> (\<exists>m d. open_backend pf m d t = Inl st)) \<or>
      (\<exists>h. out = Some h \<and> h \<noteq> 0 \<and> st \<ge> 0 \<and> live v h = None \<and> live v' = (live v)(h \<mapsto> Session_ref (length (v_sessions v))))"
    by blast+
qed

text \<open>The creators of device backends report a failure when they return no device. \<open>viOpen\<close> returns their status as it is
  (the provider's is replaced by the code when it is not an error).\<close>

definition creators_report_failure :: "('d, 'p) platform \<Rightarrow> bool" where
  "creators_report_failure pf \<longleftrightarrow>
     (\<forall>host port t. snd (pf_tcp pf host port t) = None \<longrightarrow> fst (pf_tcp pf host port t) < 0) \<and>
     (\<forall>host dev t port. snd (pf_hislip pf host dev t port) = None \<longrightarrow> fst (pf_hislip pf host dev t port) < 0) \<and>
     (\<forall>host dev t port. snd (pf_vxi11 pf host dev t port) = None \<longrightarrow> fst (pf_vxi11 pf host dev t port) < 0) \<and>
     (\<forall>path. snd (pf_serial pf path) = None \<longrightarrow> fst (pf_serial pf path) < 0) \<and>
     (\<forall>d t. snd (pf_gpib pf d t) = None \<longrightarrow> fst (pf_gpib pf d t) < 0) \<and>
     (\<forall>d t. snd (pf_usbtmc pf d t) = None \<longrightarrow> fst (pf_usbtmc pf d t) < 0) \<and>
     (\<forall>d cfg t. snd (pf_usb_raw pf d cfg t) = None \<longrightarrow> fst (pf_usb_raw pf d cfg t) < 0)"

lemma as_device_fails: "as_device r = Inl st \<Longrightarrow> snd r = None \<and> fst r = st"
  by (cases r) (auto simp: as_device_def split: option.splits)

lemma open_backend_fails:
  assumes "creators_report_failure pf" and "open_backend pf m d t = Inl st"
  shows "st < 0"
  using assms(2) assms(1)
  by (auto simp: open_backend_def creators_report_failure_def Let_def dest!: as_device_fails
      split: resource_kind.splits option.splits if_splits prod.splits)

end
