(* ===== verification/Visa_Calls.thy ===== *)
theory Visa_Calls
  imports Visa_World
begin

text \<open>
  Sequences of calls of the exported functions. A call is a value of \<open>api_call\<close>, \<open>run_call\<close> executes it with the
  function of the same name, and \<open>api_step\<close> is the transition system of the library in which other threads lock only
  through sessions they have opened. Every reachable state is well-formed; on that rest the end-to-end properties.
\<close>

section \<open>Calls\<close>

datatype api_call =
    Open_default_rm bool
  | Find_rsrc vi_object "string option" bool bool bool
  | Find_next vi_object bool
  | Parse_rsrc vi_object "string option" bool bool
  | Parse_rsrc_ex vi_object "string option" bool bool
  | Open vi_object "string option" u32 u32 bool
  | Close vi_object
  | Set_attribute vi_object u32 u64
  | Get_attribute vi_object u32 bool
  | Status_desc vi_object vi_status bool
  | Terminate vi_object u16 u32
  | Lock vi_object u32 u32 "string option" bool
  | Unlock vi_object
  | Read vi_object bool u32 bool
  | Write vi_object "byte list option" bool
  | Assert_trigger vi_object u16
  | Read_stb vi_object bool
  | Clear vi_object
  | Set_buf vi_object u16 u32
  | Flush vi_object u16
  | Set_serial_path vi_object u16 "string option"
  | Set_tcpip_service_port vi_object "string option" u16 u16
  | Set_resource_alias vi_object "string option" "string option"
  | Set_usb_raw_config vi_object "string option" "usb_raw_config option"
  | Set_prologix_controller vi_object u16 "string option" "prologix_controller_config option"
  | Usb_control_transfer vi_object "usb_control_request option" "byte list option" u32 bool

fun run_call :: "('d, 'p) platform \<Rightarrow> call_env \<Rightarrow> api_call \<Rightarrow> ('d, 'p) visa \<Rightarrow> (vi_status \<times> ('d, 'p) visa) option" where
  "run_call pf c (Open_default_rm hv) v = (case viOpenDefaultRM pf hv v of (st, _, v') \<Rightarrow> Some (st, v'))"
| "run_call pf c (Find_rsrc h e hv hc hs) v = map_option (\<lambda>(st, _, _, _, v'). (st, v')) (viFindRsrc (call_ops pf c) h e hv hc hs v)"
| "run_call pf c (Find_next h hs) v = (case viFindNext h hs v of (st, _, v') \<Rightarrow> Some (st, v'))"
| "run_call pf c (Parse_rsrc h n ht hn) v = Some (fst (viParseRsrc h n ht hn v), v)"
| "run_call pf c (Parse_rsrc_ex h n ht hn) v = Some (fst (viParseRsrcEx h n ht hn v), v)"
| "run_call pf c (Open h n md t hv) v = map_option (\<lambda>(st, _, v'). (st, v')) (viOpen pf c h n md t hv v)"
| "run_call pf c (Close h) v = viClose (call_ops pf c) h v"
| "run_call pf c (Set_attribute h a x) v = Some (viSetAttribute (call_ops pf c) h a x v)"
| "run_call pf c (Get_attribute h a hv) v = Some (fst (viGetAttribute (call_ops pf c) h a hv v), v)"
| "run_call pf c (Status_desc h st hs) v = Some (fst (viStatusDesc h st hs v), v)"
| "run_call pf c (Terminate h dg job) v = Some (viTerminate (call_ops pf c) h dg job v)"
| "run_call pf c (Lock h ty t key hk) v = map_option (\<lambda>(st, _, v'). (st, v')) (viLock (call_ops pf c) c h ty t key hk v)"
| "run_call pf c (Unlock h) v = viUnlock (call_ops pf c) c h v"
| "run_call pf c (Read h hb n hc) v = map_option (\<lambda>(st, _, _, v'). (st, v')) (viRead (call_ops pf c) (ce_now c) h hb n hc v)"
| "run_call pf c (Write h bs hc) v = map_option (\<lambda>(st, _, v'). (st, v')) (viWrite (call_ops pf c) (ce_now c) h bs hc v)"
| "run_call pf c (Assert_trigger h pr) v = viAssertTrigger (call_ops pf c) (ce_now c) h pr v"
| "run_call pf c (Read_stb h hs) v = map_option (\<lambda>(st, _, v'). (st, v')) (viReadSTB (call_ops pf c) (ce_now c) h hs v)"
| "run_call pf c (Clear h) v = viClear (call_ops pf c) (ce_now c) h v"
| "run_call pf c (Set_buf h fl n) v = Some (viSetBuf h fl n v)"
| "run_call pf c (Flush h fl) v = Some (viFlush (call_ops pf c) (ce_now c) h fl v)"
| "run_call pf c (Set_serial_path h n path) v = Some (wrvisaSetSerialPath h n path v)"
| "run_call pf c (Set_tcpip_service_port h host pr port) v = Some (wrvisaSetTcpipServicePort h host pr port v)"
| "run_call pf c (Set_resource_alias h al n) v = Some (wrvisaSetResourceAlias h al n v)"
| "run_call pf c (Set_usb_raw_config h n cfg) v = Some (wrvisaSetUsbRawConfig h n cfg v)"
| "run_call pf c (Set_prologix_controller h board ep cfg) v = Some (wrvisaSetPrologixController pf h board ep cfg v)"
| "run_call pf c (Usb_control_transfer h rq bs n hc) v =
     (case wrvisaUsbControlTransfer (call_ops pf c) (ce_now c) h rq bs n hc v of (st, _, _, v') \<Rightarrow> Some (st, v'))"

text \<open>The handle a call is made on.\<close>

fun call_target :: "api_call \<Rightarrow> vi_object option" where
  "call_target (Open_default_rm hv) = None"
| "call_target (Find_rsrc h e hv hc hs) = Some h"
| "call_target (Find_next h hs) = Some h"
| "call_target (Parse_rsrc h n ht hn) = Some h"
| "call_target (Parse_rsrc_ex h n ht hn) = Some h"
| "call_target (Open h n md t hv) = Some h"
| "call_target (Close h) = Some h"
| "call_target (Set_attribute h a x) = Some h"
| "call_target (Get_attribute h a hv) = Some h"
| "call_target (Status_desc h st hs) = Some h"
| "call_target (Terminate h dg job) = Some h"
| "call_target (Lock h ty t key hk) = Some h"
| "call_target (Unlock h) = Some h"
| "call_target (Read h hb n hc) = Some h"
| "call_target (Write h bs hc) = Some h"
| "call_target (Assert_trigger h pr) = Some h"
| "call_target (Read_stb h hs) = Some h"
| "call_target (Clear h) = Some h"
| "call_target (Set_buf h fl n) = Some h"
| "call_target (Flush h fl) = Some h"
| "call_target (Set_serial_path h n path) = Some h"
| "call_target (Set_tcpip_service_port h host pr port) = Some h"
| "call_target (Set_resource_alias h al n) = Some h"
| "call_target (Set_usb_raw_config h n cfg) = Some h"
| "call_target (Set_prologix_controller h board ep cfg) = Some h"
| "call_target (Usb_control_transfer h rq bs n hc) = Some h"

text \<open>The calls that can wait for another thread or for the device without a bound in the model.\<close>

fun may_block :: "api_call \<Rightarrow> bool" where
  "may_block (Open h n md t hv) = True"
| "may_block (Lock h ty t key hk) = True"
| "may_block (Unlock h) = True"
| "may_block (Read h hb n hc) = True"
| "may_block (Write h bs hc) = True"
| "may_block (Assert_trigger h pr) = True"
| "may_block (Read_stb h hs) = True"
| "may_block (Clear h) = True"
| "may_block _ = False"

inductive api_step :: "('d, 'p) platform \<Rightarrow> ('d, 'p) visa \<Rightarrow> ('d, 'p) visa \<Rightarrow> bool" for pf where
  api_call: "legal_env (lock_sites v) c \<Longrightarrow> run_call pf c call v = Some (st, v') \<Longrightarrow> api_step pf v v'"

inductive_cases api_stepE: "api_step pf v v'"

definition api_reachable :: "('d, 'p) platform \<Rightarrow> ('d, 'p) visa \<Rightarrow> bool" where
  "api_reachable pf v \<longleftrightarrow> (api_step pf)\<^sup>*\<^sup>* visa_init v"

section \<open>Every call preserves the invariant\<close>

fun creates_or_closes :: "api_call \<Rightarrow> bool" where
  "creates_or_closes (Open_default_rm hv) = True"
| "creates_or_closes (Find_rsrc h e hv hc hs) = True"
| "creates_or_closes (Open h n md t hv) = True"
| "creates_or_closes (Close h) = True"
| "creates_or_closes _ = False"

lemma session_id_io:
  "session_read be now lm n s = Some (st, bs, k, s') \<Longrightarrow> session_id s' = session_id s"
  "session_write be now lm bs s = Some (st, k, s') \<Longrightarrow> session_id s' = session_id s"
  "session_clear be now lm s = Some (st, s') \<Longrightarrow> session_id s' = session_id s"
  "session_flush be now lm fl s = (st, s') \<Longrightarrow> session_id s' = session_id s"
  "session_read_stb be now lm out s = Some (st, k', s') \<Longrightarrow> session_id s' = session_id s"
  "session_assert_trigger be now lm pr s = Some (st, s') \<Longrightarrow> session_id s' = session_id s"
  "session_usb_control be now lm rt rq x i bs s = (st, bs', k, s') \<Longrightarrow> session_id s' = session_id s"
  using session_io_same [of be now lm "Io_read n" s st s'] session_io_same [of be now lm "Io_write bs" s st s']
    session_io_same [of be now lm "Io_clear" s st s'] session_io_same [of be now lm "Io_flush fl" s st s']
    session_io_same [of be now lm "Io_read_stb out" s st s'] session_io_same [of be now lm "Io_assert_trigger pr" s st s']
    session_io_same [of be now lm "Io_usb_control rt rq x i bs" s st s']
  by auto

lemma session_id_others:
  "session_lock be now evs during late ty t key ak lm s = Some (st, ak', lm', s') \<Longrightarrow> session_id s' = session_id s"
  "session_unlock be now during lm s = Some (st, lm', s') \<Longrightarrow> session_id s' = session_id s"
  "session_set_attribute be a x s = (st, s') \<Longrightarrow> session_id s' = session_id s"
  "session_set_buffer fl n s = (st, s') \<Longrightarrow> session_id s' = session_id s"
  "se_operations s = [] \<Longrightarrow> cancel_operations be s = (st, s') \<Longrightarrow> session_id s' = session_id s"
  using session_lock_same [of be now evs during late ty t key ak lm s st ak' lm' s'] session_unlock_same [of be now during lm s st lm' s']
    session_id_calls(1) [of be a x s] session_id_calls(2) [of fl n s] session_id_calls(3) [of s be]
  by auto

lemma manager_id_config:
  "set_serial_path n path m = (b, m') \<Longrightarrow> manager_id m' = manager_id m"
  "set_gpib_provider n pr m = (b, m') \<Longrightarrow> manager_id m' = manager_id m"
  "set_tcpip_service_port host prot port m = (b, m') \<Longrightarrow> manager_id m' = manager_id m"
  "set_resource_alias al d m = (b, m') \<Longrightarrow> manager_id m' = manager_id m"
  "set_usb_raw_configuration r cfg m = (b, m') \<Longrightarrow> manager_id m' = manager_id m"
  using manager_id_sets(1) [of n path m] manager_id_sets(2) [of n pr m] manager_id_sets(3) [of host prot port m]
    manager_id_sets(4) [of al d m] manager_id_sets(5) [of r cfg m] by auto

lemma list_id_next': "find_list_next l = (x, l') \<Longrightarrow> list_id l' = list_id l"
  using list_id_next [of l] by simp

lemmas part_kept = session_id_io session_id_others manager_id_config list_id_next'

text \<open>The calls on one object change nothing of what the invariant speaks of, except that locking changes the locks.\<close>

lemma simple_call_keeps:
  fixes v v' :: "('d, 'p) visa"
  assumes ok: "world_inv v" and call: "run_call pf c call v = Some (st, v')" and simple: "\<not> creates_or_closes call"
  shows "world_id v' = world_id v"
proof -
  from ok have ok': "handles_ok {} v" by (simp add: world_inv_def)
  have idle: "se_operations (v_sessions v ! a) = []" if "get_session h v = Some a" for h a
    using handles_okD(2) [OF ok' get_session_live [OF ok' that]] by simp
  show ?thesis
  proof (cases call)
    case (Terminate h dg job)
    with call idle show ?thesis
      by (auto simp: viTerminate_def Let_def split: option.splits if_splits prod.splits intro!: world_id_put session_id_others(5))
  next
    case (Set_usb_raw_config h n cfg)
    with call show ?thesis
      by (auto simp: wrvisaSetUsbRawConfig_def Let_def split: option.splits if_splits prod.splits intro!: world_id_put intro: part_kept)
  next
    case (Set_prologix_controller h board ep cfg)
    with call show ?thesis
      by (auto simp: wrvisaSetPrologixController_def Let_def split: option.splits if_splits prod.splits intro!: world_id_put intro: part_kept)
  next
    case (Usb_control_transfer h rq bs n hc)
    with call show ?thesis
      by (auto simp: wrvisaUsbControlTransfer_def Let_def split: option.splits if_splits prod.splits intro!: world_id_put intro: part_kept)
  qed (use call simple in \<open>auto simp: viFindNext_def viSetAttribute_def viLock_def viUnlock_def viRead_def viWrite_def
      viAssertTrigger_def viReadSTB_def viClear_def viSetBuf_def viFlush_def wrvisaSetSerialPath_def
      wrvisaSetTcpipServicePort_def wrvisaSetResourceAlias_def Let_def world_id_put(4)
      split: option.splits if_splits prod.splits intro!: world_id_put(1-3) intro: part_kept\<close>)
qed

lemma simple_call_locks:
  fixes v v' :: "('d, 'p) visa"
  assumes ok: "world_inv v" and env: "legal_env (lock_sites v) c" and call: "run_call pf c call v = Some (st, v')"
    and simple: "\<not> creates_or_closes call"
  shows "holders_in (lock_sites v) (v_locks v')"
proof -
  from ok have ok': "handles_ok {} v" "holders_in (lock_sites v) (v_locks v)" by (simp_all add: world_inv_def locks_ok_iff)
  have site: "(se_handle (v_sessions v ! a), se_resource (v_sessions v ! a)) \<in> lock_sites v" if "get_session h v = Some a" for h a
    using get_session_live [OF ok'(1) that] handles_okD(2) [OF ok'(1) get_session_live [OF ok'(1) that]] by (auto simp: lock_sites_def)
  show ?thesis
  proof (cases call)
    case (Lock h ty t key hk)
    with call ok'(2) show ?thesis
      by (auto simp: viLock_def split: option.splits prod.splits dest: holders_in_lock [OF ok'(2) site env])
  next
    case (Unlock h)
    with call ok'(2) show ?thesis
      by (auto simp: viUnlock_def split: option.splits prod.splits dest: holders_in_unlock [OF ok'(2) env])
  next
    case (Set_usb_raw_config h n cfg)
    with call ok'(2) show ?thesis by (auto simp: wrvisaSetUsbRawConfig_def Let_def split: option.splits if_splits prod.splits)
  next
    case (Set_prologix_controller h board ep cfg)
    with call ok'(2) show ?thesis by (auto simp: wrvisaSetPrologixController_def Let_def split: option.splits if_splits prod.splits)
  next
    case (Usb_control_transfer h rq bs n hc)
    with call ok'(2) show ?thesis by (auto simp: wrvisaUsbControlTransfer_def Let_def split: option.splits if_splits prod.splits)
  qed (use call simple ok'(2) in \<open>auto simp: viFindNext_def viSetAttribute_def viTerminate_def viRead_def viWrite_def
      viAssertTrigger_def viReadSTB_def viClear_def viSetBuf_def viFlush_def wrvisaSetSerialPath_def
      wrvisaSetTcpipServicePort_def wrvisaSetResourceAlias_def Let_def
      split: option.splits if_splits prod.splits\<close>)
qed

lemma run_call_inv:
  fixes v v' :: "('d, 'p) visa"
  assumes ok: "world_inv v" and env: "legal_env (lock_sites v) c" and call: "run_call pf c call v = Some (st, v')"
  shows "world_inv v'"
proof (cases "creates_or_closes call")
  case True
  then consider hv where "call = Open_default_rm hv" | h e hv hc hs where "call = Find_rsrc h e hv hc hs"
    | h n md t hv where "call = Open h n md t hv" | h where "call = Close h" by (cases call) auto
  then show ?thesis
  proof cases
    case 1
    with call viOpenDefaultRM_ok(1) [OF ok] show ?thesis by (auto split: prod.splits)
  next
    case 2
    with call viFindRsrc_ok(1) [OF ok] show ?thesis by auto
  next
    case 3
    with call viOpen_ok(1) [OF ok env] show ?thesis by auto
  next
    case 4
    with call viClose_ok [OF ok, of "call_ops pf c" h] show ?thesis by auto
  qed
next
  case False
  with world_inv_cong [OF ok] simple_call_keeps [OF ok call] simple_call_locks [OF ok env call] show ?thesis by blast
qed

interpretation visa_calls: transition_invariant "api_step pf" world_inv
  by unfold_locales (auto elim!: api_stepE intro: run_call_inv)

lemma reachable_inv: "api_reachable pf v \<Longrightarrow> world_inv v"
  unfolding api_reachable_def by (erule visa_calls.reach_inv) (rule world_inv_init)

section \<open>Example states\<close>

text \<open>A platform without devices, and the states after opening a manager and then the mock resource.\<close>

definition no_device :: "unit backend_ops" where
  "no_device = \<lparr>be_read = (\<lambda>b x n ro. Some (VI_ERROR_NSUP_OPER, [], 0, x, b)), be_write = (\<lambda>b x bs wo. Some (VI_ERROR_NSUP_OPER, 0, x, b)),
     be_clear = (\<lambda>b x. Some (VI_ERROR_NSUP_OPER, x, b)), be_flush = (\<lambda>b x m. (VI_ERROR_NSUP_OPER, x, b)),
     be_read_stb = (\<lambda>b x out. Some (VI_ERROR_NSUP_OPER, None, x, b)), be_assert_trigger = (\<lambda>b x pr. Some (VI_ERROR_NSUP_OPER, x, b)),
     be_usb_control = default_usb_control, be_lock = default_lock, be_unlock = default_unlock,
     be_set_attribute = default_set_attribute, be_get_attribute = default_get_attribute,
     be_close = (\<lambda>b. b), be_notify_cancel = (\<lambda>b. b)\<rparr>"

definition example_platform :: "(unit, unit) platform" where
  "example_platform = \<lparr>pf_serial_ports = [], pf_gpib_resources = [], pf_usb_resources = [], pf_device = no_device,
     pf_tcp = (\<lambda>host port t. (VI_ERROR_RSRC_NFOUND, None)), pf_hislip = (\<lambda>host dev t port. (VI_ERROR_RSRC_NFOUND, None)),
     pf_vxi11 = (\<lambda>host dev t port. (VI_ERROR_RSRC_NFOUND, None)), pf_serial = (\<lambda>path. (VI_ERROR_RSRC_NFOUND, None)),
     pf_gpib_provider = (\<lambda>p d t. (None, None)), pf_gpib = (\<lambda>d t. (VI_ERROR_RSRC_NFOUND, None)),
     pf_usbtmc = (\<lambda>d t. (VI_ERROR_RSRC_NFOUND, None)), pf_usb_raw = (\<lambda>d cfg t. (VI_ERROR_RSRC_NFOUND, None)),
     pf_prologix = (\<lambda>board cfg. (VI_ERROR_RSRC_NFOUND, None))\<rparr>"

definition idle_env :: call_env where
  "idle_env = \<lparr>ce_now = 0, ce_mock_events = [], ce_race = None, ce_lock_events = [], ce_during = [], ce_late = []\<rparr>"

definition manager_state :: "(unit, unit) visa" where
  "manager_state = \<lparr>v_handles = [\<lparr>slot_object = Some (Rm_ref 0), slot_generation = 1, slot_type = Type_resource_manager, slot_retired = False\<rparr>],
     v_managers = [resource_manager_new [] [] []], v_lists = [], v_sessions = [], v_locks = lock_manager_empty\<rparr>"

abbreviation mock_descriptor :: resource_descriptor where
  "mock_descriptor \<equiv> descriptor Project_mock WRVISA_INTF_MOCK 0 ''INSTR'' WRVISA_MOCK_RESOURCE"

definition session_state :: "(unit, unit) visa" where
  "session_state = manager_state
     \<lparr>v_handles := v_handles manager_state @
        [\<lparr>slot_object = Some (Session_ref 0), slot_generation = 1, slot_type = Type_session, slot_retired = False\<rparr>],
      v_managers := [(resource_manager_new [] [] [])\<lparr>rm_children := [0x30010002]\<rparr>],
      v_sessions := [(session_new 0 0x10010001 mock_descriptor (Mock_device mock_session_new))\<lparr>se_handle := 0x30010002\<rparr>]\<rparr>"

lemma example_handles [simp]:
  "handle_encode Type_resource_manager 1 1 = 0x10010001" "handle_encode Type_session 1 2 = 0x30010002"
  "handle_decode 0x10010001 = Some (Type_resource_manager, 1, 1)" "handle_decode 0x30010002 = Some (Type_session, 1, 2)"
proof -
  show e: "handle_encode Type_resource_manager 1 1 = 0x10010001" "handle_encode Type_session 1 2 = 0x30010002"
    by (simp_all add: handle_encode_def object_type_code_def)
  show "handle_decode 0x10010001 = Some (Type_resource_manager, 1, 1)" "handle_decode 0x30010002 = Some (Type_session, 1, 2)"
    using handle_decode_encode [of 1 1 Type_resource_manager] handle_decode_encode [of 1 2 Type_session] by (simp_all add: e)
qed

lemma open_manager_example: "viOpenDefaultRM example_platform True visa_init = (VI_SUCCESS, Some 0x10010001, manager_state)"
  by (simp add: viOpenDefaultRM_def example_platform_def visa_init_def manager_state_def handle_insert_def Let_def)

lemma open_session_example:
  "viOpen example_platform idle_env 0x10010001 (Some WRVISA_MOCK_RESOURCE) 0 0 True manager_state =
     Some (VI_SUCCESS, Some 0x30010002, session_state)"
  by (simp add: viOpen_def manager_state_def valid_open_mode_def get_manager_def handle_get_def handle_get_locked_def Let_def
     resolve_resource_def resource_manager_new_def open_backend_def register_child_def handle_insert_def add_child_def put_manager_def open_lock_def put_session_def session_state_def descriptor_def session_new_def mock_reads_back)

lemma legal_idle [simp]: "legal_env L idle_env"
  by (simp add: legal_env_def idle_env_def)

lemma manager_state_reachable: "api_reachable example_platform manager_state"
  unfolding api_reachable_def
  by (rule r_into_rtranclp, rule api_step.intros [OF legal_idle, where call = "Open_default_rm True"])
     (simp add: open_manager_example)

lemma session_state_reachable: "api_reachable example_platform session_state"
  using manager_state_reachable unfolding api_reachable_def
  by (rule rtranclp.rtrancl_into_rtrancl)
     (rule api_step.intros [OF legal_idle, where call = "Open 0x10010001 (Some WRVISA_MOCK_RESOURCE) 0 0 True"],
      simp add: open_session_example)

lemma session_state_live:
  "live session_state 0x10010001 = Some (Rm_ref 0)" "live session_state 0x30010002 = Some (Session_ref 0)"
  "live session_state 0 = None"
  by (simp_all add: live_def session_state_def manager_state_def handle_get_any_def handle_get_locked_def handle_decode_def [of 0])

lemma handle_get_live:
  assumes "handles_ok D v" and "live v h = Some ref"
  shows "handle_get (v_handles v) h (ref_type ref) = Some ref"
proof -
  from assms(2) obtain ty g i where d: "handle_decode h = Some (ty, g, i)"
    unfolding live_def by (rule get_any_Some_decode)
  from assms(2) [unfolded live_def get_any_iff [OF d]] table_inv_nth [OF handles_okD(1) [OF assms(1)], of "slot_index i"]
  have "ty = ref_type ref" by (auto simp: slot_inv_def)
  with assms(2) d show ?thesis by (auto simp: get_is_get_any live_def)
qed

lemma idle_begin:
  "\<not> se_closed s \<Longrightarrow> se_operations s = [] \<Longrightarrow> begin_operation now t s =
     (Some (se_next_operation_id s), operation_new now t,
      s\<lparr>se_next_operation_id := se_next_operation_id s + 1, se_operations := [(se_next_operation_id s, operation_new now t)]\<rparr>)"
  by (simp add: begin_operation_def Let_def)

lemma new_operation_pending:
  "\<not> op_completed (operation_new now t)"
  "try_complete st (operation_new now t) = (True, (operation_new now t)\<lparr>op_result := st\<rparr>)"
  "st \<noteq> kPending \<Longrightarrow> fst (finish_with st' ((operation_new now t)\<lparr>op_result := st\<rparr>)) = st"
  by (simp_all add: operation_new_def operation_defs finish_with_def)

lemma mock_device_ops:
  "be_write (device_ops evs race be) (Mock_device m) x bs wo = Some (case mock_write m x bs wo of (st, k, y, m') \<Rightarrow> (st, k, y, Mock_device m'))"
  "be_read (device_ops evs race be) (Mock_device m) x n ro =
     map_option (\<lambda>(st, bs, k, y, m'). (st, bs, k, y, Mock_device m')) (mock_read evs race m x n ro)"
  by (simp_all add: device_ops_def mock_backend_def Let_def)

section \<open>Properties\<close>

text \<open>C5. Whatever sequence of API calls a program makes, with whatever results, the library stays well-formed: the
  handle table is well-formed; every live handle refers to an open object of its class that knows this handle and has no
  operation in progress; every open session and find list is a child of the live manager it was created on, and the
  children of a live manager are live; every lock is held by a live session on its own resource.\<close>

theorem api_calls_keep_library_well_formed:
  assumes "api_reachable pf v"
  shows "world_inv v"
  using assms unfolding api_reachable_def by (rule visa_calls.reach_inv) (rule world_inv_init)

theorem api_calls_keep_library_well_formed_witness: "world_inv session_state"
  by (rule api_calls_keep_library_well_formed [OF session_state_reachable])

text \<open>C6. Closing a resource manager always succeeds and closes exactly the manager and all sessions and find lists
  opened on it: these handles become invalid, every other handle keeps its object, and no lock of a closed session remains.\<close>

theorem closing_manager_closes_its_children:
  assumes "api_reachable pf v" and "live v h = Some (Rm_ref a)"
  shows "\<exists>v'. viClose be h v = Some (VI_SUCCESS, v') \<and>
     live v' = (\<lambda>k. if k = h \<or> (\<exists>r ph. live v k = Some r \<and> ref_parent v r = Some (a, ph)) then None else live v k) \<and>
     (\<forall>w r. w \<in> lock_holders (v_locks v') r \<longrightarrow> live v' w \<noteq> None)"
proof -
  note ok = reachable_inv [OF assms(1)]
  then have ok': "handles_ok {} v" by (simp add: world_inv_def)
  have kids: "k \<in> set (rm_children (v_managers v ! a)) \<longleftrightarrow> (\<exists>r ph. live v k = Some r \<and> ref_parent v r = Some (a, ph))" for k
    using handles_okD(4) [OF ok' assms(2)] handles_okD(3) [OF ok'] by (force simp: parent_ok_def)
  from viClose_ok [OF ok, of be h] assms(2) kids obtain v' where "viClose be h v = Some (VI_SUCCESS, v')" "world_inv v'"
    "live v' = (\<lambda>k. if k = h \<or> (\<exists>r ph. live v k = Some r \<and> ref_parent v r = Some (a, ph)) then None else live v k)" by auto
  moreover from this(2) have "\<forall>w r. w \<in> lock_holders (v_locks v') r \<longrightarrow> live v' w \<noteq> None"
    by (fastforce simp: world_inv_def locks_ok_def lock_sites_def)
  ultimately show ?thesis by blast
qed

theorem closing_manager_closes_its_children_witness:
  "\<exists>v'. viClose (call_ops example_platform idle_env) 0x10010001 session_state = Some (VI_SUCCESS, v') \<and> live v' 0x30010002 = None"
proof -
  have p: "ref_parent session_state (Session_ref 0) = Some (0, 0x10010001)"
    by (simp add: session_state_def manager_state_def session_new_def)
  from closing_manager_closes_its_children [OF session_state_reachable session_state_live(1), of "call_ops example_platform idle_env"]
  obtain v' where "viClose (call_ops example_platform idle_env) 0x10010001 session_state = Some (VI_SUCCESS, v')"
    "live v' = (\<lambda>k. if k = 0x10010001 \<or> (\<exists>r ph. live session_state k = Some r \<and> ref_parent session_state r = Some (0, ph))
       then None else live session_state k)" by blast
  with p show ?thesis by (auto simp: session_state_live)
qed

text \<open>C8. A failing \<open>viOpen\<close> leaves no session behind, whether the name, the backend, the registration or the lock requested
  with the session failed: the caller gets no handle, the same handles are valid and refer to the same objects, and the
  library stays well-formed. A successful one returns a handle that was not in use and makes it refer to a new session,
  which is open and knows its handle. The creators of the device backends (code outside the model) report an error when they
  return no device.\<close>

theorem open_creates_session_or_nothing:
  assumes "api_reachable pf v" and "legal_env (lock_sites v) c" and "viOpen pf c h name mode t hv v = Some (st, out, v')"
    and "creators_report_failure pf"
  shows "world_inv v' \<and>
     (if st < 0 then out \<in> {None, Some 0} \<and> live v' = live v
      else \<exists>k. out = Some k \<and> k \<noteq> 0 \<and> live v k = None \<and> live v' = (live v)(k \<mapsto> Session_ref (length (v_sessions v))) \<and>
        se_handle (v_sessions v' ! length (v_sessions v)) = k \<and> \<not> se_closed (v_sessions v' ! length (v_sessions v)))"
proof -
  note o = viOpen_ok [OF reachable_inv [OF assms(1)] assms(2,3)]
  from o(1) have "handles_ok {} v'" by (simp add: world_inv_def)
  note r = handles_okD(2) [OF this]
  from o(2) show ?thesis
  proof (elim disjE exE conjE)
    fix m d assume "open_backend pf m d t = Inl st" and "out \<in> {None, Some 0}" and "live v' = live v"
    with o(1) open_backend_fails [OF assms(4)] show ?thesis by auto
  next
    fix k assume k: "out = Some k" "k \<noteq> 0" "st \<ge> 0" "live v k = None"
      "live v' = (live v)(k \<mapsto> Session_ref (length (v_sessions v)))"
    then have "ref_ok v' k (Session_ref (length (v_sessions v)))" by (intro r) simp
    with o(1) k show ?thesis by auto
  qed (use o(1) in auto)
qed

lemma example_platform_reports [simp]: "creators_report_failure example_platform"
  by (simp add: creators_report_failure_def example_platform_def)

theorem open_creates_session_or_nothing_witness:
  "world_inv session_state \<and> live manager_state 0x30010002 = None \<and> se_handle (v_sessions session_state ! 0) = 0x30010002"
  using open_creates_session_or_nothing [OF manager_state_reachable legal_idle open_session_example] by (auto simp: manager_state_def)

text \<open>C9. A call on a handle that is not valid (never issued, closed, or null) returns an error and changes nothing,
  whatever the other arguments are.\<close>

theorem dead_handle_is_refused:
  assumes "api_reachable pf v" and "call_target call = Some h" and "live v h = None"
  shows "\<exists>st. run_call pf c call v = Some (st, v) \<and> st < 0"
proof -
  from reachable_inv [OF assms(1)] have ok: "handles_ok {} v" by (simp add: world_inv_def)
  have dead: "get_manager h v = None" "get_session h v = None" "get_find_list h v = None" "handle_get_any (v_handles v) h = None"
    using assms(3) get_manager_live [OF ok, of h] get_session_live [OF ok, of h] get_find_list_live [OF ok, of h]
    by (fastforce simp: live_def)+
  have close: "viClose be h v = Some (VI_ERROR_INV_OBJECT, v)" for be
    by (simp add: viClose_def handle_remove_None [OF dead(4)])
  show ?thesis
    by (cases call) (use assms(2) dead close in \<open>auto simp: viFindRsrc_def viFindNext_def viParseRsrc_def viParseRsrcEx_def viOpen_def
      viSetAttribute_def viGetAttribute_def viStatusDesc_def viTerminate_def viLock_def viUnlock_def viRead_def viWrite_def
      viAssertTrigger_def viReadSTB_def viClear_def viSetBuf_def viFlush_def wrvisaSetSerialPath_def wrvisaSetTcpipServicePort_def
      wrvisaSetResourceAlias_def wrvisaSetUsbRawConfig_def wrvisaSetPrologixController_def wrvisaUsbControlTransfer_def
      Let_def split: option.splits\<close>)
qed

theorem dead_handle_is_refused_witness:
  "\<exists>st. run_call example_platform idle_env (Write 0 (Some [42]) True) session_state = Some (st, session_state) \<and> st < 0"
  by (rule dead_handle_is_refused [OF session_state_reachable _ session_state_live(3)]) simp

text \<open>C11. Every call returns, except those that wait for another thread or for the device (\<open>viOpen\<close>, \<open>viLock\<close>, \<open>viUnlock\<close>, \<open>viRead\<close>,
  \<open>viWrite\<close>, \<open>viAssertTrigger\<close>, \<open>viReadSTB\<close>, \<open>viClear\<close>). In particular \<open>viClose\<close> of any object returns.\<close>

theorem nonblocking_calls_return:
  assumes "api_reachable pf v" and "\<not> may_block call"
  shows "\<exists>st v'. run_call pf c call v = Some (st, v')"
proof -
  note ok = reachable_inv [OF assms(1)]
  then have ok': "handles_ok {} v" by (simp add: world_inv_def)
  show ?thesis
  proof (cases call)
    case (Find_rsrc h e hv hc hs)
    have "\<not> rm_closed (v_managers (v\<lparr>v_lists := ls\<rparr>) ! a)" if "get_manager h v = Some a" for a ls
      using handles_okD(2) [OF ok' get_manager_live [OF ok' that]] by simp
    note reg = register_child_eq [OF this]
    show ?thesis unfolding Find_rsrc
      by (auto simp: viFindRsrc_def reg Let_def split: option.splits parsed.splits sum.splits)
  next
    case (Close h)
    with viClose_ok [OF ok, of "call_ops pf c" h] show ?thesis by auto
  qed (use assms(2) in \<open>auto split: prod.splits\<close>)
qed

theorem nonblocking_calls_return_witness: "\<exists>st v'. run_call example_platform idle_env (Close 0x10010001) session_state = Some (st, v')"
  by (rule nonblocking_calls_return [OF session_state_reachable]) simp

text \<open>C10. Write and read back through the whole library: on a live handle of a mock session whose response queue is empty,
  which the locks admit and whose termination character is disabled, \<open>viWrite\<close> of non-empty data and then \<open>viRead\<close> with a
  buffer larger than the response return success and exactly the response of the device to what was written (its identity
  for \<open>*IDN?\<close>, the bytes themselves otherwise) with the exact byte counts, when no completion by another thread wins the race
  for either operation.\<close>

theorem mock_query_round_trip:
  assumes "api_reachable pf v" and "live v h = Some (Session_ref a)"
    and "se_backend (v_sessions v ! a) = Mock_device m" and "ms_incoming m = []"
    and "session_can_access (v_locks v) (v_sessions v ! a)" and "se_termchar_enabled (v_sessions v ! a) = VI_FALSE"
    and "data \<noteq> []" and "length (mock_response data) < unat n"
  shows "\<exists>v1 v2. viWrite (device_ops evs None be) t h (Some data) True v = Some (VI_SUCCESS, Some (of_nat (length data)), v1) \<and>
     viRead (device_ops evs' None be) t' h True n True v1 =
       Some (VI_SUCCESS, mock_response data, Some (of_nat (length (mock_response data))), v2)"
proof -
  from reachable_inv [OF assms(1)] have ok: "handles_ok {} v" by (simp add: world_inv_def)
  note r = handles_okD(2) [OF ok assms(2), simplified]
  let ?s = "v_sessions v ! a"
  define s1 where "s1 = ?s\<lparr>se_next_operation_id := se_next_operation_id ?s + 1,
    se_backend := Mock_device (m\<lparr>ms_incoming := mock_response data\<rparr>)\<rparr>"
  have g: "get_session h v = Some a" "get_session h (put_session a s1 v) = Some a"
    using assms(2) handle_get_live [OF ok assms(2)] by (simp_all add: get_session_def put_session_def)
  have w: "session_write (device_ops evs None be) t (v_locks v) data ?s = Some (VI_SUCCESS, Some (of_nat (length data)), s1)"
    using assms(3-5) r by (simp add: session_write_def idle_begin mock_device_ops mock_write_def s1_def new_operation_pending
        finish_operation_def)
  have ne: "mock_response data \<noteq> []" using assms(7) by (simp add: mock_response_def mock_identity_def)
  have s1: "v_sessions (put_session a s1 v) ! a = s1" using r by (simp add: put_session_def)
  obtain s2 where "session_read (device_ops evs' None be) t' (v_locks v) n s1 =
      Some (VI_SUCCESS, mock_response data, Some (of_nat (length (mock_response data))), s2)"
    using assms(5,6,8) r ne by (simp add: session_read_def idle_begin mock_device_ops mock_read_def mock_claim_def new_operation_pending
        mock_ready_def read_amount_def session_can_access_def s1_def)
  moreover have "n \<noteq> 0" using assms(8) by auto
  ultimately show ?thesis using w g assms(7) by (auto simp: viWrite_def viRead_def s1)
qed

theorem mock_query_round_trip_witness:
  "\<exists>v1 v2. viWrite (device_ops [] None no_device) 0 0x30010002 (Some (map of_char ''*IDN?'')) True session_state = Some (VI_SUCCESS, Some 5, v1) \<and>
     viRead (device_ops [] None no_device) 0 0x30010002 True 100 True v1 = Some (VI_SUCCESS, mock_identity, Some 29, v2)"
proof -
  let ?d = "map of_char ''*IDN?'' :: byte list"
  have rsp: "mock_response ?d = mock_identity" "length mock_identity = 29" by (simp_all add: mock_response_def mock_identity_def)
  have "session_can_access (v_locks session_state) (v_sessions session_state ! 0)"
    by (simp add: session_can_access_def session_state_def manager_state_def lock_manager_empty_def lock_can_access_def lock_simps)
  moreover have "se_backend (v_sessions session_state ! 0) = Mock_device mock_session_new" "ms_incoming mock_session_new = []"
    "se_termchar_enabled (v_sessions session_state ! 0) = VI_FALSE"
    by (simp_all add: session_state_def session_new_def mock_session_new_def)
  moreover have "?d \<noteq> []" "length (mock_response ?d) < unat (100 :: u32)" "length ?d = 5"
    unfolding rsp by simp_all
  ultimately show ?thesis
    using mock_query_round_trip [OF session_state_reachable session_state_live(2), of mock_session_new ?d 100 "[]" no_device 0 "[]" 0]
    unfolding rsp by simp
qed

end
