(* ===== verification/Device_Session.thy ===== *)
theory Device_Session
  imports Backend
begin

text \<open>
  What the device sessions share: claiming an operation against a completion by another thread, the search for the
  termination character, and the bytes and END marks that a session has received but not delivered.
\<close>

section \<open>Claiming an operation\<close>

text \<open>\<open>race\<close> is a completion by another thread after the last call of the transport and before the session claims the
  operation with \<open>try_complete\<close>.\<close>

definition claimed :: "vi_status option \<Rightarrow> op \<Rightarrow> op" where
  "claimed race x = (case race of None \<Rightarrow> x | Some st \<Rightarrow> snd (try_complete st x))"

lemma claimed_advances [simp]: "op_advances x (claimed race x)"
  by (simp add: claimed_def split: option.splits)

lemma try_claimed:
  assumes "try_complete st (claimed race x) = (won, y)"
  shows "op_advances x y" and "won \<Longrightarrow> \<not> op_completed x" and "won \<Longrightarrow> op_result y = st"
proof -
  have "op_advances (claimed race x) y" using op_advances_try_complete [of "claimed race x" st] assms by simp
  with claimed_advances show "op_advances x y" by (rule op_advances_trans)
  show "won \<Longrightarrow> \<not> op_completed x" using assms claimed_advances [of x race]
    by (auto simp: try_complete_def op_completed_def op_advances_def split: if_splits)
  show "won \<Longrightarrow> op_result y = st" using assms by (auto simp: try_complete_def split: if_splits)
qed

lemma try_claimed_trans: "try_complete st (claimed race y) = (won, z) \<Longrightarrow> op_advances x y \<Longrightarrow> op_advances x z"
  by (blast intro: op_advances_trans try_claimed(1))

section \<open>The termination character\<close>

text \<open>The bytes in front of the first termination character, and it.\<close>

definition termchar_amount :: "read_options \<Rightarrow> byte list \<Rightarrow> nat option" where
  "termchar_amount options received =
     (if ro_termchar_enabled options \<and> ro_termchar options \<in> set received
      then Some (length (takeWhile (\<lambda>b. b \<noteq> ro_termchar options) received) + 1) else None)"

lemma length_takeWhile_neq: "c \<in> set xs \<Longrightarrow> length (takeWhile (\<lambda>b. b \<noteq> c) xs) < length xs"
  by (induction xs) auto

lemma termchar_amount_Some:
  assumes "termchar_amount ro rs = Some k"
  shows "0 < k \<and> k \<le> length rs \<and> last (take k rs) = ro_termchar ro \<and> ro_termchar ro \<notin> set (butlast (take k rs))"
proof -
  let ?P = "\<lambda>b. b \<noteq> ro_termchar ro"
  from assms have k: "k = Suc (length (takeWhile ?P rs))" and m: "ro_termchar ro \<in> set rs"
    by (auto simp: termchar_amount_def split: if_splits)
  note l = length_takeWhile_neq [OF m]
  have "take k rs = takeWhile ?P rs @ [rs ! length (takeWhile ?P rs)]"
    unfolding k take_Suc_conv_app_nth [OF l] by (simp flip: takeWhile_eq_take)
  with l nth_length_takeWhile [OF l] k show ?thesis by (auto dest: set_takeWhileD)
qed

section \<open>Bytes and END marks\<close>

datatype token = Byte byte | End_mark

definition tokens :: "byte list \<Rightarrow> bool \<Rightarrow> token list" where
  "tokens bs ended = map Byte bs @ (if ended then [End_mark] else [])"

lemma tokens_simps [simp]:
  "tokens bs False = map Byte bs" "map Byte bs @ tokens cs e = tokens (bs @ cs) e" "tokens [] e = (if e then [End_mark] else [])"
  by (simp_all add: tokens_def)

lemma map_take_append_drop [simp]: "map f (take k xs) @ map f (drop k xs) = map f xs"
  by (simp flip: map_append)

end
