(* ===== verification/Gpib_Session.thy ===== *)
theory Gpib_Session
  imports Device_Session
begin

text \<open>
  The GPIB session (\<open>src/backends/gpib/gpib_session.{h,cpp}\<close>) over the interface of an addressed-instrument transport
  (\<open>src/backends/gpib/gpib_transport.h\<close>). The transport is a record of its virtual functions and a parameter of every
  operation; it returns the operation as it is after the call, completions by other threads included. The session obeys the contract of backends for every transport that does not undo a completion, and a read neither
  loses nor reorders bytes or END marks, however it ends.
\<close>

section \<open>Transport\<close>

record gpib_capabilities =
  gc_send_end :: bool
  gc_device_clear :: bool
  gc_trigger :: bool
  gc_serial_poll :: bool

record 't gpib_transport =
  gt_capabilities :: "'t \<Rightarrow> gpib_capabilities"
  gt_read :: "'t \<Rightarrow> op \<Rightarrow> nat \<Rightarrow> vi_status \<times> byte list \<times> bool \<times> op \<times> 't"
  gt_write :: "'t \<Rightarrow> op \<Rightarrow> byte list \<Rightarrow> bool \<Rightarrow> vi_status \<times> nat \<times> op \<times> 't"
  gt_clear :: "'t \<Rightarrow> op \<Rightarrow> vi_status \<times> op \<times> 't"
  gt_trigger :: "'t \<Rightarrow> op \<Rightarrow> vi_status \<times> op \<times> 't"
  gt_serial_poll :: "'t \<Rightarrow> op \<Rightarrow> vi_status \<times> byte \<times> op \<times> 't"
  gt_discard_read_buffer :: "'t \<Rightarrow> 't"
  gt_cancel :: "'t \<Rightarrow> 't"
  gt_close :: "'t \<Rightarrow> 't"

section \<open>Session\<close>

definition gpib_known_mask :: u16 where
  "gpib_known_mask = VI_READ_BUF OR VI_WRITE_BUF OR VI_READ_BUF_DISCARD OR VI_WRITE_BUF_DISCARD OR
     VI_IO_IN_BUF OR VI_IO_OUT_BUF OR VI_IO_IN_BUF_DISCARD OR VI_IO_OUT_BUF_DISCARD"

record 't gpib_session =
  gs_transport :: 't
  gs_capabilities :: gpib_capabilities
  gs_read_ahead :: "byte list"
  gs_read_ahead_end :: bool

definition gpib_session_new :: "'t gpib_transport \<Rightarrow> 't \<Rightarrow> 't gpib_session" where
  "gpib_session_new tr t =
     \<lparr>gs_transport = t, gs_capabilities = gt_capabilities tr t, gs_read_ahead = [], gs_read_ahead_end = False\<rparr>"

definition gpib_restore_read_ahead :: "byte list \<Rightarrow> bool \<Rightarrow> 't gpib_session \<Rightarrow> 't gpib_session" where
  "gpib_restore_read_ahead data ended s =
     s\<lparr>gs_read_ahead := data @ gs_read_ahead s, gs_read_ahead_end := (if ended then True else gs_read_ahead_end s)\<rparr>"

text \<open>How the loop of \<open>read\<close> goes on: the next bytes come from the read-ahead or from the transport. \<open>Inl\<close> is a return
  from \<open>read\<close>.\<close>

definition gpib_chunk ::
  "'t gpib_transport \<Rightarrow> nat \<Rightarrow> byte list \<Rightarrow> op \<Rightarrow> 't gpib_session \<Rightarrow>
   (vi_status \<times> op \<times> 't gpib_session) + (byte list \<times> bool \<times> op \<times> 't gpib_session)" where
  "gpib_chunk tr count received x s =
     (if gs_read_ahead s \<noteq> [] then
        let n = min (count - length received) (length (gs_read_ahead s));
            s1 = s\<lparr>gs_read_ahead := drop n (gs_read_ahead s)\<rparr>;
            ended = (gs_read_ahead s1 = [] \<and> gs_read_ahead_end s1) in
        Inr (received @ take n (gs_read_ahead s), ended, x, if ended then s1\<lparr>gs_read_ahead_end := False\<rparr> else s1)
      else
        let maximum = count - length received;
            (status, chunk, chunk_end, y, t) = gt_read tr (gs_transport s) x maximum;
            s1 = s\<lparr>gs_transport := t\<rparr> in
        if status < VI_SUCCESS then Inl (status, y, gpib_restore_read_ahead received False s1)
        else if length chunk > maximum \<or> chunk = [] \<and> \<not> chunk_end
        then Inl (VI_ERROR_IO, y, gpib_restore_read_ahead received False s1)
        else Inr (received @ chunk, chunk_end, y, s1))"

lemma gpib_chunk_progress:
  assumes "gpib_chunk tr count received x s = Inr (received', ended, y, s')" and "length received < count"
  shows "ended \<or> length received < length received'" and "length received' \<le> count"
  using assms by (auto simp: gpib_chunk_def Let_def split: if_splits prod.splits)

function gpib_read_loop ::
  "'t gpib_transport \<Rightarrow> read_options \<Rightarrow> nat \<Rightarrow> byte list \<Rightarrow> bool \<Rightarrow> op \<Rightarrow> 't gpib_session \<Rightarrow>
   (vi_status \<times> op \<times> 't gpib_session) + (byte list \<times> bool \<times> nat option \<times> op \<times> 't gpib_session)" where
  "gpib_read_loop tr options count received ended x s =
     (if length received < count \<and> \<not> ended then
        if gs_read_ahead s = [] \<and> gs_read_ahead_end s
        then Inr (received, True, None, x, s\<lparr>gs_read_ahead_end := False\<rparr>)
        else (case gpib_chunk tr count received x s of
            Inl r \<Rightarrow> Inl r
          | Inr (received', ended', y, s') \<Rightarrow>
              if termchar_amount options received' \<noteq> None
              then Inr (received', ended', termchar_amount options received', y, s')
              else gpib_read_loop tr options count received' ended' y s')
      else Inr (received, ended, None, x, s))"
  by pat_completeness auto
termination
  by (relation "measure (\<lambda>(tr, options, count, received, ended, x, s). if ended then 0 else Suc (count - length received))")
     (auto dest: gpib_chunk_progress(1) intro!: diff_less_mono2)

declare gpib_read_loop.simps [simp del]

text \<open>After the loop.\<close>

definition gpib_read_finish ::
  "vi_status option \<Rightarrow> u32 \<Rightarrow> byte list \<Rightarrow> bool \<Rightarrow> nat option \<Rightarrow> op \<Rightarrow> 't gpib_session \<Rightarrow>
   vi_status \<times> byte list \<times> u32 \<times> op \<times> 't gpib_session" where
  "gpib_read_finish race count received ended found x s =
     (let (amount, completion_status) = (case found of
            Some n \<Rightarrow> (n, VI_SUCCESS_TERM_CHAR)
          | None \<Rightarrow> (length received, if length received = unat count then VI_SUCCESS_MAX_CNT else VI_SUCCESS));
          (won, y) = try_complete completion_status (claimed race x) in
      if \<not> won then (op_result y, [], 0, y, gpib_restore_read_ahead received ended s)
      else
        (completion_status, take amount received, of_nat amount, y,
         if amount < length received then gpib_restore_read_ahead (drop amount received) ended s else s))"

definition gpib_read ::
  "'t gpib_transport \<Rightarrow> vi_status option \<Rightarrow> 't gpib_session \<Rightarrow> op \<Rightarrow> u32 \<Rightarrow> read_options \<Rightarrow>
   vi_status \<times> byte list \<times> u32 \<times> op \<times> 't gpib_session" where
  "gpib_read tr race s x count options =
     (if op_completed x then (op_result x, [], 0, x, s)
      else case gpib_read_loop tr options (unat count) [] False x s of
        Inl (status, y, s') \<Rightarrow> (status, [], 0, y, s')
      | Inr (received, ended, found, y, s') \<Rightarrow> gpib_read_finish race count received ended found y s')"

definition gpib_write ::
  "'t gpib_transport \<Rightarrow> vi_status option \<Rightarrow> 't gpib_session \<Rightarrow> op \<Rightarrow> byte list \<Rightarrow> write_options \<Rightarrow>
   vi_status \<times> u32 \<times> op \<times> 't gpib_session" where
  "gpib_write tr race s x data send_end =
     (if send_end \<and> \<not> gc_send_end (gs_capabilities s) then (VI_ERROR_NSUP_OPER, 0, x, s)
      else if op_completed x then (op_result x, 0, x, s)
      else
        let (status, transferred, y, t) = gt_write tr (gs_transport s) x data send_end; s1 = s\<lparr>gs_transport := t\<rparr> in
        if status < VI_SUCCESS then (status, 0, y, s1)
        else if transferred \<noteq> length data then (VI_ERROR_IO, 0, y, s1)
        else
          let (won, z) = try_complete status (claimed race y) in
          if \<not> won then (op_result z, 0, z, s1) else (status, of_nat transferred, z, s1))"

definition gpib_discard :: "'t gpib_transport \<Rightarrow> 't gpib_session \<Rightarrow> 't gpib_session" where
  "gpib_discard tr s =
     s\<lparr>gs_transport := gt_discard_read_buffer tr (gs_transport s), gs_read_ahead := [], gs_read_ahead_end := False\<rparr>"

definition gpib_clear :: "'t gpib_transport \<Rightarrow> 't gpib_session \<Rightarrow> op \<Rightarrow> vi_status \<times> op \<times> 't gpib_session" where
  "gpib_clear tr s x =
     (if \<not> gc_device_clear (gs_capabilities s) then (VI_ERROR_NSUP_OPER, x, s)
      else if op_completed x then (op_result x, x, s)
      else
        let (status, y, t) = gt_clear tr (gs_transport s) x; s1 = s\<lparr>gs_transport := t\<rparr> in
        (status, y, if status \<ge> VI_SUCCESS then gpib_discard tr s1 else s1))"

definition gpib_flush_locked :: "'t gpib_transport \<Rightarrow> 't gpib_session \<Rightarrow> u16 \<Rightarrow> vi_status \<times> 't gpib_session" where
  "gpib_flush_locked tr s m =
     (if m = 0 \<or> m AND NOT gpib_known_mask \<noteq> 0 then (VI_ERROR_INV_MASK, s)
      else if m AND (VI_READ_BUF_DISCARD OR VI_IO_IN_BUF_DISCARD) \<noteq> 0 then (VI_SUCCESS, gpib_discard tr s)
      else (VI_SUCCESS, s))"

definition gpib_flush :: "'t gpib_transport \<Rightarrow> 't gpib_session \<Rightarrow> op \<Rightarrow> u16 \<Rightarrow> vi_status \<times> op \<times> 't gpib_session" where
  "gpib_flush tr s x m =
     (if m = 0 \<or> m AND NOT gpib_known_mask \<noteq> 0 then (VI_ERROR_INV_MASK, x, s)
      else if op_completed x then (op_result x, x, s)
      else let (status, s') = gpib_flush_locked tr s m in (status, x, s'))"

definition gpib_read_stb ::
  "'t gpib_transport \<Rightarrow> vi_status option \<Rightarrow> 't gpib_session \<Rightarrow> op \<Rightarrow> bool \<Rightarrow> vi_status \<times> u16 option \<times> op \<times> 't gpib_session" where
  "gpib_read_stb tr race s x has_status =
     (if \<not> has_status then (VI_ERROR_INV_PARAMETER, None, x, s)
      else if \<not> gc_serial_poll (gs_capabilities s) then (VI_ERROR_NSUP_OPER, None, x, s)
      else if op_completed x then (op_result x, None, x, s)
      else
        let (result, value, y, t) = gt_serial_poll tr (gs_transport s) x; s1 = s\<lparr>gs_transport := t\<rparr> in
        if result < VI_SUCCESS then (result, None, y, s1)
        else
          let (won, z) = try_complete result (claimed race y) in
          if \<not> won then (op_result z, None, z, s1) else (result, Some (ucast value), z, s1))"

definition gpib_assert_trigger ::
  "'t gpib_transport \<Rightarrow> 't gpib_session \<Rightarrow> op \<Rightarrow> u16 \<Rightarrow> vi_status \<times> op \<times> 't gpib_session" where
  "gpib_assert_trigger tr s x protocol =
     (if protocol \<noteq> VI_TRIG_PROT_DEFAULT then (VI_ERROR_INV_PROT, x, s)
      else if \<not> gc_trigger (gs_capabilities s) then (VI_ERROR_NSUP_OPER, x, s)
      else if op_completed x then (op_result x, x, s)
      else let (status, y, t) = gt_trigger tr (gs_transport s) x in (status, y, s\<lparr>gs_transport := t\<rparr>))"

text \<open>The virtual functions that sessions call.\<close>

definition gpib_backend :: "'t gpib_transport \<Rightarrow> vi_status option \<Rightarrow> 't gpib_session backend_ops" where
  "gpib_backend tr race =
     \<lparr>be_read = (\<lambda>s x n ro. Some (gpib_read tr race s x n ro)), be_write = (\<lambda>s x bs wo. Some (gpib_write tr race s x bs wo)),
      be_clear = (\<lambda>s x. Some (gpib_clear tr s x)), be_flush = gpib_flush tr,
      be_read_stb = (\<lambda>s x out. Some (gpib_read_stb tr race s x out)),
      be_assert_trigger = (\<lambda>s x pr. Some (gpib_assert_trigger tr s x pr)),
      be_usb_control = default_usb_control, be_lock = default_lock, be_unlock = default_unlock,
      be_set_attribute = default_set_attribute, be_get_attribute = default_get_attribute,
      be_close = (\<lambda>s. s\<lparr>gs_transport := gt_close tr (gs_transport s)\<rparr>),
      be_notify_cancel = (\<lambda>s. s\<lparr>gs_transport := gt_cancel tr (gs_transport s)\<rparr>)\<rparr>"

section \<open>The contract of backends\<close>

text \<open>What the session relies on: no call of the transport undoes a completion or moves a deadline.\<close>

definition gpib_transport_ok :: "'t gpib_transport \<Rightarrow> bool" where
  "gpib_transport_ok tr \<longleftrightarrow>
     (\<forall>t x n st bs e y t'. gt_read tr t x n = (st, bs, e, y, t') \<longrightarrow> op_advances x y) \<and>
     (\<forall>t x bs e st k y t'. gt_write tr t x bs e = (st, k, y, t') \<longrightarrow> op_advances x y) \<and>
     (\<forall>t x st y t'. gt_clear tr t x = (st, y, t') \<longrightarrow> op_advances x y) \<and>
     (\<forall>t x st y t'. gt_trigger tr t x = (st, y, t') \<longrightarrow> op_advances x y) \<and>
     (\<forall>t x st v y t'. gt_serial_poll tr t x = (st, v, y, t') \<longrightarrow> op_advances x y)"

lemma gpib_transport_okD:
  assumes "gpib_transport_ok tr"
  shows "gt_read tr t x n = (st, bs, e, y, t') \<Longrightarrow> op_advances x y" and "gt_write tr t x bs e = (st, k, y, t') \<Longrightarrow> op_advances x y"
    and "gt_clear tr t x = (st, y, t') \<Longrightarrow> op_advances x y" and "gt_trigger tr t x = (st, y, t') \<Longrightarrow> op_advances x y"
    and "gt_serial_poll tr t x = (st, v, y, t') \<Longrightarrow> op_advances x y"
  using assms [unfolded gpib_transport_ok_def] by - metis+

lemma gpib_chunk_advances:
  assumes "gpib_transport_ok tr"
  shows "gpib_chunk tr n rs x s = Inl (st, y, s') \<Longrightarrow> op_advances x y"
    and "gpib_chunk tr n rs x s = Inr (rs', e, y, s') \<Longrightarrow> op_advances x y"
  using gpib_transport_okD(1) [OF assms] by (auto simp: gpib_chunk_def Let_def split: if_splits prod.splits)

lemma gpib_loop_advances:
  assumes "gpib_transport_ok tr" and "length rs \<le> n"
  shows "case gpib_read_loop tr ro n rs e x s of Inl (st, y, s') \<Rightarrow> op_advances x y
    | Inr (rs', e', f, y, s') \<Rightarrow> op_advances x y \<and> length rs' \<le> n \<and> (\<forall>k. f = Some k \<longrightarrow> k \<le> length rs')"
  using assms
proof (induction tr ro n rs e x s rule: gpib_read_loop.induct)
  case (1 tr ro n rs e x s)
  show ?case
  proof (cases "length rs < n \<and> \<not> e \<and> \<not> (gs_read_ahead s = [] \<and> gs_read_ahead_end s)")
    case False
    then show ?thesis using "1.prems" by (subst gpib_read_loop.simps) auto
  next
    case go: True
    show ?thesis
    proof (cases "gpib_chunk tr n rs x s")
      case (Inl r)
      then show ?thesis using go gpib_chunk_advances(1) [OF "1.prems"(1)]
        by (subst gpib_read_loop.simps) (auto split: prod.splits)
    next
      case (Inr r)
      then obtain rs' e' y s' where c: "gpib_chunk tr n rs x s = Inr (rs', e', y, s')" by (cases r) auto
      note a = gpib_chunk_advances(2) [OF "1.prems"(1) c] and p = gpib_chunk_progress(2) [OF c]
      show ?thesis
      proof (cases "termchar_amount ro rs'")
        case None
        with go c have "gpib_read_loop tr ro n rs e x s = gpib_read_loop tr ro n rs' e' y s'"
          by (subst gpib_read_loop.simps) auto
        moreover from "1.IH" go c None p "1.prems"(1) have "case gpib_read_loop tr ro n rs' e' y s' of Inl (st, z, s') \<Rightarrow> op_advances y z
          | Inr (rs', e', f, z, s') \<Rightarrow> op_advances y z \<and> length rs' \<le> n \<and> (\<forall>k. f = Some k \<longrightarrow> k \<le> length rs')" by auto
        ultimately show ?thesis using a by (auto split: sum.splits intro: op_advances_trans)
      next
        case (Some k)
        then have "k \<le> length rs'"
          using length_takeWhile_neq [of "ro_termchar ro" rs'] by (auto simp: termchar_amount_def split: if_splits)
        with Some go c a p show ?thesis by (subst gpib_read_loop.simps) auto
      qed
    qed
  qed
qed

lemma gpib_read_finish_contract:
  assumes "gpib_read_finish race n rs e f x s = (st, data, k, y, s')" and "length rs \<le> unat n" and "\<And>j. f = Some j \<Longrightarrow> j \<le> length rs"
  shows "op_advances x y" and "length data \<le> unat n \<and> unat k = length data"
proof -
  obtain m cs where m: "(case f of Some j \<Rightarrow> (j, VI_SUCCESS_TERM_CHAR)
      | None \<Rightarrow> (length rs, if length rs = unat n then VI_SUCCESS_MAX_CNT else VI_SUCCESS)) = (m, cs)" by fastforce
  have le: "m \<le> length rs" using m assms(3) by (auto split: option.splits)
  obtain won z where t: "try_complete cs (claimed race x) = (won, z)" by fastforce
  note r = assms(1) [unfolded gpib_read_finish_def m prod.case Let_def t]
  show "op_advances x y" using r try_claimed(1) [OF t] by (auto split: if_splits)
  have "unat (of_nat m :: u32) = m"
    using le assms(2) unsigned_less [of n, where ?'a = nat] by (simp add: unat_of_nat take_bit_eq_mod)
  with r le assms(2) show "length data \<le> unat n \<and> unat k = length data" by (auto split: if_splits)
qed

lemma gpib_read_contract:
  assumes "gpib_transport_ok tr" and "gpib_read tr race s x n ro = (st, data, k, y, s')"
  shows "op_advances x y" and "length data \<le> unat n \<and> unat k = length data" and "op_completed x \<Longrightarrow> data = []"
proof -
  have "op_advances x y \<and> (length data \<le> unat n \<and> unat k = length data) \<and> (op_completed x \<longrightarrow> data = [])"
  proof (cases "op_completed x")
    case False
    note l = gpib_loop_advances [OF assms(1), where rs = "[]" and n = "unat n" and ro = ro and e = False and x = x and s = s, simplified]
    show ?thesis
    proof (cases "gpib_read_loop tr ro (unat n) [] False x s")
      case (Inl r)
      with False assms(2) l show ?thesis by (auto simp: gpib_read_def split: prod.splits)
    next
      case (Inr r)
      then obtain rs e f z s1 where r: "gpib_read_loop tr ro (unat n) [] False x s = Inr (rs, e, f, z, s1)" by (cases r) auto
      with l have z: "op_advances x z" "length rs \<le> unat n" "\<And>j. f = Some j \<Longrightarrow> j \<le> length rs" by auto
      from r False assms(2) have f: "gpib_read_finish race n rs e f z s1 = (st, data, k, y, s')" by (simp add: gpib_read_def)
      from gpib_read_finish_contract [OF f z(2,3)] z(1) False show ?thesis by (auto intro: op_advances_trans)
    qed
  qed (use assms(2) in \<open>simp add: gpib_read_def\<close>)
  then show "op_advances x y" "length data \<le> unat n \<and> unat k = length data" "op_completed x \<Longrightarrow> data = []" by blast+
qed

text \<open>A GPIB session over such a transport can stand wherever the library expects a backend.\<close>

lemma gpib_is_backend:
  assumes "gpib_transport_ok tr"
  shows "backend (gpib_backend tr race)"
proof
  note D = gpib_transport_okD [OF assms] and R = gpib_read_contract [OF assms]
  fix b b' x y n ro st data k
  assume "be_read (gpib_backend tr race) b x n ro = Some (st, data, k, y, b')"
  then have r: "gpib_read tr race b x n ro = (st, data, k, y, b')" by (simp add: gpib_backend_def)
  show "op_advances x y" "length data \<le> unat n \<and> unat k = length data" "op_completed x \<Longrightarrow> data = []"
    by (rule R [OF r])+ simp
next
  note D = gpib_transport_okD [OF assms]
  fix b b' x y bs wo st k
  assume "be_write (gpib_backend tr race) b x bs wo = Some (st, k, y, b')"
  then show "op_advances x y"
    by (auto simp: gpib_backend_def gpib_write_def Let_def split: if_splits prod.splits intro: D(2) try_claimed_trans)
next
  note D = gpib_transport_okD [OF assms]
  fix b b' x y out st v
  assume "be_read_stb (gpib_backend tr race) b x out = Some (st, v, y, b')"
  then show "op_advances x y"
    by (auto simp: gpib_backend_def gpib_read_stb_def Let_def split: if_splits prod.splits intro: D(5) try_claimed_trans)
qed (use gpib_transport_okD [OF assms] in \<open>auto simp: gpib_backend_def gpib_clear_def gpib_flush_def gpib_assert_trigger_def
    default_usb_control_def default_lock_def default_unlock_def Let_def split: if_splits prod.splits\<close>)

section \<open>No byte and no END mark is lost\<close>

definition ahead :: "'t gpib_session \<Rightarrow> token list" where
  "ahead s = tokens (gs_read_ahead s) (gs_read_ahead_end s)"

text \<open>The transport, with a record of what it has handed over in successful reads.\<close>

definition logged :: "'t gpib_transport \<Rightarrow> ('t \<times> token list) gpib_transport" where
  "logged tr =
     \<lparr>gt_capabilities = (\<lambda>(t, l). gt_capabilities tr t),
      gt_read = (\<lambda>(t, l) x n. case gt_read tr t x n of
        (st, bs, e, y, t') \<Rightarrow> (st, bs, e, y, (t', if st < VI_SUCCESS then l else l @ tokens bs e))),
      gt_write = (\<lambda>(t, l) x bs e. case gt_write tr t x bs e of (st, k, y, t') \<Rightarrow> (st, k, y, (t', l))),
      gt_clear = (\<lambda>(t, l) x. case gt_clear tr t x of (st, y, t') \<Rightarrow> (st, y, (t', l))),
      gt_trigger = (\<lambda>(t, l) x. case gt_trigger tr t x of (st, y, t') \<Rightarrow> (st, y, (t', l))),
      gt_serial_poll = (\<lambda>(t, l) x. case gt_serial_poll tr t x of (st, v, y, t') \<Rightarrow> (st, v, y, (t', l))),
      gt_discard_read_buffer = (\<lambda>(t, l). (gt_discard_read_buffer tr t, l)),
      gt_cancel = (\<lambda>(t, l). (gt_cancel tr t, l)), gt_close = (\<lambda>(t, l). (gt_close tr t, l))\<rparr>"

abbreviation handed_over :: "('t \<times> token list) gpib_session \<Rightarrow> token list" where
  "handed_over s \<equiv> snd (gs_transport s)"

text \<open>A read hands over at most what it was asked for.\<close>

definition bounded_reads :: "'t gpib_transport \<Rightarrow> bool" where
  "bounded_reads tr \<longleftrightarrow> (\<forall>t x n. length (fst (snd (gt_read tr t x n))) \<le> n)"

lemma ahead_restore:
  "(ended \<Longrightarrow> gs_read_ahead s = [] \<and> \<not> gs_read_ahead_end s) \<Longrightarrow> ahead (gpib_restore_read_ahead bs ended s) = tokens bs ended @ ahead s"
  by (auto simp: ahead_def gpib_restore_read_ahead_def tokens_def)

lemma gpib_chunk_conserves:
  assumes "bounded_reads tr" and "length rs < n" and "\<not> (gs_read_ahead s = [] \<and> gs_read_ahead_end s)"
  shows "gpib_chunk (logged tr) n rs x s = Inl (st, y, s') \<Longrightarrow>
      \<exists>new. handed_over s' = handed_over s @ new \<and> map Byte rs @ ahead s @ new = ahead s'"
    and "gpib_chunk (logged tr) n rs x s = Inr (rs', e, y, s') \<Longrightarrow>
      \<exists>new. handed_over s' = handed_over s @ new \<and> map Byte rs @ ahead s @ new = tokens rs' e @ ahead s' \<and>
        (e \<longrightarrow> gs_read_ahead s' = [] \<and> \<not> gs_read_ahead_end s')"
proof -
  obtain t l where t: "gs_transport s = (t, l)" by fastforce
  obtain st0 bs e0 y0 t0 where r: "gt_read tr t x (n - length rs) = (st0, bs, e0, y0, t0)" by (metis prod_cases5)
  have le: "length bs \<le> n - length rs" using assms(1) r unfolding bounded_reads_def by (metis fst_conv snd_conv)
  show "gpib_chunk (logged tr) n rs x s = Inl (st, y, s') \<Longrightarrow>
      \<exists>new. handed_over s' = handed_over s @ new \<and> map Byte rs @ ahead s @ new = ahead s'"
    using le by (auto simp: gpib_chunk_def logged_def t r Let_def ahead_restore split: if_splits)
      (auto simp: ahead_def gpib_restore_read_ahead_def)
  show "gpib_chunk (logged tr) n rs x s = Inr (rs', e, y, s') \<Longrightarrow>
      \<exists>new. handed_over s' = handed_over s @ new \<and> map Byte rs @ ahead s @ new = tokens rs' e @ ahead s' \<and>
        (e \<longrightarrow> gs_read_ahead s' = [] \<and> \<not> gs_read_ahead_end s')"
    using assms(3) by (auto simp: gpib_chunk_def logged_def t r Let_def ahead_def tokens_def split: if_splits)
qed

definition loop_conserves where
  "loop_conserves ro n rs e s r \<longleftrightarrow> (case r of
     Inl (st, y, s') \<Rightarrow> \<exists>new. handed_over s' = handed_over s @ new \<and> tokens rs e @ ahead s @ new = ahead s'
   | Inr (rs', e', f, y, s') \<Rightarrow>
       (\<exists>new. handed_over s' = handed_over s @ new \<and> tokens rs e @ ahead s @ new = tokens rs' e' @ ahead s') \<and>
       (e' \<longrightarrow> gs_read_ahead s' = [] \<and> \<not> gs_read_ahead_end s') \<and> f = termchar_amount ro rs' \<and> (f \<noteq> None \<or> length rs' = n \<or> e'))"

lemma loop_conserves_step:
  assumes "handed_over s1 = handed_over s @ new1" and "map Byte rs @ ahead s @ new1 = tokens rs1 e1 @ ahead s1"
    and "e1 \<longrightarrow> gs_read_ahead s1 = [] \<and> \<not> gs_read_ahead_end s1" and "loop_conserves ro n rs1 e1 s1 r"
  shows "loop_conserves ro n rs False s r"
proof -
  have "tokens rs False @ ahead s @ new1 @ new = tokens rs1 e1 @ ahead s1 @ new" for new using assms(2) by (simp flip: append_assoc)
  with assms(1,4) show ?thesis
    by (auto simp: loop_conserves_def split: sum.splits prod.splits) (metis append_assoc)+
qed

lemma gpib_loop_conserves:
  assumes "bounded_reads tr" and "length rs \<le> n" and "e \<longrightarrow> gs_read_ahead s = [] \<and> \<not> gs_read_ahead_end s"
    and "termchar_amount ro rs = None"
  shows "loop_conserves ro n rs e s (gpib_read_loop (logged tr) ro n rs e x s)"
  using assms
proof (induction "logged tr" ro n rs e x s rule: gpib_read_loop.induct)
  case (1 ro n rs e x s)
  show ?case
  proof (cases "length rs < n \<and> \<not> e")
    case False
    then show ?thesis using "1.prems" by (subst gpib_read_loop.simps) (auto simp: loop_conserves_def)
  next
    case go: True
    show ?thesis
    proof (cases "gs_read_ahead s = [] \<and> gs_read_ahead_end s")
      case True
      with go "1.prems"(4) show ?thesis
        by (subst gpib_read_loop.simps) (auto simp: loop_conserves_def ahead_def tokens_def)
    next
      case ra: False
      note C = gpib_chunk_conserves [OF "1.prems"(1) conjunct1 [OF go] ra]
      show ?thesis
      proof (cases "gpib_chunk (logged tr) n rs x s")
        case (Inl r)
        then obtain st y s' where c: "gpib_chunk (logged tr) n rs x s = Inl (st, y, s')" by (cases r) auto
        from C(1) [OF c] go ra c show ?thesis by (subst gpib_read_loop.simps) (auto simp: loop_conserves_def)
      next
        case (Inr r)
        then obtain rs' e' y s' where c: "gpib_chunk (logged tr) n rs x s = Inr (rs', e', y, s')" by (cases r) auto
        from C(2) [OF c] obtain new where new: "handed_over s' = handed_over s @ new"
          "map Byte rs @ ahead s @ new = tokens rs' e' @ ahead s'" "e' \<longrightarrow> gs_read_ahead s' = [] \<and> \<not> gs_read_ahead_end s'" by blast
        show ?thesis
        proof (cases "termchar_amount ro rs'")
          case None
          with go ra c have eq: "gpib_read_loop (logged tr) ro n rs e x s = gpib_read_loop (logged tr) ro n rs' e' y s'"
            by (subst gpib_read_loop.simps) auto
          from "1.hyps" [OF go ra c refl refl refl] None "1.prems"(1) gpib_chunk_progress(2) [OF c conjunct1 [OF go]] new(3)
          have "loop_conserves ro n rs' e' s' (gpib_read_loop (logged tr) ro n rs' e' y s')" by auto
          from loop_conserves_step [OF new this] go show ?thesis unfolding eq by simp
        next
          case (Some k)
          with go ra c have eq: "gpib_read_loop (logged tr) ro n rs e x s = Inr (rs', e', Some k, y, s')"
            by (subst gpib_read_loop.simps) auto
          show ?thesis unfolding eq using new go Some by (auto simp: loop_conserves_def)
        qed
      qed
    qed
  qed
qed

lemma gpib_finish_conserves:
  assumes "gpib_read_finish race n rs e f x s = (st, data, k, y, s')" and "e \<longrightarrow> gs_read_ahead s = [] \<and> \<not> gs_read_ahead_end s"
    and "f = termchar_amount ro rs" and "f \<noteq> None \<or> length rs = unat n \<or> e"
  shows "gs_transport s' = gs_transport s" and "\<exists>d. tokens rs e @ ahead s = tokens data d @ ahead s' \<and>
     (data = [] \<and> \<not> d \<or>
      op_result y = st \<and> (st = VI_SUCCESS \<and> d \<or> st = VI_SUCCESS_MAX_CNT \<and> length data = unat n \<or>
        st = VI_SUCCESS_TERM_CHAR \<and> last data = ro_termchar ro \<and> ro_termchar ro \<notin> set (butlast data)))"
proof -
  obtain m cs where m: "(case f of Some j \<Rightarrow> (j, VI_SUCCESS_TERM_CHAR)
      | None \<Rightarrow> (length rs, if length rs = unat n then VI_SUCCESS_MAX_CNT else VI_SUCCESS)) = (m, cs)" by fastforce
  obtain won z where t: "try_complete cs (claimed race x) = (won, z)" by fastforce
  note r = assms(1) [unfolded gpib_read_finish_def m prod.case Let_def t]
  show "gs_transport s' = gs_transport s" using r by (auto simp: gpib_restore_read_ahead_def split: if_splits)
  let ?goal = "\<lambda>d. tokens rs e @ ahead s = tokens data d @ ahead s' \<and>
     (data = [] \<and> \<not> d \<or>
      op_result y = st \<and> (st = VI_SUCCESS \<and> d \<or> st = VI_SUCCESS_MAX_CNT \<and> length data = unat n \<or>
        st = VI_SUCCESS_TERM_CHAR \<and> last data = ro_termchar ro \<and> ro_termchar ro \<notin> set (butlast data)))"
  show "\<exists>d. ?goal d"
  proof (cases won)
    case False
    with r have "?goal False" using assms(2) by (auto simp: ahead_restore)
    then show ?thesis ..
  next
    case True
    with r try_claimed(3) [OF t] have st: "st = cs" "op_result y = cs" "data = take m rs"
      "s' = (if m < length rs then gpib_restore_read_ahead (drop m rs) e s else s)" by auto
    have d: "tokens rs e @ ahead s = tokens data (e \<and> m \<ge> length rs) @ ahead s'"
      using assms(2) by (auto simp: st(3,4) ahead_restore)
    have "st = VI_SUCCESS \<and> (e \<and> m \<ge> length rs) \<or> st = VI_SUCCESS_MAX_CNT \<and> length data = unat n \<or>
        st = VI_SUCCESS_TERM_CHAR \<and> last data = ro_termchar ro \<and> ro_termchar ro \<notin> set (butlast data)"
    proof (cases f)
      case None
      with m have "m = length rs" "cs = (if length rs = unat n then VI_SUCCESS_MAX_CNT else VI_SUCCESS)" by auto
      with None assms(4) st show ?thesis by (cases "length rs = unat n") simp_all
    next
      case (Some j)
      with m have "m = j" "cs = VI_SUCCESS_TERM_CHAR" by simp_all
      with Some st termchar_amount_Some [of ro rs j] show ?thesis unfolding assms(3) by simp
    qed
    with d st(1,2) have "?goal (e \<and> m \<ge> length rs)" by blast
    then show ?thesis ..
  qed
qed

section \<open>Properties\<close>

text \<open>C29. A GPIB session never loses, repeats or reorders data, however a read ends (success, device error, timeout or
  cancellation at any moment): the bytes and END marks waiting in the read-ahead, followed by those the transport
  hands over during the read, are what the read delivers followed by what waits afterwards. A read that does not succeed
  delivers nothing; one that returns \<open>VI_SUCCESS\<close> with data ends exactly at an END mark, one that returns \<open>VI_SUCCESS_TERM_CHAR\<close> at the
  first termination character, one that returns \<open>VI_SUCCESS_MAX_CNT\<close> has filled the buffer.\<close>

theorem gpib_read_conserves_data:
  assumes "bounded_reads tr" and "gpib_read (logged tr) race s x n ro = (st, data, k, y, s')"
  shows "\<exists>new e. handed_over s' = handed_over s @ new \<and> ahead s @ new = tokens data e @ ahead s' \<and>
     (data = [] \<and> \<not> e \<or>
      op_result y = st \<and> (st = VI_SUCCESS \<and> e \<or> st = VI_SUCCESS_MAX_CNT \<and> length data = unat n \<or>
        st = VI_SUCCESS_TERM_CHAR \<and> last data = ro_termchar ro \<and> ro_termchar ro \<notin> set (butlast data)))"
proof (cases "op_completed x")
  case True
  with assms(2) show ?thesis by (intro exI [of _ "[]"] exI [of _ False]) (simp add: gpib_read_def)
next
  case False
  have "loop_conserves ro (unat n) [] False s (gpib_read_loop (logged tr) ro (unat n) [] False x s)"
    using assms(1) by (intro gpib_loop_conserves) (simp_all add: termchar_amount_def)
  note c = this [unfolded loop_conserves_def]
  show ?thesis
  proof (cases "gpib_read_loop (logged tr) ro (unat n) [] False x s")
    case (Inl r)
    then obtain st1 y1 s1 where r: "gpib_read_loop (logged tr) ro (unat n) [] False x s = Inl (st1, y1, s1)" by (cases r) auto
    with c obtain new where "handed_over s1 = handed_over s @ new" "ahead s @ new = ahead s1" by auto
    with r False assms(2) show ?thesis by (intro exI [of _ new] exI [of _ False]) (auto simp: gpib_read_def)
  next
    case (Inr r)
    then obtain rs e f y1 s1 where r: "gpib_read_loop (logged tr) ro (unat n) [] False x s = Inr (rs, e, f, y1, s1)" by (cases r) auto
    with c obtain new where new: "handed_over s1 = handed_over s @ new" "ahead s @ new = tokens rs e @ ahead s1"
      and l: "e \<longrightarrow> gs_read_ahead s1 = [] \<and> \<not> gs_read_ahead_end s1" "f = termchar_amount ro rs" "f \<noteq> None \<or> length rs = unat n \<or> e" by auto
    from r False assms(2) have f: "gpib_read_finish race n rs e f y1 s1 = (st, data, k, y, s')" by (simp add: gpib_read_def)
    from gpib_finish_conserves [OF f l] new show ?thesis by (intro exI [of _ new]) auto
  qed
qed

text \<open>A transport that hands over scripted chunks and then lets every read time out.\<close>

definition scripted_gpib :: "(byte list \<times> bool) list gpib_transport" where
  "scripted_gpib =
     \<lparr>gt_capabilities = (\<lambda>t. \<lparr>gc_send_end = True, gc_device_clear = True, gc_trigger = False, gc_serial_poll = False\<rparr>),
      gt_read = (\<lambda>t x n. case t of
          [] \<Rightarrow> (VI_ERROR_TMO, [], False, snd (try_complete VI_ERROR_TMO x), [])
        | (bs, e) # t' \<Rightarrow> (VI_SUCCESS, take n bs, e, x, t')),
      gt_write = (\<lambda>t x bs e. (VI_SUCCESS, length bs, x, t)), gt_clear = (\<lambda>t x. (VI_SUCCESS, x, t)),
      gt_trigger = (\<lambda>t x. (VI_ERROR_NSUP_OPER, x, t)), gt_serial_poll = (\<lambda>t x. (VI_ERROR_NSUP_OPER, 0, x, t)),
      gt_discard_read_buffer = (\<lambda>t. t), gt_cancel = (\<lambda>t. t), gt_close = (\<lambda>t. [])\<rparr>"

theorem gpib_read_conserves_data_witness:
  "let s = gpib_session_new (logged scripted_gpib) ([([65, 66], False), ([67], True)], []);
       (st, data, k, y, s') = gpib_read (logged scripted_gpib) (Some VI_ERROR_ABORT) s (operation_new 0 2000) 8
         \<lparr>ro_termchar_enabled = False, ro_termchar = 10\<rparr> in
   st = VI_ERROR_ABORT \<and> data = [] \<and> ahead s' = [Byte 65, Byte 66, Byte 67, End_mark]"
proof -
  have b: "bounded_reads scripted_gpib" by (auto simp: bounded_reads_def scripted_gpib_def split: list.splits)
  let ?s = "gpib_session_new (logged scripted_gpib) ([([65, 66], False), ([67], True)], [])"
  have r: "gpib_read (logged scripted_gpib) (Some VI_ERROR_ABORT) ?s (operation_new 0 2000) 8 \<lparr>ro_termchar_enabled = False, ro_termchar = 10\<rparr>
    = (VI_ERROR_ABORT, [], 0, (operation_new 0 2000)\<lparr>op_result := VI_ERROR_ABORT\<rparr>,
       \<lparr>gs_transport = ([], [Byte 65, Byte 66, Byte 67, End_mark]), gs_capabilities = gs_capabilities ?s,
        gs_read_ahead = [65, 66, 67], gs_read_ahead_end = True\<rparr>)"
    by (simp add: gpib_read_def gpib_read_loop.simps gpib_chunk_def gpib_session_new_def logged_def scripted_gpib_def
        gpib_read_finish_def claimed_def operation_new_def operation_defs termchar_amount_def gpib_restore_read_ahead_def tokens_def)
  note t = gpib_read_conserves_data [OF b r]
  from t show ?thesis unfolding Let_def r prod.case by (simp add: ahead_def tokens_def)
qed

text \<open>Over every transport that does not undo a completion or move a deadline, the GPIB session keeps the contract
  that sessions rely on: each call only advances its operation, a read stores at most the requested bytes and
  reports exactly as many as it stored, and a read of an operation that is already completed stores nothing.\<close>

theorem gpib_session_obeys_backend_contract:
  assumes "gpib_transport_ok tr"
  shows "backend (gpib_backend tr race)"
  by (rule gpib_is_backend [OF assms])

theorem gpib_session_obeys_backend_contract_witness: "backend (gpib_backend scripted_gpib None)"
proof (rule gpib_session_obeys_backend_contract)
  show "gpib_transport_ok scripted_gpib"
    by (auto simp: gpib_transport_ok_def scripted_gpib_def split: list.splits)
qed

end
