(* ===== verification/Usb_Raw_Session.thy ===== *)
theory Usb_Raw_Session
  imports Device_Session Resource_Manager
begin

text \<open>
  The interface of a USB transport (\<open>src/backends/usb/usb_transport.h\<close>) and the raw USB session
  (\<open>src/backends/usb/usb_raw_session.{h,cpp}\<close>) over it. As for GPIB the transport is a record of its virtual functions
  and a parameter of the operations. The session obeys the contract of backends. A read conserves the data when the
  read-ahead fits into the buffer or no termination character is used; otherwise it can reorder it, which is proved
  on an example.
\<close>

section \<open>Transport\<close>

record usb_setup =
  us_request_type :: byte
  us_request :: byte
  us_value :: u16
  us_index :: u16

record usb_interface_info =
  ui_interface_number :: u16
  ui_bulk_out_endpoint :: byte
  ui_bulk_in_endpoint :: byte
  ui_interrupt_in_endpoint :: byte
  ui_bulk_in_max_packet_size :: u16
  ui_usb488 :: bool
  ui_alternate_setting :: byte
  ui_interrupt_out_endpoint :: byte

text \<open>Transfers return the status, the data received or the number of bytes sent, the operation and the transport.
  \<open>ut_now\<close> is what the session reads from the steady clock.\<close>

record 'u usb_transport =
  ut_interface_info :: "'u \<Rightarrow> usb_interface_info"
  ut_bulk_out :: "'u \<Rightarrow> op \<Rightarrow> byte list \<Rightarrow> vi_status \<times> nat \<times> op \<times> 'u"
  ut_bulk_in :: "'u \<Rightarrow> op \<Rightarrow> nat \<Rightarrow> vi_status \<times> byte list \<times> op \<times> 'u"
  ut_control_in :: "'u \<Rightarrow> op \<Rightarrow> usb_setup \<Rightarrow> nat \<Rightarrow> vi_status \<times> byte list \<times> op \<times> 'u"
  ut_control_out :: "'u \<Rightarrow> op \<Rightarrow> usb_setup \<Rightarrow> byte list \<Rightarrow> vi_status \<times> nat \<times> op \<times> 'u"
  ut_interrupt_in :: "'u \<Rightarrow> op \<Rightarrow> nat \<Rightarrow> vi_status \<times> byte list \<times> op \<times> 'u"
  ut_interrupt_out :: "'u \<Rightarrow> op \<Rightarrow> byte list \<Rightarrow> vi_status \<times> nat \<times> op \<times> 'u"
  ut_clear_halt :: "'u \<Rightarrow> op \<Rightarrow> byte \<Rightarrow> vi_status \<times> op \<times> 'u"
  ut_cancel :: "'u \<Rightarrow> 'u"
  ut_close :: "'u \<Rightarrow> 'u"
  ut_now :: "'u \<Rightarrow> nat"

text \<open>The default implementations of the virtual functions that have one.\<close>

definition usb_default_control_in :: "'u \<Rightarrow> op \<Rightarrow> usb_setup \<Rightarrow> nat \<Rightarrow> vi_status \<times> byte list \<times> op \<times> 'u" where
  "usb_default_control_in u x setup response_size = (VI_ERROR_NSUP_OPER, [], x, u)"

definition usb_default_control_out :: "'u \<Rightarrow> op \<Rightarrow> usb_setup \<Rightarrow> byte list \<Rightarrow> vi_status \<times> nat \<times> op \<times> 'u" where
  "usb_default_control_out u x setup data = (VI_ERROR_NSUP_OPER, 0, x, u)"

definition usb_default_interrupt_in :: "'u \<Rightarrow> op \<Rightarrow> nat \<Rightarrow> vi_status \<times> byte list \<times> op \<times> 'u" where
  "usb_default_interrupt_in u x maximum_size = (VI_ERROR_NSUP_OPER, [], x, u)"

definition usb_default_interrupt_out :: "'u \<Rightarrow> op \<Rightarrow> byte list \<Rightarrow> vi_status \<times> nat \<times> op \<times> 'u" where
  "usb_default_interrupt_out u x data = (VI_ERROR_NSUP_OPER, 0, x, u)"

definition usb_default_clear_halt :: "'u \<Rightarrow> op \<Rightarrow> byte \<Rightarrow> vi_status \<times> op \<times> 'u" where
  "usb_default_clear_halt u x endpoint_address = (VI_ERROR_NSUP_OPER, x, u)"

section \<open>Session\<close>

record 'u usb_raw_session =
  ur_transport :: 'u
  ur_configuration :: usb_raw_configuration
  ur_interface :: usb_interface_info
  ur_read_ahead :: "byte list"

definition usb_raw_session_new :: "'u usb_transport \<Rightarrow> 'u \<Rightarrow> usb_raw_configuration \<Rightarrow> 'u usb_raw_session" where
  "usb_raw_session_new tr u configuration =
     \<lparr>ur_transport = u, ur_configuration = configuration, ur_interface = ut_interface_info tr u, ur_read_ahead = []\<rparr>"

definition usb_raw_known_mask :: u16 where
  "usb_raw_known_mask = VI_READ_BUF OR VI_WRITE_BUF OR VI_READ_BUF_DISCARD OR VI_WRITE_BUF_DISCARD OR
     VI_IO_IN_BUF OR VI_IO_OUT_BUF OR VI_IO_IN_BUF_DISCARD OR VI_IO_OUT_BUF_DISCARD"

definition transfer_matches :: "usb_transfer \<Rightarrow> byte \<Rightarrow> usb_interface_info \<Rightarrow> bool \<Rightarrow> bool" where
  "transfer_matches ty endpoint interface input =
     (case ty of
        Usb_none \<Rightarrow> endpoint = 0
      | Usb_bulk \<Rightarrow> endpoint = (if input then ui_bulk_in_endpoint interface else ui_bulk_out_endpoint interface)
      | Usb_interrupt \<Rightarrow>
          endpoint = (if input then ui_interrupt_in_endpoint interface else ui_interrupt_out_endpoint interface))"

definition valid_configuration :: "'u usb_raw_session \<Rightarrow> bool" where
  "valid_configuration s \<longleftrightarrow>
     ui_interface_number (ur_interface s) \<le> 0xFF \<and>
     ui_alternate_setting (ur_interface s) = urc_alternate_setting (ur_configuration s) \<and>
     transfer_matches (urc_read_type (ur_configuration s)) (urc_read_endpoint (ur_configuration s)) (ur_interface s) True \<and>
     transfer_matches (urc_write_type (ur_configuration s)) (urc_write_endpoint (ur_configuration s)) (ur_interface s) False"

text \<open>The end of \<open>read\<close>, after the bytes have been taken from the read-ahead or received: what follows the
  termination character is put at the end of the read-ahead.\<close>

definition usb_raw_read_finish ::
  "vi_status option \<Rightarrow> u32 \<Rightarrow> read_options \<Rightarrow> byte list \<Rightarrow> op \<Rightarrow> 'u usb_raw_session \<Rightarrow>
   vi_status \<times> byte list \<times> u32 \<times> op \<times> 'u usb_raw_session" where
  "usb_raw_read_finish race count options received x s =
     (let (amount, status) = (case termchar_amount options received of
            Some n \<Rightarrow> (n, VI_SUCCESS_TERM_CHAR)
          | None \<Rightarrow> (length received, if length received = unat count then VI_SUCCESS_MAX_CNT else VI_SUCCESS));
          (won, y) = try_complete status (claimed race x) in
      if \<not> won then (op_result y, [], 0, y, s\<lparr>ur_read_ahead := received @ ur_read_ahead s\<rparr>)
      else (status, take amount received, of_nat amount, y, s\<lparr>ur_read_ahead := ur_read_ahead s @ drop amount received\<rparr>))"

definition usb_raw_read ::
  "'u usb_transport \<Rightarrow> vi_status option \<Rightarrow> 'u usb_raw_session \<Rightarrow> op \<Rightarrow> u32 \<Rightarrow> read_options \<Rightarrow>
   vi_status \<times> byte list \<times> u32 \<times> op \<times> 'u usb_raw_session" where
  "usb_raw_read tr race s x count options =
     (if \<not> valid_configuration s then (VI_ERROR_INV_PARAMETER, [], 0, x, s)
      else if urc_read_type (ur_configuration s) = Usb_none then (VI_ERROR_NSUP_OPER, [], 0, x, s)
      else if ur_read_ahead s \<noteq> [] then
        let amount = min (unat count) (length (ur_read_ahead s)) in
        usb_raw_read_finish race count options (take amount (ur_read_ahead s)) x
          (s\<lparr>ur_read_ahead := drop amount (ur_read_ahead s)\<rparr>)
      else
        let (status, received, y, u) =
              (if urc_read_type (ur_configuration s) = Usb_bulk then ut_bulk_in tr (ur_transport s) x (unat count)
               else ut_interrupt_in tr (ur_transport s) x (unat count));
            s1 = s\<lparr>ur_transport := u\<rparr> in
        if status < VI_SUCCESS then (status, [], 0, y, s1)
        else if length received > unat count then (VI_ERROR_IO, [], 0, y, s1)
        else usb_raw_read_finish race count options received y s1)"

definition usb_raw_write ::
  "'u usb_transport \<Rightarrow> vi_status option \<Rightarrow> 'u usb_raw_session \<Rightarrow> op \<Rightarrow> byte list \<Rightarrow> write_options \<Rightarrow>
   vi_status \<times> u32 \<times> op \<times> 'u usb_raw_session" where
  "usb_raw_write tr race s x data options =
     (if \<not> valid_configuration s then (VI_ERROR_INV_PARAMETER, 0, x, s)
      else if urc_write_type (ur_configuration s) = Usb_none then (VI_ERROR_NSUP_OPER, 0, x, s)
      else
        let (status, transferred, y, u) =
              (if urc_write_type (ur_configuration s) = Usb_bulk then ut_bulk_out tr (ur_transport s) x data
               else ut_interrupt_out tr (ur_transport s) x data);
            s1 = s\<lparr>ur_transport := u\<rparr> in
        if status \<ge> VI_SUCCESS then
          if transferred \<noteq> length data then (VI_ERROR_IO, 0, y, s1)
          else
            let (won, z) = try_complete status (claimed race y) in
            if \<not> won then (op_result z, 0, z, s1) else (status, of_nat transferred, z, s1)
        else (status, 0, y, s1))"

definition usb_raw_clear :: "'u usb_transport \<Rightarrow> 'u usb_raw_session \<Rightarrow> op \<Rightarrow> vi_status \<times> op \<times> 'u usb_raw_session" where
  "usb_raw_clear tr s x =
     (if \<not> valid_configuration s then (VI_ERROR_INV_PARAMETER, x, s)
      else
        let re = urc_read_endpoint (ur_configuration s); we = urc_write_endpoint (ur_configuration s);
            (status, y, u) = (if re \<noteq> 0 then ut_clear_halt tr (ur_transport s) x re else (VI_SUCCESS, x, ur_transport s)) in
        if re \<noteq> 0 \<and> status < VI_SUCCESS then (status, y, s\<lparr>ur_transport := u\<rparr>)
        else
          let (status', z, u') = (if we \<noteq> 0 then ut_clear_halt tr u y we else (VI_SUCCESS, y, u)) in
          if we \<noteq> 0 \<and> status' < VI_SUCCESS then (status', z, s\<lparr>ur_transport := u'\<rparr>)
          else (if re \<noteq> 0 \<or> we \<noteq> 0 then VI_SUCCESS else VI_ERROR_NSUP_OPER, z, s\<lparr>ur_transport := u'\<rparr>))"

definition usb_raw_flush :: "'u usb_raw_session \<Rightarrow> op \<Rightarrow> u16 \<Rightarrow> vi_status \<times> op \<times> 'u usb_raw_session" where
  "usb_raw_flush s x m =
     (if m = 0 \<or> m AND NOT usb_raw_known_mask \<noteq> 0 then (VI_ERROR_INV_MASK, x, s)
      else if m AND (VI_READ_BUF_DISCARD OR VI_IO_IN_BUF_DISCARD) \<noteq> 0 then (VI_SUCCESS, x, s\<lparr>ur_read_ahead := []\<rparr>)
      else (VI_SUCCESS, x, s))"

text \<open>\<open>data\<close> is the buffer of \<open>count\<close> bytes; a response is copied over its beginning.\<close>

definition usb_raw_control ::
  "'u usb_transport \<Rightarrow> vi_status option \<Rightarrow> 'u usb_raw_session \<Rightarrow> op \<Rightarrow> byte \<Rightarrow> byte \<Rightarrow> u16 \<Rightarrow> u16 \<Rightarrow> byte list \<Rightarrow>
   vi_status \<times> byte list \<times> u32 \<times> op \<times> 'u usb_raw_session" where
  "usb_raw_control tr race s x request_type request value index data =
     (if \<not> valid_configuration s then (VI_ERROR_INV_PARAMETER, data, 0, x, s)
      else
        let setup = \<lparr>us_request_type = request_type, us_request = request, us_value = value, us_index = index\<rparr> in
        if request_type AND 0x80 \<noteq> 0 then
          let (status, response, y, u) = ut_control_in tr (ur_transport s) x setup (length data); s1 = s\<lparr>ur_transport := u\<rparr> in
          if status < VI_SUCCESS then (status, data, 0, y, s1)
          else if length response > length data then (VI_ERROR_IO, data, 0, y, s1)
          else
            let (won, z) = try_complete status (claimed race y) in
            if \<not> won then (op_result z, data, 0, z, s1)
            else (status, response @ drop (length response) data, of_nat (length response), z, s1)
        else
          let (status, transferred, y, u) = ut_control_out tr (ur_transport s) x setup data; s1 = s\<lparr>ur_transport := u\<rparr> in
          if status \<ge> VI_SUCCESS then
            if transferred > length data then (VI_ERROR_IO, data, 0, y, s1)
            else
              let (won, z) = try_complete status (claimed race y) in
              if \<not> won then (op_result z, data, 0, z, s1) else (status, data, of_nat transferred, z, s1)
          else (status, data, 0, y, s1))"

definition usb_raw_backend :: "'u usb_transport \<Rightarrow> vi_status option \<Rightarrow> 'u usb_raw_session backend_ops" where
  "usb_raw_backend tr race =
     \<lparr>be_read = (\<lambda>s x n ro. Some (usb_raw_read tr race s x n ro)),
      be_write = (\<lambda>s x bs wo. Some (usb_raw_write tr race s x bs wo)),
      be_clear = (\<lambda>s x. Some (usb_raw_clear tr s x)), be_flush = usb_raw_flush,
      be_read_stb = (\<lambda>s x out. Some (VI_ERROR_NSUP_OPER, None, x, s)),
      be_assert_trigger = (\<lambda>s x pr. Some (VI_ERROR_NSUP_OPER, x, s)),
      be_usb_control = usb_raw_control tr race, be_lock = default_lock, be_unlock = default_unlock,
      be_set_attribute = default_set_attribute, be_get_attribute = default_get_attribute,
      be_close = (\<lambda>s. s\<lparr>ur_transport := ut_close tr (ur_transport s)\<rparr>),
      be_notify_cancel = (\<lambda>s. s\<lparr>ur_transport := ut_cancel tr (ur_transport s)\<rparr>)\<rparr>"

section \<open>The contract of backends\<close>

definition usb_transport_ok :: "'u usb_transport \<Rightarrow> bool" where
  "usb_transport_ok tr \<longleftrightarrow>
     (\<forall>u x bs st k y u'. ut_bulk_out tr u x bs = (st, k, y, u') \<longrightarrow> op_advances x y) \<and>
     (\<forall>u x n st bs y u'. ut_bulk_in tr u x n = (st, bs, y, u') \<longrightarrow> op_advances x y) \<and>
     (\<forall>u x r n st bs y u'. ut_control_in tr u x r n = (st, bs, y, u') \<longrightarrow> op_advances x y) \<and>
     (\<forall>u x r bs st k y u'. ut_control_out tr u x r bs = (st, k, y, u') \<longrightarrow> op_advances x y) \<and>
     (\<forall>u x n st bs y u'. ut_interrupt_in tr u x n = (st, bs, y, u') \<longrightarrow> op_advances x y) \<and>
     (\<forall>u x bs st k y u'. ut_interrupt_out tr u x bs = (st, k, y, u') \<longrightarrow> op_advances x y) \<and>
     (\<forall>u x e st y u'. ut_clear_halt tr u x e = (st, y, u') \<longrightarrow> op_advances x y)"

lemma usb_transport_okD:
  assumes "usb_transport_ok tr"
  shows "ut_bulk_out tr u x bs = (st, k, y, u') \<Longrightarrow> op_advances x y" and "ut_bulk_in tr u x n = (st, ds, y, u') \<Longrightarrow> op_advances x y"
    and "ut_control_in tr u x r n = (st, ds, y, u') \<Longrightarrow> op_advances x y"
    and "ut_control_out tr u x r bs = (st, k, y, u') \<Longrightarrow> op_advances x y"
    and "ut_interrupt_in tr u x n = (st, ds, y, u') \<Longrightarrow> op_advances x y"
    and "ut_interrupt_out tr u x bs = (st, k, y, u') \<Longrightarrow> op_advances x y"
    and "ut_clear_halt tr u x e = (st, y, u') \<Longrightarrow> op_advances x y"
  using assms [unfolded usb_transport_ok_def] by - metis+

text \<open>What the end of a read does with the bytes it has.\<close>

lemma usb_raw_finish_cases:
  assumes "usb_raw_read_finish race n ro rs x s = (st, data, k, y, s')" and "length rs \<le> unat n"
  shows "op_advances x y" and "length data \<le> unat n \<and> unat k = length data" and "op_completed x \<Longrightarrow> data = []"
    and "ur_transport s' = ur_transport s"
    and "data = [] \<and> ur_read_ahead s' = rs @ ur_read_ahead s \<or>
      st = op_result y \<and> (\<exists>m. data = take m rs \<and> ur_read_ahead s' = ur_read_ahead s @ drop m rs \<and>
        (m \<ge> length rs \<and> (st = VI_SUCCESS \<or> st = VI_SUCCESS_MAX_CNT \<and> length rs = unat n) \<or>
         st = VI_SUCCESS_TERM_CHAR \<and> termchar_amount ro rs = Some m))"
proof -
  obtain m cs where m: "(case termchar_amount ro rs of Some j \<Rightarrow> (j, VI_SUCCESS_TERM_CHAR)
      | None \<Rightarrow> (length rs, if length rs = unat n then VI_SUCCESS_MAX_CNT else VI_SUCCESS)) = (m, cs)" by fastforce
  obtain won z where t: "try_complete cs (claimed race x) = (won, z)" by fastforce
  note r = assms(1) [unfolded usb_raw_read_finish_def m prod.case Let_def t]
  have le: "m \<le> length rs" using m termchar_amount_Some [of ro rs] by (auto split: option.splits)
  have mc: "m = length rs \<and> cs = VI_SUCCESS \<or> m = length rs \<and> cs = VI_SUCCESS_MAX_CNT \<and> length rs = unat n \<or>
      cs = VI_SUCCESS_TERM_CHAR \<and> termchar_amount ro rs = Some m" using m by (auto split: option.splits if_splits)
  show "op_advances x y" using r try_claimed(1) [OF t] by (auto split: if_splits)
  have "unat (of_nat m :: u32) = m"
    using le assms(2) unsigned_less [of n, where ?'a = nat] by (simp add: unat_of_nat take_bit_eq_mod)
  with r le assms(2) show "length data \<le> unat n \<and> unat k = length data" by (auto split: if_splits)
  show "op_completed x \<Longrightarrow> data = []" using r try_claimed(2) [OF t] by (auto split: if_splits)
  show "ur_transport s' = ur_transport s" using r by (auto split: if_splits)
  show "data = [] \<and> ur_read_ahead s' = rs @ ur_read_ahead s \<or>
      st = op_result y \<and> (\<exists>m. data = take m rs \<and> ur_read_ahead s' = ur_read_ahead s @ drop m rs \<and>
        (m \<ge> length rs \<and> (st = VI_SUCCESS \<or> st = VI_SUCCESS_MAX_CNT \<and> length rs = unat n) \<or>
         st = VI_SUCCESS_TERM_CHAR \<and> termchar_amount ro rs = Some m))"
  proof (cases won)
    case True
    with r try_claimed(3) [OF t] have "data = take m rs" "ur_read_ahead s' = ur_read_ahead s @ drop m rs" "st = cs" "op_result y = st" by auto
    with mc show ?thesis by - (rule disjI2, intro conjI exI [of _ m], auto)
  qed (use r in auto)
qed

text \<open>A read passes on bytes from the read-ahead or from one transfer.\<close>

definition usb_raw_incoming :: "'u usb_transport \<Rightarrow> 'u usb_raw_session \<Rightarrow> op \<Rightarrow> u32 \<Rightarrow> byte list" where
  "usb_raw_incoming tr s x n =
     (if valid_configuration s \<and> urc_read_type (ur_configuration s) \<noteq> Usb_none \<and> ur_read_ahead s = [] then
        let (status, received, y, u) =
              (if urc_read_type (ur_configuration s) = Usb_bulk then ut_bulk_in tr (ur_transport s) x (unat n)
               else ut_interrupt_in tr (ur_transport s) x (unat n)) in
        if status < VI_SUCCESS \<or> length received > unat n then [] else received
      else [])"

lemma usb_raw_read_cases:
  assumes "usb_raw_read tr race s x n ro = (st, data, k, y, s')"
  obtains (refused) "data = []" "k = 0" "ur_read_ahead s' = ur_read_ahead s" "usb_raw_incoming tr s x n = []"
      "y = x \<or> (\<exists>st' bs u. ut_bulk_in tr (ur_transport s) x (unat n) = (st', bs, y, u)) \<or>
         (\<exists>st' bs u. ut_interrupt_in tr (ur_transport s) x (unat n) = (st', bs, y, u))"
    | (ahead) m where "m = min (unat n) (length (ur_read_ahead s))" "ur_read_ahead s \<noteq> []" "usb_raw_incoming tr s x n = []"
        "usb_raw_read_finish race n ro (take m (ur_read_ahead s)) x (s\<lparr>ur_read_ahead := drop m (ur_read_ahead s)\<rparr>) = (st, data, k, y, s')"
    | (transfer) st' rs z u where "ur_read_ahead s = []" "usb_raw_incoming tr s x n = rs" "length rs \<le> unat n"
        "ut_bulk_in tr (ur_transport s) x (unat n) = (st', rs, z, u) \<or> ut_interrupt_in tr (ur_transport s) x (unat n) = (st', rs, z, u)"
        "usb_raw_read_finish race n ro rs z (s\<lparr>ur_transport := u\<rparr>) = (st, data, k, y, s')"
proof -
  let ?in = "if urc_read_type (ur_configuration s) = Usb_bulk then ut_bulk_in tr (ur_transport s) x (unat n)
             else ut_interrupt_in tr (ur_transport s) x (unat n)"
  obtain st' rs z u where i: "?in = (st', rs, z, u)" by (metis prod_cases4)
  then have io: "ut_bulk_in tr (ur_transport s) x (unat n) = (st', rs, z, u) \<or> ut_interrupt_in tr (ur_transport s) x (unat n) = (st', rs, z, u)"
    by (auto split: if_splits)
  show thesis
  proof (cases "valid_configuration s \<and> urc_read_type (ur_configuration s) \<noteq> Usb_none")
    case False
    with assms show thesis by (intro refused) (auto simp: usb_raw_read_def usb_raw_incoming_def split: if_splits)
  next
    case True
    note r = assms [unfolded usb_raw_read_def i Let_def prod.case] and inc = usb_raw_incoming_def [of tr s x n, unfolded i Let_def prod.case]
    show thesis
    proof (cases "ur_read_ahead s = []")
      case ra: False
      with True r inc show thesis by (intro ahead) (auto split: if_splits)
    next
      case ra: True
      show thesis
      proof (cases "st' < VI_SUCCESS \<or> length rs > unat n")
        case err: True
        then have "data = []" "k = 0" "s' = s\<lparr>ur_transport := u\<rparr>" "y = z" using r True ra by (auto split: if_splits)
        with err True ra inc io show thesis by (intro refused) auto
      next
        case ok: False
        with r True ra inc io show thesis by (intro transfer) auto
      qed
    qed
  qed
qed

lemma usb_raw_is_backend:
  assumes "usb_transport_ok tr"
  shows "backend (usb_raw_backend tr race)"
proof
  note D = usb_transport_okD [OF assms]
  fix b b' x y n ro st data k
  assume "be_read (usb_raw_backend tr race) b x n ro = Some (st, data, k, y, b')"
  then have "usb_raw_read tr race b x n ro = (st, data, k, y, b')" by (simp add: usb_raw_backend_def)
  then have "op_advances x y \<and> (length data \<le> unat n \<and> unat k = length data) \<and> (op_completed x \<longrightarrow> data = [])"
  proof (cases rule: usb_raw_read_cases)
    case refused
    then show ?thesis using D(2,5) by auto
  next
    case (ahead m)
    then show ?thesis using usb_raw_finish_cases(1-3) [OF ahead(4)] by auto
  next
    case (transfer st' rs z u)
    have "op_advances x z" using transfer(4) D(2,5) by blast
    moreover from this have "op_completed x \<longrightarrow> op_completed z" by (auto simp: op_advances_def op_completed_def)
    ultimately show ?thesis using usb_raw_finish_cases(1-3) [OF transfer(5,3)] by (auto intro: op_advances_trans)
  qed
  then show "op_advances x y" "length data \<le> unat n \<and> unat k = length data" "op_completed x \<Longrightarrow> data = []" by blast+
next
  note D = usb_transport_okD [OF assms]
  fix b b' x y bs wo st k
  assume "be_write (usb_raw_backend tr race) b x bs wo = Some (st, k, y, b')"
  then show "op_advances x y"
    by (auto simp: usb_raw_backend_def usb_raw_write_def Let_def split: if_splits prod.splits intro: D(1,6) try_claimed_trans)
next
  note D = usb_transport_okD [OF assms]
  fix b b' x y st
  assume "be_clear (usb_raw_backend tr race) b x = Some (st, y, b')"
  then show "op_advances x y"
    by (auto simp: usb_raw_backend_def usb_raw_clear_def Let_def split: if_splits prod.splits intro: D(7) op_advances_trans [OF D(7) D(7)])
next
  note D = usb_transport_okD [OF assms]
  fix b b' x y rt rq val i bs st ds k
  assume "be_usb_control (usb_raw_backend tr race) b x rt rq val i bs = (st, ds, k, y, b')"
  then show "op_advances x y"
    by (auto simp: usb_raw_backend_def usb_raw_control_def Let_def split: if_splits prod.splits intro: D(3,4) try_claimed_trans)
qed (auto simp: usb_raw_backend_def usb_raw_flush_def default_lock_def default_unlock_def split: if_splits)

section \<open>Properties\<close>

text \<open>A raw USB read conserves the data when no termination character is used or the read-ahead fits into the buffer:
  the bytes delivered followed by the read-ahead are the read-ahead before and the bytes of the transfer, if there was one,
  whether the read succeeds, fails or loses the operation to a cancellation. What it delivers ends at the first
  termination character, fills the buffer, or is all there was.\<close>

theorem usb_raw_read_conserves_data:
  assumes "usb_raw_read tr race s x n ro = (st, data, k, y, s')"
    and "\<not> ro_termchar_enabled ro \<or> length (ur_read_ahead s) \<le> unat n"
  shows "data @ ur_read_ahead s' = ur_read_ahead s @ usb_raw_incoming tr s x n \<and> unat k = length data \<and>
     (data = [] \<or> st = VI_SUCCESS \<or> st = VI_SUCCESS_MAX_CNT \<and> length data = unat n \<or>
      st = VI_SUCCESS_TERM_CHAR \<and> last data = ro_termchar ro \<and> ro_termchar ro \<notin> set (butlast data))"
  using assms(1)
proof (cases rule: usb_raw_read_cases)
  case (ahead m)
  have le: "length (take m (ur_read_ahead s)) \<le> unat n" using ahead(1) by simp
  note f = usb_raw_finish_cases(2,5) [OF ahead(4) le]
  from f(2) show ?thesis
  proof (elim disjE exE conjE)
    fix j assume d: "data = take j (take m (ur_read_ahead s))"
      and ra: "ur_read_ahead s' = ur_read_ahead (s\<lparr>ur_read_ahead := drop m (ur_read_ahead s)\<rparr>) @ drop j (take m (ur_read_ahead s))"
      and st: "st = VI_SUCCESS_TERM_CHAR" and t: "termchar_amount ro (take m (ur_read_ahead s)) = Some j"
    from t assms(2) have "length (ur_read_ahead s) \<le> unat n" by (auto simp: termchar_amount_def split: if_splits)
    with ahead(1,3) d ra st f(1) termchar_amount_Some [OF t] show ?thesis by auto
  qed (use ahead f(1) in auto)
next
  case (transfer st' rs z u)
  note f = usb_raw_finish_cases(2,5) [OF transfer(5,3)]
  from f(2) show ?thesis
  proof (elim disjE exE conjE)
    fix j assume "data = take j rs" "st = VI_SUCCESS_TERM_CHAR" "termchar_amount ro rs = Some j"
      "ur_read_ahead s' = ur_read_ahead (s\<lparr>ur_transport := u\<rparr>) @ drop j rs"
    with transfer(1,2) f(1) termchar_amount_Some [of ro rs j] show ?thesis by auto
  qed (use transfer f(1) in auto)
qed simp

text \<open>A bulk device that sends scripted packets.\<close>

definition raw_interface :: usb_interface_info where
  "raw_interface = \<lparr>ui_interface_number = 0, ui_bulk_out_endpoint = 0x02, ui_bulk_in_endpoint = 0x81, ui_interrupt_in_endpoint = 0,
     ui_bulk_in_max_packet_size = 64, ui_usb488 = False, ui_alternate_setting = 0, ui_interrupt_out_endpoint = 0\<rparr>"

definition scripted_usb :: "byte list list usb_transport" where
  "scripted_usb =
     \<lparr>ut_interface_info = (\<lambda>u. raw_interface), ut_bulk_out = (\<lambda>u x bs. (VI_SUCCESS, length bs, x, u)),
      ut_bulk_in = (\<lambda>u x n. case u of [] \<Rightarrow> (VI_ERROR_TMO, [], snd (try_complete VI_ERROR_TMO x), []) | p # u' \<Rightarrow> (VI_SUCCESS, take n p, x, u')),
      ut_control_in = usb_default_control_in, ut_control_out = usb_default_control_out,
      ut_interrupt_in = usb_default_interrupt_in, ut_interrupt_out = usb_default_interrupt_out,
      ut_clear_halt = usb_default_clear_halt, ut_cancel = (\<lambda>u. u), ut_close = (\<lambda>u. []), ut_now = (\<lambda>u. 0)\<rparr>"

definition raw_example :: "byte list list usb_raw_session" where
  "raw_example = usb_raw_session_new scripted_usb [[120, 10, 97, 10, 98, 99, 100, 101]]
     \<lparr>urc_alternate_setting = 0, urc_read_type = Usb_bulk, urc_read_endpoint = 0x81, urc_write_type = Usb_bulk, urc_write_endpoint = 0x02\<rparr>"

lemmas raw_example_eval =
  usb_raw_read_def usb_raw_read_finish_def raw_example_def usb_raw_session_new_def valid_configuration_def transfer_matches_def
  scripted_usb_def raw_interface_def termchar_amount_def claimed_def operation_new_def operation_defs

theorem usb_raw_read_conserves_data_witness:
  "let (st, data, k, y, s') = usb_raw_read scripted_usb None raw_example (operation_new 0 2000) 8
         \<lparr>ro_termchar_enabled = True, ro_termchar = 10\<rparr> in
   st = VI_SUCCESS_TERM_CHAR \<and> data @ ur_read_ahead s' = [120, 10, 97, 10, 98, 99, 100, 101]"
proof -
  let ?ro = "\<lparr>ro_termchar_enabled = True, ro_termchar = 10\<rparr>"
  obtain y s' where r: "usb_raw_read scripted_usb None raw_example (operation_new 0 2000) 8 ?ro = (VI_SUCCESS_TERM_CHAR, [120, 10], 2, y, s')"
    by (simp add: raw_example_eval)
  have c: "\<not> ro_termchar_enabled ?ro \<or> length (ur_read_ahead raw_example) \<le> unat (8 :: u32)" by (simp add: raw_example_def usb_raw_session_new_def)
  have "usb_raw_incoming scripted_usb raw_example (operation_new 0 2000) 8 = [120, 10, 97, 10, 98, 99, 100, 101]" "ur_read_ahead raw_example = []"
    by (simp_all add: usb_raw_incoming_def raw_example_eval)
  with usb_raw_read_conserves_data [OF r c] show ?thesis unfolding r by simp
qed

text \<open>The restriction is needed: when a read takes part of the read-ahead and finds the termination character before the
  end of that part, the bytes behind it go to the end of the read-ahead. The device sends \<open>x LF a LF b c d e\<close>; reads with
  buffers of 8, 4 and 4 bytes and termination character LF deliver \<open>x LF\<close>, \<open>a LF\<close> and then \<open>d e b c\<close>.\<close>

theorem usb_raw_read_reorders_read_ahead:
  "let ro = \<lparr>ro_termchar_enabled = True, ro_termchar = 10\<rparr>; x = operation_new 0 2000;
       (st1, d1, k1, y1, s1) = usb_raw_read scripted_usb None raw_example x 8 ro;
       (st2, d2, k2, y2, s2) = usb_raw_read scripted_usb None s1 x 4 ro;
       (st3, d3, k3, y3, s3) = usb_raw_read scripted_usb None s2 x 4 ro in
   d1 = [120, 10] \<and> d2 = [97, 10] \<and> d3 = [100, 101, 98, 99]"
  by (simp add: raw_example_eval)

text \<open>Over every transport that does not undo a completion or move a deadline, the raw USB session keeps the contract that
  sessions rely on, control transfers included.\<close>

theorem usb_raw_session_obeys_backend_contract:
  assumes "usb_transport_ok tr"
  shows "backend (usb_raw_backend tr race)"
  by (rule usb_raw_is_backend [OF assms])

theorem usb_raw_session_obeys_backend_contract_witness: "backend (usb_raw_backend scripted_usb None)"
proof (rule usb_raw_session_obeys_backend_contract)
  show "usb_transport_ok scripted_usb"
    by (auto simp: usb_transport_ok_def scripted_usb_def usb_default_control_in_def usb_default_control_out_def
        usb_default_interrupt_in_def usb_default_interrupt_out_def usb_default_clear_halt_def split: list.splits)
qed

end
