(* ===== verification/Usbtmc_Session.thy ===== *)
theory Usbtmc_Session
  imports Usb_Raw_Session Usbtmc_Protocol
begin

text \<open>
  The USBTMC session (\<open>src/backends/usb/usbtmc_session.{h,cpp}\<close>): message transfers over the bulk endpoints with the frames of
  \<open>Usbtmc_Protocol\<close>, and the recovery after a cancelled transfer by the abort and clear requests of the control endpoint. The
  loops that poll the device are partial functions: a device that never finishes and an operation without a deadline
  keep them running, which is the value \<open>None\<close>. The loop of \<open>read\<close> is a total function. Only the transport changes in the
  polling loops, so they work on the transport and the operation.
\<close>

definition usbtmc_known_mask :: u16 where
  "usbtmc_known_mask = VI_READ_BUF OR VI_WRITE_BUF OR VI_READ_BUF_DISCARD OR VI_WRITE_BUF_DISCARD OR
     VI_IO_IN_BUF OR VI_IO_OUT_BUF OR VI_IO_IN_BUF_DISCARD OR VI_IO_OUT_BUF_DISCARD"

definition kClassInterfaceIn :: byte where [simp]: "kClassInterfaceIn = 0xa1"
definition kClassEndpointIn :: byte where [simp]: "kClassEndpointIn = 0xa2"
definition kInitiateAbortBulkOut :: byte where [simp]: "kInitiateAbortBulkOut = 1"
definition kCheckAbortBulkOut :: byte where [simp]: "kCheckAbortBulkOut = 2"
definition kInitiateAbortBulkIn :: byte where [simp]: "kInitiateAbortBulkIn = 3"
definition kCheckAbortBulkIn :: byte where [simp]: "kCheckAbortBulkIn = 4"
definition kInitiateClear :: byte where [simp]: "kInitiateClear = 5"
definition kCheckClear :: byte where [simp]: "kCheckClear = 6"
definition kGetCapabilities :: byte where [simp]: "kGetCapabilities = 7"
definition kReadStatusByte :: byte where [simp]: "kReadStatusByte = 128"
definition kRecoveryTimeout :: u32 where [simp]: "kRecoveryTimeout = 500"

definition interface_request :: "byte \<Rightarrow> u16 \<Rightarrow> usb_interface_info \<Rightarrow> usb_setup" where
  "interface_request request value interface =
     \<lparr>us_request_type = kClassInterfaceIn, us_request = request, us_value = value, us_index = ui_interface_number interface\<rparr>"

definition endpoint_request :: "byte \<Rightarrow> u16 \<Rightarrow> byte \<Rightarrow> usb_setup" where
  "endpoint_request request value endpoint =
     \<lparr>us_request_type = kClassEndpointIn, us_request = request, us_value = value, us_index = ucast endpoint\<rparr>"

definition operation_ready :: "nat \<Rightarrow> op \<Rightarrow> bool \<times> op" where
  "operation_ready now x =
     (if op_completed x then (False, x)
      else (case op_deadline x of
          None \<Rightarrow> (True, x)
        | Some deadline \<Rightarrow> if deadline \<le> now then (False, snd (snd (request_timeout x))) else (True, x)))"

section \<open>State\<close>

record 'u usbtmc_session =
  tmc_transport :: 'u
  tmc_interface :: usb_interface_info
  tmc_read_ahead :: "byte list"
  tmc_read_ahead_ends_message :: bool
  tmc_capabilities_loaded :: bool
  tmc_trigger_supported :: bool
  tmc_usable :: bool
  tmc_next_tag :: byte
  tmc_next_status_tag :: byte

definition usbtmc_session_new :: "'u usb_transport \<Rightarrow> 'u \<Rightarrow> 'u usbtmc_session" where
  "usbtmc_session_new tr u =
     \<lparr>tmc_transport = u, tmc_interface = ut_interface_info tr u, tmc_read_ahead = [], tmc_read_ahead_ends_message = False,
      tmc_capabilities_loaded = False, tmc_trigger_supported = False, tmc_usable = True, tmc_next_tag = 1,
      tmc_next_status_tag = 2\<rparr>"

definition next_tag :: "'u usbtmc_session \<Rightarrow> byte \<times> 'u usbtmc_session" where
  "next_tag s =
     (let t = tmc_next_tag s + 1 in (tmc_next_tag s, s\<lparr>tmc_next_tag := (if t = 0 then 1 else t)\<rparr>))"

definition next_status_tag :: "'u usbtmc_session \<Rightarrow> byte \<times> 'u usbtmc_session" where
  "next_status_tag s =
     (let t = tmc_next_status_tag s + 1 in (tmc_next_status_tag s, s\<lparr>tmc_next_status_tag := (if t > 127 then 2 else t)\<rparr>))"

definition tmc_restore_read_ahead :: "byte list \<Rightarrow> 'u usbtmc_session \<Rightarrow> 'u usbtmc_session" where
  "tmc_restore_read_ahead bytes s = s\<lparr>tmc_read_ahead := bytes @ tmc_read_ahead s\<rparr>"

definition valid_interface :: "usb_interface_info \<Rightarrow> bool" where
  "valid_interface i \<longleftrightarrow>
     ui_bulk_out_endpoint i \<noteq> 0 \<and> ui_bulk_out_endpoint i AND 0x80 = 0 \<and> ui_bulk_in_endpoint i AND 0x80 \<noteq> 0 \<and>
     ui_bulk_in_max_packet_size i \<noteq> 0 \<and> (ui_interrupt_in_endpoint i = 0 \<or> ui_interrupt_in_endpoint i AND 0x80 \<noteq> 0)"

definition mark_unusable :: "'u usb_transport \<Rightarrow> 'u usbtmc_session \<Rightarrow> 'u usbtmc_session" where
  "mark_unusable tr s = s\<lparr>tmc_usable := False, tmc_transport := ut_close tr (tmc_transport s)\<rparr>"

definition forget_read_ahead :: "'u usbtmc_session \<Rightarrow> 'u usbtmc_session" where
  "forget_read_ahead s = s\<lparr>tmc_read_ahead := [], tmc_read_ahead_ends_message := False\<rparr>"

definition ensure_capabilities ::
  "'u usb_transport \<Rightarrow> op \<Rightarrow> 'u usbtmc_session \<Rightarrow> vi_status \<times> op \<times> 'u usbtmc_session" where
  "ensure_capabilities tr x s =
     (if tmc_capabilities_loaded s then (VI_SUCCESS, x, s)
      else if \<not> valid_interface (tmc_interface s) \<or> \<not> ui_usb488 (tmc_interface s) then (VI_ERROR_NSUP_OPER, x, s)
      else
        let (status, response, y, u) =
              ut_control_in tr (tmc_transport s) x (interface_request kGetCapabilities 0 (tmc_interface s)) 24;
            s1 = s\<lparr>tmc_transport := u\<rparr> in
        if status < VI_SUCCESS then (status, y, s1)
        else case decode_capabilities response True of
          None \<Rightarrow> (VI_ERROR_IO, y, s1)
        | Some c \<Rightarrow>
            if cap_status c \<noteq> kStatusSuccess \<or> \<not> cap_usb488 c \<or>
               cap_usb488_service_request c \<and> ui_interrupt_in_endpoint (tmc_interface s) = 0
            then (VI_ERROR_IO, y, s1)
            else (VI_SUCCESS, y, s1\<lparr>tmc_capabilities_loaded := True, tmc_trigger_supported := cap_usb488_trigger c\<rparr>))"

section \<open>Polling the device\<close>

partial_function (option) drain_loop ::
  "'u usb_transport \<Rightarrow> usb_interface_info \<Rightarrow> op \<Rightarrow> 'u \<Rightarrow> (vi_status \<times> op \<times> 'u) option" where
  "drain_loop tr i x u =
     (case operation_ready (ut_now tr u) x of
        (ready, x1) \<Rightarrow>
          if \<not> ready then Some (op_result x1, x1, u)
          else (case ut_bulk_in tr u x1 (unat (ui_bulk_in_max_packet_size i)) of
             (status, discarded, y, u1) \<Rightarrow>
               if status < VI_SUCCESS then Some (status, y, u1)
               else if length discarded > unat (ui_bulk_in_max_packet_size i) then Some (VI_ERROR_IO, y, u1)
               else if length discarded < unat (ui_bulk_in_max_packet_size i) then Some (VI_SUCCESS, y, u1)
               else drain_loop tr i y u1))"

definition drain_bulk_in ::
  "'u usb_transport \<Rightarrow> usb_interface_info \<Rightarrow> op \<Rightarrow> 'u \<Rightarrow> (vi_status \<times> op \<times> 'u) option" where
  "drain_bulk_in tr i x u = (if \<not> valid_interface i then Some (VI_ERROR_NSUP_OPER, x, u) else drain_loop tr i x u)"

text \<open>One check of a polling loop: the loop returns, or goes on after draining the bulk-in endpoint where the status asks
  for it.\<close>

datatype 'u poll = Poll_return vi_status op 'u | Poll_success op 'u | Poll_pending bool op 'u

definition poll_status ::
  "'u usb_transport \<Rightarrow> usb_setup \<Rightarrow> nat \<Rightarrow> (byte list \<Rightarrow> split_status option) \<Rightarrow> op \<Rightarrow> 'u \<Rightarrow> 'u poll" where
  "poll_status tr request response_size decode x u =
     (case ut_control_in tr u x request response_size of
        (status, response, y, u1) \<Rightarrow>
          if status < VI_SUCCESS then Poll_return status y u1
          else case decode response of
            None \<Rightarrow> Poll_return VI_ERROR_IO y u1
          | Some st \<Rightarrow>
              if ss_status st = kStatusSuccess then Poll_success y u1
              else if ss_status st \<noteq> kStatusPending then Poll_return VI_ERROR_IO y u1
              else Poll_pending (bulk_in_fifo_bytes st) y u1)"

partial_function (option) clear_loop ::
  "'u usb_transport \<Rightarrow> usb_interface_info \<Rightarrow> op \<Rightarrow> 'u \<Rightarrow> (vi_status \<times> op \<times> 'u) option" where
  "clear_loop tr i x u =
     (case operation_ready (ut_now tr u) x of
        (ready, x1) \<Rightarrow>
          if \<not> ready then Some (op_result x1, x1, u)
          else (case poll_status tr (interface_request kCheckClear 0 i) 2 decode_check_clear x1 u of
             Poll_return status y u1 \<Rightarrow> Some (status, y, u1)
           | Poll_success y u1 \<Rightarrow> Some (ut_clear_halt tr u1 y (ui_bulk_out_endpoint i))
           | Poll_pending fifo y u1 \<Rightarrow>
               if fifo then
                 Option.bind (drain_bulk_in tr i y u1) (\<lambda>(status, z, u2).
                   if status < VI_SUCCESS then Some (status, z, u2) else clear_loop tr i z u2)
               else clear_loop tr i y u1))"

definition protocol_clear ::
  "'u usb_transport \<Rightarrow> usb_interface_info \<Rightarrow> op \<Rightarrow> 'u \<Rightarrow> (vi_status \<times> op \<times> 'u) option" where
  "protocol_clear tr i x u =
     (if \<not> valid_interface i then Some (VI_ERROR_NSUP_OPER, x, u)
      else case ut_control_in tr u x (interface_request kInitiateClear 0 i) 1 of
        (status, response, y, u1) \<Rightarrow>
          if status < VI_SUCCESS then Some (status, y, u1)
          else if decode_initiate_clear response \<noteq> Some kStatusSuccess then Some (VI_ERROR_IO, y, u1)
          else clear_loop tr i y u1)"

partial_function (option) abort_out_loop ::
  "'u usb_transport \<Rightarrow> usb_interface_info \<Rightarrow> op \<Rightarrow> 'u \<Rightarrow> (vi_status \<times> op \<times> 'u) option" where
  "abort_out_loop tr i x u =
     (case operation_ready (ut_now tr u) x of
        (ready, x1) \<Rightarrow>
          if \<not> ready then Some (op_result x1, x1, u)
          else (case poll_status tr (endpoint_request kCheckAbortBulkOut 0 (ui_bulk_out_endpoint i)) 8 decode_check_abort_bulk_out x1 u of
             Poll_return status y u1 \<Rightarrow> Some (status, y, u1)
           | Poll_success y u1 \<Rightarrow> Some (ut_clear_halt tr u1 y (ui_bulk_out_endpoint i))
           | Poll_pending fifo y u1 \<Rightarrow> abort_out_loop tr i y u1))"

definition abort_bulk_out ::
  "'u usb_transport \<Rightarrow> usb_interface_info \<Rightarrow> byte \<Rightarrow> op \<Rightarrow> 'u \<Rightarrow> (vi_status \<times> op \<times> 'u) option" where
  "abort_bulk_out tr i tag x u =
     (if \<not> valid_interface i then Some (VI_ERROR_NSUP_OPER, x, u)
      else case ut_control_in tr u x (endpoint_request kInitiateAbortBulkOut (ucast tag) (ui_bulk_out_endpoint i)) 2 of
        (status, response, y, u1) \<Rightarrow>
          if status < VI_SUCCESS then Some (status, y, u1)
          else if decode_initiate_abort response tag \<noteq> Some kStatusSuccess then Some (VI_ERROR_IO, y, u1)
          else abort_out_loop tr i y u1)"

partial_function (option) abort_in_loop ::
  "'u usb_transport \<Rightarrow> usb_interface_info \<Rightarrow> op \<Rightarrow> 'u \<Rightarrow> (vi_status \<times> op \<times> 'u) option" where
  "abort_in_loop tr i x u =
     (case operation_ready (ut_now tr u) x of
        (ready, x1) \<Rightarrow>
          if \<not> ready then Some (op_result x1, x1, u)
          else (case poll_status tr (endpoint_request kCheckAbortBulkIn 0 (ui_bulk_in_endpoint i)) 8 decode_check_abort_bulk_in x1 u of
             Poll_return status y u1 \<Rightarrow> Some (status, y, u1)
           | Poll_success y u1 \<Rightarrow> Some (VI_SUCCESS, y, u1)
           | Poll_pending fifo y u1 \<Rightarrow>
               if fifo then
                 Option.bind (drain_bulk_in tr i y u1) (\<lambda>(status, z, u2).
                   if status < VI_SUCCESS then Some (status, z, u2) else abort_in_loop tr i z u2)
               else abort_in_loop tr i y u1))"

definition abort_bulk_in ::
  "'u usb_transport \<Rightarrow> usb_interface_info \<Rightarrow> byte \<Rightarrow> op \<Rightarrow> 'u \<Rightarrow> (vi_status \<times> op \<times> 'u) option" where
  "abort_bulk_in tr i tag x u =
     (if \<not> valid_interface i then Some (VI_ERROR_NSUP_OPER, x, u)
      else case ut_control_in tr u x (endpoint_request kInitiateAbortBulkIn (ucast tag) (ui_bulk_in_endpoint i)) 2 of
        (status, response, y, u1) \<Rightarrow>
          if status < VI_SUCCESS then Some (status, y, u1)
          else if decode_initiate_abort response tag \<noteq> Some kStatusSuccess then Some (VI_ERROR_IO, y, u1)
          else Option.bind (drain_bulk_in tr i y u1) (\<lambda>(status, z, u2).
            if status < VI_SUCCESS then Some (status, z, u2) else abort_in_loop tr i z u2))"

text \<open>The recovery runs under operations of its own.\<close>

definition recover_cancelled_transfer ::
  "'u usb_transport \<Rightarrow> bool \<Rightarrow> byte \<Rightarrow> 'u usbtmc_session \<Rightarrow> (bool \<times> 'u usbtmc_session) option" where
  "recover_cancelled_transfer tr bulk_in tag s =
     (let i = tmc_interface s; u = tmc_transport s; x = operation_new (ut_now tr u) kRecoveryTimeout in
      Option.bind (if bulk_in then abort_bulk_in tr i tag x u else abort_bulk_out tr i tag x u) (\<lambda>(abort_status, _, u1).
        if abort_status \<ge> VI_SUCCESS then Some (True, forget_read_ahead (s\<lparr>tmc_transport := u1\<rparr>))
        else
          Option.bind (protocol_clear tr i (operation_new (ut_now tr u1) kRecoveryTimeout) u1) (\<lambda>(clear_status, _, u2).
            if clear_status \<ge> VI_SUCCESS then Some (True, forget_read_ahead (s\<lparr>tmc_transport := u2\<rparr>))
            else Some (False, mark_unusable tr (s\<lparr>tmc_transport := u2\<rparr>)))))"

section \<open>Writing\<close>

definition usbtmc_write ::
  "'u usb_transport \<Rightarrow> vi_status option \<Rightarrow> 'u usbtmc_session \<Rightarrow> op \<Rightarrow> byte list \<Rightarrow> write_options \<Rightarrow>
   (vi_status \<times> u32 \<times> op \<times> 'u usbtmc_session) option" where
  "usbtmc_write tr race s x data send_end =
     (if data = [] then Some (VI_ERROR_INV_PARAMETER, 0, x, s)
      else if \<not> tmc_usable s then Some (VI_ERROR_CONN_LOST, 0, x, s)
      else if \<not> valid_interface (tmc_interface s) then Some (VI_ERROR_NSUP_OPER, 0, x, s)
      else if op_completed x then Some (op_result x, 0, x, s)
      else
        let (tag, s1) = next_tag s in
        case encode_dev_dep_msg_out tag data send_end of
          None \<Rightarrow> Some (VI_ERROR_INV_SIZE, 0, x, s1)
        | Some frame \<Rightarrow>
            let (status0, transferred, y, u) = ut_bulk_out tr (tmc_transport s1) x frame;
                s2 = s1\<lparr>tmc_transport := u\<rparr>;
                status = (if status0 \<ge> VI_SUCCESS \<and> transferred \<noteq> length frame then VI_ERROR_IO else status0) in
            if status = VI_ERROR_ABORT \<or> status = VI_ERROR_TMO then
              let (won, z) = try_complete status (claimed race y) in
              map_option (\<lambda>(recovered, s3). (if won then status else op_result z, 0, z, s3))
                (recover_cancelled_transfer tr False tag s2)
            else
              let s3 = (if status = VI_ERROR_CONN_LOST then mark_unusable tr s2 else s2);
                  (won, z) = try_complete status (claimed race y) in
              if \<not> won then Some (op_result z, 0, z, s3)
              else Some (status, if status \<ge> VI_SUCCESS then of_nat (length data) else 0, z, s3))"

section \<open>Reading\<close>

text \<open>The bytes of a message: those that the buffer does not take, or that follow the termination character, go to the
  read-ahead.\<close>

fun tmc_consume :: "nat \<Rightarrow> read_options \<Rightarrow> byte list \<Rightarrow> byte list \<Rightarrow> bool \<Rightarrow> byte list \<Rightarrow> byte list \<times> bool \<times> byte list" where
  "tmc_consume count options [] collected found trailing = (collected, found, trailing)"
| "tmc_consume count options (b # bs) collected found trailing =
     (if length collected = count \<or> found then tmc_consume count options bs collected found (trailing @ [b])
      else tmc_consume count options bs (collected @ [b]) (ro_termchar_enabled options \<and> b = ro_termchar options) trailing)"

text \<open>The loop over the read-ahead; \<open>ends\<close> is \<open>read_ahead_ends_message_\<close>. Results: collected, found, end of message, the
  read-ahead and \<open>ends\<close> afterwards.\<close>

fun tmc_take_ahead ::
  "nat \<Rightarrow> read_options \<Rightarrow> byte list \<Rightarrow> bool \<Rightarrow> byte list \<Rightarrow> bool \<Rightarrow> bool \<Rightarrow> byte list \<times> bool \<times> bool \<times> byte list \<times> bool" where
  "tmc_take_ahead count options [] ends collected found eom = (collected, found, eom, [], ends)"
| "tmc_take_ahead count options (b # bs) ends collected found eom =
     (if length collected < count \<and> \<not> found then
        tmc_take_ahead count options bs (if bs = [] then False else ends) (collected @ [b])
          (ro_termchar_enabled options \<and> b = ro_termchar options) (eom \<or> bs = [] \<and> ends)
      else (collected, found, eom, b # bs, ends))"

text \<open>One round of the loop that asks the device: the message received, or how the loop is left: the status and whether
  the bulk-in transfer failed, whether the transfer was cancelled.\<close>

definition tmc_request ::
  "'u usb_transport \<Rightarrow> read_options \<Rightarrow> nat \<Rightarrow> op \<Rightarrow> 'u usbtmc_session \<Rightarrow>
   byte \<times> (vi_status \<times> bool \<times> bool + dev_dep_message) \<times> op \<times> 'u usbtmc_session" where
  "tmc_request tr options remaining x s =
     (let (tag, s1) = next_tag s; packet = unat (ui_bulk_in_max_packet_size (tmc_interface s)) in
      case encode_request_dev_dep_msg_in tag (of_nat remaining) (ro_termchar_enabled options) (ro_termchar options) of
        None \<Rightarrow> (tag, Inl (VI_ERROR_INV_SIZE, False, False), x, s1)
      | Some request \<Rightarrow>
          let (status, transferred, y, u) = ut_bulk_out tr (tmc_transport s1) x request; s2 = s1\<lparr>tmc_transport := u\<rparr> in
          if status < VI_SUCCESS \<or> transferred \<noteq> length request then
            (tag, Inl (if status \<ge> VI_SUCCESS then VI_ERROR_IO else status, False,
                       status = VI_ERROR_ABORT \<or> status = VI_ERROR_TMO), y, s2)
          else
            let maximum_response = kHeaderSize + remaining + packet;
                (status', response, z, u') = ut_bulk_in tr u y maximum_response; s3 = s2\<lparr>tmc_transport := u'\<rparr> in
            if status' < VI_SUCCESS then
              (tag, Inl (status', True, status' = VI_ERROR_ABORT \<or> status' = VI_ERROR_TMO), z, s3)
            else if length response = maximum_response then (tag, Inl (VI_ERROR_IO, True, False), z, s3)
            else case decode_dev_dep_msg_in response tag remaining (packet - 1) of
              None \<Rightarrow> (tag, Inl (VI_ERROR_IO, True, False), z, s3)
            | Some message \<Rightarrow>
                if ddm_payload message = [] \<and> \<not> end_of_message message then (tag, Inl (VI_ERROR_IO, True, False), z, s3)
                else (tag, Inr message, z, s3))"

text \<open>The first occurrence of the termination character ends what is collected.\<close>

definition ends_at_termchar :: "read_options \<Rightarrow> byte list \<Rightarrow> bool \<Rightarrow> bool" where
  "ends_at_termchar ro bs found \<longleftrightarrow> (found \<longleftrightarrow> ro_termchar_enabled ro \<and> bs \<noteq> [] \<and> last bs = ro_termchar ro) \<and>
     (ro_termchar_enabled ro \<longrightarrow> ro_termchar ro \<notin> set (butlast bs))"

lemma ends_at_termchar_snoc:
  "ends_at_termchar ro bs False \<Longrightarrow> ends_at_termchar ro (bs @ [b]) (ro_termchar_enabled ro \<and> b = ro_termchar ro)"
  by (cases bs rule: rev_cases) (auto simp: ends_at_termchar_def butlast_append)

lemma tmc_consume_full: "length cs = n \<or> f \<Longrightarrow> tmc_consume n ro bs cs f ts = (cs, f, ts @ bs)"
  by (induction bs arbitrary: ts) auto

lemma tmc_consume_split:
  assumes "length cs \<le> n" and "tmc_consume n ro bs cs f ts = (cs', f', ts')" and "ends_at_termchar ro cs f"
  shows "\<exists>p q. bs = p @ q \<and> cs' = cs @ p \<and> ts' = ts @ q \<and> length cs' \<le> n \<and> ends_at_termchar ro cs' f' \<and>
     (q \<noteq> [] \<longrightarrow> length cs' = n \<or> f') \<and> (bs \<noteq> [] \<and> length cs < n \<and> \<not> f \<longrightarrow> p \<noteq> [])"
  using assms
proof (induction bs arbitrary: cs f)
  case (Cons b bs)
  show ?case
  proof (cases "length cs = n \<or> f")
    case True
    then have "cs' = cs \<and> f' = f \<and> ts' = ts @ b # bs" using Cons.prems(2) tmc_consume_full [of cs n f ro "b # bs" ts] by auto
    with True Cons.prems(1,3) show ?thesis by (intro exI [of _ "[]"] exI [of _ "b # bs"]) auto
  next
    case False
    let ?f = "ro_termchar_enabled ro \<and> b = ro_termchar ro"
    from False Cons.prems have e: "tmc_consume n ro bs (cs @ [b]) ?f ts = (cs', f', ts')" "length (cs @ [b]) \<le> n" by simp_all
    have "ends_at_termchar ro (cs @ [b]) ?f" using Cons.prems(3) False ends_at_termchar_snoc by simp
    from Cons.IH [OF e(2,1) this] obtain p q where "bs = p @ q \<and> cs' = (cs @ [b]) @ p \<and> ts' = ts @ q \<and> length cs' \<le> n \<and>
      ends_at_termchar ro cs' f' \<and> (q \<noteq> [] \<longrightarrow> length cs' = n \<or> f')" by blast
    then show ?thesis by (intro exI [of _ "b # p"] exI [of _ q]) auto
  qed
qed auto

lemma tmc_consume_grows:
  "tmc_consume n ro bs cs f ts = (cs', f', ts') \<Longrightarrow> length cs \<le> length cs' \<and> (bs \<noteq> [] \<and> length cs < n \<and> \<not> f \<longrightarrow> length cs < length cs')"
proof (induction bs arbitrary: cs f ts)
  case (Cons b bs)
  then show ?case by (fastforce split: if_splits)
qed simp

lemma tmc_request_message:
  "tmc_request tr ro n x s = (tag, Inr m, y, s') \<Longrightarrow> ddm_payload m \<noteq> [] \<or> end_of_message m"
  by (auto simp: tmc_request_def Let_def split: prod.splits option.splits if_splits)

text \<open>What the loop leaves: how it was left early, if it was, the tag in use, what was collected and found, the
  operation and the session.\<close>

function tmc_read_loop ::
  "'u usb_transport \<Rightarrow> read_options \<Rightarrow> nat \<Rightarrow> byte list \<Rightarrow> bool \<Rightarrow> bool \<Rightarrow> byte \<Rightarrow> op \<Rightarrow> 'u usbtmc_session \<Rightarrow>
   (vi_status \<times> bool \<times> bool) option \<times> byte \<times> byte list \<times> bool \<times> bool \<times> op \<times> 'u usbtmc_session" where
  "tmc_read_loop tr options count collected found eom tag x s =
     (if length collected < count \<and> \<not> found \<and> \<not> eom then
        (case tmc_request tr options (count - length collected) x s of
           (tag', Inl left, y, s1) \<Rightarrow> (Some left, tag', collected, found, eom, y, s1)
         | (tag', Inr message, y, s1) \<Rightarrow>
             (case tmc_consume count options (ddm_payload message) collected found [] of
                (collected', found', trailing) \<Rightarrow>
                  tmc_read_loop tr options count collected' found' (end_of_message message \<and> trailing = []) tag' y
                    (s1\<lparr>tmc_read_ahead := tmc_read_ahead s1 @ trailing,
                        tmc_read_ahead_ends_message :=
                          (if end_of_message message \<and> trailing \<noteq> [] then True else tmc_read_ahead_ends_message s1)\<rparr>)))
      else (None, tag, collected, found, eom, x, s))"
  by pat_completeness auto

lemma tmc_loop_measure:
  assumes "tmc_request tr ro k x s = (tag, Inr m, y, s1)" and "tmc_consume n ro (ddm_payload m) cs False [] = (cs', f', ts)"
    and "length cs < n" and "end_of_message m \<longrightarrow> ts \<noteq> []"
  shows "n - length cs' < n - length cs"
proof -
  have "ddm_payload m \<noteq> []"
  proof
    assume e: "ddm_payload m = []"
    with assms(2) have "ts = []" by simp
    with assms(4) tmc_request_message [OF assms(1)] e show False by simp
  qed
  with tmc_consume_grows [OF assms(2)] assms(3) have "length cs < length cs'" by simp
  with assms(3) show ?thesis by simp
qed

termination tmc_read_loop
  by (relation "measure (\<lambda>(tr, ro, n, cs, f, eom, tag, x, s). if eom then 0 else Suc (n - length cs))")
     (auto intro: tmc_loop_measure [OF sym sym])

declare tmc_read_loop.simps [simp del]

definition usbtmc_read ::
  "'u usb_transport \<Rightarrow> vi_status option \<Rightarrow> 'u usbtmc_session \<Rightarrow> op \<Rightarrow> u32 \<Rightarrow> read_options \<Rightarrow>
   (vi_status \<times> byte list \<times> u32 \<times> op \<times> 'u usbtmc_session) option" where
  "usbtmc_read tr race s x count options =
     (if count = 0 then Some (VI_ERROR_INV_PARAMETER, [], 0, x, s)
      else if \<not> tmc_usable s then Some (VI_ERROR_CONN_LOST, [], 0, x, s)
      else if \<not> valid_interface (tmc_interface s) then Some (VI_ERROR_NSUP_OPER, [], 0, x, s)
      else if op_completed x then Some (op_result x, [], 0, x, s)
      else
        let (c0, f0, e0, ra, ends) =
              tmc_take_ahead (unat count) options (tmc_read_ahead s) (tmc_read_ahead_ends_message s) [] False False;
            s0 = s\<lparr>tmc_read_ahead := ra, tmc_read_ahead_ends_message := ends\<rparr>;
            (left, active_tag, collected, found, eom, y, s1) = tmc_read_loop tr options (unat count) c0 f0 e0 0 x s0;
            (status0, failed_bulk_in, cancelled) = (case left of None \<Rightarrow> (VI_SUCCESS, False, False) | Some l \<Rightarrow> l);
            status1 = (if status0 \<ge> VI_SUCCESS then
                         if found then VI_SUCCESS_TERM_CHAR
                         else if length collected = unat count then VI_SUCCESS_MAX_CNT
                         else if \<not> eom then VI_ERROR_IO else status0
                       else status0);
            (won, z) = try_complete status1 (claimed race y);
            status = (if won then status1 else op_result z) in
        if status = VI_ERROR_ABORT \<or> status = VI_ERROR_TMO then
          if cancelled \<and> active_tag \<noteq> 0 then
            map_option (\<lambda>(recovered, s2). (status, [], 0, z, s2)) (recover_cancelled_transfer tr failed_bulk_in active_tag s1)
          else Some (status, [], 0, z, tmc_restore_read_ahead collected s1)
        else if status = VI_ERROR_CONN_LOST then Some (status, [], 0, z, mark_unusable tr s1)
        else if status < VI_SUCCESS then Some (status, [], 0, z, tmc_restore_read_ahead collected s1)
        else Some (status, collected, of_nat (length collected), z, s1))"

section \<open>The other operations\<close>

definition usbtmc_flush :: "'u usbtmc_session \<Rightarrow> op \<Rightarrow> u16 \<Rightarrow> vi_status \<times> op \<times> 'u usbtmc_session" where
  "usbtmc_flush s x m =
     (if m = 0 \<or> m AND NOT usbtmc_known_mask \<noteq> 0 then (VI_ERROR_INV_MASK, x, s)
      else if m AND (VI_READ_BUF_DISCARD OR VI_IO_IN_BUF_DISCARD) \<noteq> 0 then (VI_SUCCESS, x, forget_read_ahead s)
      else (VI_SUCCESS, x, s))"

definition usbtmc_clear :: "'u usb_transport \<Rightarrow> 'u usbtmc_session \<Rightarrow> op \<Rightarrow> (vi_status \<times> op \<times> 'u usbtmc_session) option" where
  "usbtmc_clear tr s x =
     (if \<not> tmc_usable s then Some (VI_ERROR_CONN_LOST, x, s)
      else map_option (\<lambda>(status, y, u).
        let s1 = s\<lparr>tmc_transport := u\<rparr> in
        (status, y,
         if status \<ge> VI_SUCCESS then forget_read_ahead s1
         else if status \<noteq> VI_ERROR_NSUP_OPER then mark_unusable tr s1 else s1))
        (protocol_clear tr (tmc_interface s) x (tmc_transport s)))"

text \<open>The loop waits for the interrupt message with the tag of the request; others are consumed.\<close>

partial_function (option) status_loop ::
  "'u usb_transport \<Rightarrow> byte \<Rightarrow> op \<Rightarrow> 'u \<Rightarrow> (vi_status \<times> u16 option \<times> op \<times> 'u) option" where
  "status_loop tr tag x u =
     (case operation_ready (ut_now tr u) x of
        (ready, x1) \<Rightarrow>
          if \<not> ready then Some (op_result x1, None, x1, u)
          else (case ut_interrupt_in tr u x1 2 of
             (result, response, y, u1) \<Rightarrow>
               if result < VI_SUCCESS then Some (result, None, y, u1)
               else (case decode_interrupt_status_byte response of
                  None \<Rightarrow> Some (VI_ERROR_IO, None, y, u1)
                | Some (response_tag, status_byte) \<Rightarrow>
                    if response_tag = tag then Some (VI_SUCCESS, Some (ucast status_byte), y, u1)
                    else status_loop tr tag y u1)))"

definition usbtmc_read_stb ::
  "'u usb_transport \<Rightarrow> 'u usbtmc_session \<Rightarrow> op \<Rightarrow> bool \<Rightarrow> (vi_status \<times> u16 option \<times> op \<times> 'u usbtmc_session) option" where
  "usbtmc_read_stb tr s x has_status =
     (if \<not> has_status then Some (VI_ERROR_INV_PARAMETER, None, x, s)
      else if \<not> tmc_usable s then Some (VI_ERROR_CONN_LOST, None, x, s)
      else
        let (result, y, s1) = ensure_capabilities tr x s in
        if result < VI_SUCCESS then Some (result, None, y, s1)
        else
          let (tag, s2) = next_status_tag s1;
              (result', response, z, u) =
                ut_control_in tr (tmc_transport s2) y (interface_request kReadStatusByte (ucast tag) (tmc_interface s2)) 3;
              s3 = s2\<lparr>tmc_transport := u\<rparr>;
              has_interrupt = (ui_interrupt_in_endpoint (tmc_interface s3) \<noteq> 0) in
          if result' < VI_SUCCESS then Some (result', None, z, s3)
          else case decode_read_status_byte response tag has_interrupt of
            None \<Rightarrow> Some (VI_ERROR_IO, None, z, s3)
          | Some (device_status, status_byte) \<Rightarrow>
              if device_status = kStatusInterruptInBusy then Some (VI_ERROR_RSRC_BUSY, None, z, s3)
              else if device_status \<noteq> kStatusSuccess then Some (VI_ERROR_IO, None, z, s3)
              else if \<not> has_interrupt then Some (VI_SUCCESS, Some (ucast status_byte), z, s3)
              else map_option (\<lambda>(st, v, w, u'). (st, v, w, s3\<lparr>tmc_transport := u'\<rparr>)) (status_loop tr tag z u))"

definition usbtmc_assert_trigger ::
  "'u usb_transport \<Rightarrow> vi_status option \<Rightarrow> 'u usbtmc_session \<Rightarrow> op \<Rightarrow> u16 \<Rightarrow> (vi_status \<times> op \<times> 'u usbtmc_session) option" where
  "usbtmc_assert_trigger tr race s x protocol =
     (if protocol \<noteq> VI_TRIG_PROT_DEFAULT then Some (VI_ERROR_INV_PROT, x, s)
      else if \<not> tmc_usable s then Some (VI_ERROR_CONN_LOST, x, s)
      else
        let (result, y, s1) = ensure_capabilities tr x s in
        if result < VI_SUCCESS then Some (result, y, s1)
        else if \<not> tmc_trigger_supported s1 then Some (VI_ERROR_NSUP_OPER, y, s1)
        else
          let (tag, s2) = next_tag s1 in
          case encode_usb488_trigger tag of
            None \<Rightarrow> Some (VI_ERROR_IO, y, s2)
          | Some frame \<Rightarrow>
              let (status0, transferred, z, u) = ut_bulk_out tr (tmc_transport s2) y frame;
                  s3 = s2\<lparr>tmc_transport := u\<rparr>;
                  status = (if status0 \<ge> VI_SUCCESS \<and> transferred \<noteq> length frame then VI_ERROR_IO else status0) in
              if status = VI_ERROR_ABORT \<or> status = VI_ERROR_TMO then
                let (won, w) = try_complete status (claimed race z) in
                map_option (\<lambda>(recovered, s4). (if won then status else op_result w, w, s4))
                  (recover_cancelled_transfer tr False tag s3)
              else Some (status, z, if status = VI_ERROR_CONN_LOST then mark_unusable tr s3 else s3))"

definition usbtmc_backend :: "'u usb_transport \<Rightarrow> vi_status option \<Rightarrow> 'u usbtmc_session backend_ops" where
  "usbtmc_backend tr race =
     \<lparr>be_read = usbtmc_read tr race, be_write = usbtmc_write tr race, be_clear = usbtmc_clear tr, be_flush = usbtmc_flush,
      be_read_stb = usbtmc_read_stb tr, be_assert_trigger = usbtmc_assert_trigger tr race,
      be_usb_control = default_usb_control, be_lock = default_lock, be_unlock = default_unlock,
      be_set_attribute = default_set_attribute, be_get_attribute = default_get_attribute,
      be_close = (\<lambda>s. s\<lparr>tmc_transport := ut_close tr (tmc_transport s)\<rparr>),
      be_notify_cancel = (\<lambda>s. s\<lparr>tmc_transport := ut_cancel tr (tmc_transport s)\<rparr>)\<rparr>"

end
