(* ===== verification/Usbtmc_Laws.thy ===== *)
theory Usbtmc_Laws
  imports Usbtmc_Session
begin

text \<open>
  Correctness of the USBTMC session over an arbitrary transport. The session obeys the contract of backends; its
  polling loops end when the clock moves; a successful read conserves bytes and END marks; and a cancellation at the end of a message loses the END mark, which is proved
  on an example.
\<close>

section \<open>Operations only advance\<close>

lemma operation_ready_cases:
  "operation_ready now x = (ready, y) \<Longrightarrow> op_advances x y \<and> (ready \<longrightarrow> y = x \<and> (\<forall>d. op_deadline x = Some d \<longrightarrow> now < d))"
  by (auto simp: operation_ready_def op_advances_def operation_defs split: option.splits if_splits)

definition advances :: "op \<Rightarrow> vi_status \<times> op \<times> 'u \<Rightarrow> bool" where
  "advances x r \<longleftrightarrow> op_advances x (fst (snd r))"

lemma advances_simps [simp]: "advances x (st, y, u) = op_advances x y"
  by (simp add: advances_def)

lemma advances_trans: "op_advances x y \<Longrightarrow> advances y r \<Longrightarrow> advances x r"
  by (auto simp: advances_def intro: op_advances_trans)

lemmas drain_loop_rule = drain_loop.raw_induct [where xa = "(((tr, i), x), u)" and y = r, unfolded prod.case] for tr i x u r
lemmas clear_loop_rule = clear_loop.raw_induct [where xa = "(((tr, i), x), u)" and y = r, unfolded prod.case] for tr i x u r
lemmas abort_out_loop_rule = abort_out_loop.raw_induct [where xa = "(((tr, i), x), u)" and y = r, unfolded prod.case] for tr i x u r
lemmas abort_in_loop_rule = abort_in_loop.raw_induct [where xa = "(((tr, i), x), u)" and y = r, unfolded prod.case] for tr i x u r
lemmas status_loop_rule = status_loop.raw_induct [where xa = "(((tr, t), x), u)" and y = r, unfolded prod.case] for tr t x u r

lemma poll_status_advances:
  assumes "usb_transport_ok tr"
  shows "poll_status tr rq n dec x u = Poll_return st y u' \<Longrightarrow> op_advances x y"
    and "poll_status tr rq n dec x u = Poll_success y u' \<Longrightarrow> op_advances x y"
    and "poll_status tr rq n dec x u = Poll_pending b y u' \<Longrightarrow> op_advances x y"
  by (auto simp: poll_status_def split: prod.splits if_splits option.splits intro: usb_transport_okD(3) [OF assms])

lemma drain_loop_advances:
  assumes "drain_loop tr i x u = Some r" and "usb_transport_ok tr"
  shows "advances x r"
proof -
  have "usb_transport_ok tr \<longrightarrow> advances x r"
  proof (rule drain_loop_rule [OF _ assms(1)], rule impI)
    fix loop :: "'a usb_transport \<Rightarrow> usb_interface_info \<Rightarrow> op \<Rightarrow> 'a \<Rightarrow> (vi_status \<times> op \<times> 'a) option" and tr i x u r
    assume IH: "\<And>tr i x u r. loop tr i x u = Some r \<Longrightarrow> usb_transport_ok tr \<longrightarrow> advances x r" and ok: "usb_transport_ok tr"
      and r: "(case operation_ready (ut_now tr u) x of (ready, x1) \<Rightarrow>
         if \<not> ready then Some (op_result x1, x1, u)
         else case ut_bulk_in tr u x1 (unat (ui_bulk_in_max_packet_size i)) of (status, discarded, y, u1) \<Rightarrow>
           if status < VI_SUCCESS then Some (status, y, u1)
           else if length discarded > unat (ui_bulk_in_max_packet_size i) then Some (VI_ERROR_IO, y, u1)
           else if length discarded < unat (ui_bulk_in_max_packet_size i) then Some (VI_SUCCESS, y, u1)
           else loop tr i y u1) = Some r"
    obtain ready x1 where o: "operation_ready (ut_now tr u) x = (ready, x1)" by fastforce
    obtain st ds y u1 where b: "ut_bulk_in tr u x1 (unat (ui_bulk_in_max_packet_size i)) = (st, ds, y, u1)" by (metis surj_pair)
    have "op_advances x x1" "op_advances x y"
      using operation_ready_cases [OF o] usb_transport_okD(2) [OF ok b] by (auto intro: op_advances_trans)
    with r IH [of tr i y u1 r] ok show "advances x r" by (auto simp: o b split: if_splits intro: advances_trans)
  qed
  with assms(2) show ?thesis by simp
qed

lemma drain_bulk_in_advances: "drain_bulk_in tr i x u = Some r \<Longrightarrow> usb_transport_ok tr \<Longrightarrow> advances x r"
  by (auto simp: drain_bulk_in_def intro: drain_loop_advances split: if_splits)

text \<open>What the two loops that drain the endpoint do after a check.\<close>

lemma drained_advances:
  assumes "(if fifo then Option.bind (drain_bulk_in tr i y u) (\<lambda>(status, z, u2).
              if status < VI_SUCCESS then Some (status, z, u2) else loop z u2) else loop y u) = Some r"
    and "usb_transport_ok tr" and "op_advances x y" and "\<And>z u. loop z u = Some r \<Longrightarrow> advances z r"
  shows "advances x r"
proof (cases fifo)
  case True
  with assms(1) obtain st z u2 where d: "drain_bulk_in tr i y u = Some (st, z, u2)"
    "(if st < VI_SUCCESS then Some (st, z, u2) else loop z u2) = Some r" by (auto simp: bind_eq_Some_conv)
  have "op_advances x z" using drain_bulk_in_advances [OF d(1) assms(2)] assms(3) by (auto intro: op_advances_trans)
  with d(2) assms(4) [of z u2] show ?thesis by (auto split: if_splits intro: advances_trans)
qed (use assms in \<open>auto intro: advances_trans\<close>)

text \<open>One round of a polling loop.\<close>

lemma round_advances:
  assumes "(case operation_ready (ut_now tr u) x of (ready, x1) \<Rightarrow>
      if \<not> ready then Some (op_result x1, x1, u)
      else (case poll_status tr rq n dec x1 u of
          Poll_return status y u1 \<Rightarrow> Some (status, y, u1)
        | Poll_success y u1 \<Rightarrow> Some (success y u1)
        | Poll_pending fifo y u1 \<Rightarrow> go_on fifo y u1)) = Some r"
    and ok: "usb_transport_ok tr"
    and "\<And>y u1. advances y (success y u1)" and "\<And>fifo y u1. go_on fifo y u1 = Some r \<Longrightarrow> advances y r"
  shows "advances x r"
proof -
  obtain ready x1 where o: "operation_ready (ut_now tr u) x = (ready, x1)" by fastforce
  note r = assms(1) [unfolded o prod.case]
  have x1: "op_advances x x1" "ready \<Longrightarrow> x1 = x" using operation_ready_cases [OF o] by simp_all
  consider "r = (op_result x1, x1, u)" | st y u1 where "poll_status tr rq n dec x u = Poll_return st y u1" "r = (st, y, u1)"
    | y u1 where "poll_status tr rq n dec x u = Poll_success y u1" "r = success y u1"
    | fifo y u1 where "poll_status tr rq n dec x u = Poll_pending fifo y u1" "go_on fifo y u1 = Some r"
    using r x1(2) by (auto split: if_splits poll.splits)
  then show ?thesis
    by cases (metis x1(1) assms(3,4) poll_status_advances [OF ok] advances_trans advances_simps)+
qed

lemma clear_halt_advances: "usb_transport_ok tr \<Longrightarrow> advances y (ut_clear_halt tr u y e)"
  using usb_transport_okD(7) [of tr u y e] by (cases "ut_clear_halt tr u y e") auto

lemma clear_loop_advances:
  assumes "clear_loop tr i x u = Some r" and "usb_transport_ok tr"
  shows "advances x r"
proof -
  have "usb_transport_ok tr \<longrightarrow> advances x r"
    apply (rule clear_loop_rule [OF _ assms(1)], rule impI)
    subgoal premises p for loop tr i x u r
    proof (rule round_advances [OF p(2,3) clear_halt_advances [OF p(3)]])
      show "advances y r" if "(if fifo then Option.bind (drain_bulk_in tr i y u1) (\<lambda>(status, z, u2).
          if status < VI_SUCCESS then Some (status, z, u2) else loop tr i z u2) else loop tr i y u1) = Some r" for fifo y u1
        using drained_advances [OF that p(3) op_advances_refl] p(1,3) by blast
    qed
    done
  with assms(2) show ?thesis by simp
qed

lemma abort_in_loop_advances:
  assumes "abort_in_loop tr i x u = Some r" and "usb_transport_ok tr"
  shows "advances x r"
proof -
  have "usb_transport_ok tr \<longrightarrow> advances x r"
    apply (rule abort_in_loop_rule [OF _ assms(1)], rule impI)
    subgoal premises p for loop tr i x u r
    proof (rule round_advances [OF p(2,3)])
      show "advances y r" if "(if fifo then Option.bind (drain_bulk_in tr i y u1) (\<lambda>(status, z, u2).
          if status < VI_SUCCESS then Some (status, z, u2) else loop tr i z u2) else loop tr i y u1) = Some r" for fifo y u1
        using drained_advances [OF that p(3) op_advances_refl] p(1,3) by blast
    qed simp
    done
  with assms(2) show ?thesis by simp
qed

lemma abort_out_loop_advances:
  assumes "abort_out_loop tr i x u = Some r" and "usb_transport_ok tr"
  shows "advances x r"
proof -
  have "usb_transport_ok tr \<longrightarrow> advances x r"
    apply (rule abort_out_loop_rule [OF _ assms(1)], rule impI)
    subgoal premises p for loop tr i x u r
      by (rule round_advances [OF p(2,3) clear_halt_advances [OF p(3)]]) (use p(1,3) in blast)
    done
  with assms(2) show ?thesis by simp
qed

lemma status_loop_advances:
  assumes "status_loop tr t x u = Some r" and "usb_transport_ok tr"
  shows "op_advances x (fst (snd (snd r)))"
proof -
  have "usb_transport_ok tr \<longrightarrow> op_advances x (fst (snd (snd r)))"
    apply (rule status_loop_rule [OF _ assms(1)], rule impI)
    subgoal premises p for loop tr t x u r
    proof -
      obtain ready x1 where o: "operation_ready (ut_now tr u) x = (ready, x1)" by fastforce
      obtain st ds y u1 where b: "ut_interrupt_in tr u x1 2 = (st, ds, y, u1)" by (metis surj_pair)
      have "op_advances x x1" "op_advances x y"
        using operation_ready_cases [OF o] usb_transport_okD(5) [OF p(3) b] by (auto intro: op_advances_trans)
      with p(2) p(1) [of tr t y u1 r] p(3) show ?thesis
        by (auto simp: o b split: if_splits option.splits prod.splits intro: op_advances_trans)
    qed
    done
  with assms(2) show ?thesis by simp
qed

lemma protocol_clear_advances:
  assumes "protocol_clear tr i x u = Some r" and ok: "usb_transport_ok tr"
  shows "advances x r"
proof -
  obtain st ds y u1 where c: "ut_control_in tr u x (interface_request kInitiateClear 0 i) 1 = (st, ds, y, u1)" by (metis surj_pair)
  note y = usb_transport_okD(3) [OF ok c]
  from assms(1) [unfolded protocol_clear_def c prod.case] y show ?thesis
    by (auto split: if_splits intro: advances_trans dest!: clear_loop_advances [OF _ ok])
qed

lemma ensure_capabilities_advances:
  "ensure_capabilities tr x s = (st, y, s') \<Longrightarrow> usb_transport_ok tr \<Longrightarrow> op_advances x y"
  by (auto simp: ensure_capabilities_def Let_def split: if_splits prod.splits option.splits dest: usb_transport_okD(3))

section \<open>A read\<close>

lemma tmc_request_advances:
  assumes "tmc_request tr ro n x s = (tag, res, y, s')" and "usb_transport_ok tr"
  shows "op_advances x y"
proof -
  note D = usb_transport_okD [OF assms(2)]
  from assms(1) show ?thesis
    by (auto simp: tmc_request_def Let_def split: prod.splits option.splits if_splits dest!: D(1,2) intro: op_advances_trans)
qed

text \<open>The loop is left with a failed transfer, goes on with a message, or is done.\<close>

lemma tmc_read_loop_rule [consumes 1, case_names left message finished]:
  assumes "tmc_read_loop tr ro n cs f e t x s = r"
    and "\<And>cs t x s t' l y s1. length cs < n \<Longrightarrow> tmc_request tr ro (n - length cs) x s = (t', Inl l, y, s1) \<Longrightarrow>
      P cs False False t x s (Some l, t', cs, False, False, y, s1)"
    and "\<And>cs t x s t' m y s1 cs' f' tl r. length cs < n \<Longrightarrow> tmc_request tr ro (n - length cs) x s = (t', Inr m, y, s1) \<Longrightarrow>
      tmc_consume n ro (ddm_payload m) cs False [] = (cs', f', tl) \<Longrightarrow>
      P cs' f' (end_of_message m \<and> tl = []) t' y
        (s1\<lparr>tmc_read_ahead := tmc_read_ahead s1 @ tl, tmc_read_ahead_ends_message :=
           (if end_of_message m \<and> tl \<noteq> [] then True else tmc_read_ahead_ends_message s1)\<rparr>) r \<Longrightarrow>
      P cs False False t x s r"
    and "\<And>cs f e t x s. n \<le> length cs \<or> f \<or> e \<Longrightarrow> P cs f e t x s (None, t, cs, f, e, x, s)"
  shows "P cs f e t x s r"
  using assms
proof (induction tr ro n cs f e t x s arbitrary: r rule: tmc_read_loop.induct)
  case (1 tr ro n cs f e t x s)
  show ?case
  proof (cases "length cs < n \<and> \<not> f \<and> \<not> e")
    case True
    obtain t1 res z s1 where q: "tmc_request tr ro (n - length cs) x s = (t1, res, z, s1)" by (metis surj_pair)
    show ?thesis
    proof (cases res)
      case (Inl l)
      have "r = (Some l, t1, cs, False, False, z, s1)" using "1.prems"(1) q True Inl by (simp add: tmc_read_loop.simps)
      with "1.prems"(2) [OF _ q [unfolded Inl]] True show ?thesis by simp
    next
      case (Inr m)
      obtain c1 f1 tl where c: "tmc_consume n ro (ddm_payload m) cs f [] = (c1, f1, tl)" by (metis surj_pair)
      with True have c': "tmc_consume n ro (ddm_payload m) cs False [] = (c1, f1, tl)" by simp
      from "1.prems"(1) have "tmc_read_loop tr ro n c1 f1 (end_of_message m \<and> tl = []) t1 z
          (s1\<lparr>tmc_read_ahead := tmc_read_ahead s1 @ tl, tmc_read_ahead_ends_message :=
             (if end_of_message m \<and> tl \<noteq> [] then True else tmc_read_ahead_ends_message s1)\<rparr>) = r"
        unfolding tmc_read_loop.simps [of tr ro n cs] by (simp only: True q Inr c' prod.case sum.case if_True simp_thms)
      from "1.IH" [OF True q [symmetric] refl Inr refl c [symmetric] refl this "1.prems"(2-4)] True "1.prems"(3) [OF _ q [unfolded Inr] c']
      show ?thesis by simp
    qed
  next
    case False
    with "1.prems"(1,4) show ?thesis by (auto simp: tmc_read_loop.simps not_less)
  qed
qed

lemma tmc_read_loop_advances:
  assumes "tmc_read_loop tr ro n cs f e t x s = r" and "usb_transport_ok tr" and "length cs \<le> n" and "ends_at_termchar ro cs f"
  shows "case r of (left, t', cs', f', e', y, s') \<Rightarrow> op_advances x y \<and> length cs' \<le> n"
  using assms(1,3,4)
proof (induction rule: tmc_read_loop_rule)
  case (message cs t x s t' m y s1 cs' f' tl r)
  have "length cs' \<le> n" "ends_at_termchar ro cs' f'"
    using tmc_consume_split [OF message.prems(1) message.hyps(3) message.prems(2)] by auto
  with message.IH tmc_request_advances [OF message.hyps(2) assms(2)] show ?case by (auto intro: op_advances_trans)
qed (auto dest: tmc_request_advances [OF _ assms(2)])

lemma tmc_take_ahead_split:
  "tmc_take_ahead n ro ra ends cs f e = (cs', f', e', ra', ends') \<Longrightarrow> length cs \<le> n \<Longrightarrow> ends_at_termchar ro cs f \<Longrightarrow>
   \<exists>p. ra = p @ ra' \<and> cs' = cs @ p \<and> length cs' \<le> n \<and> ends_at_termchar ro cs' f'"
proof (induction ra arbitrary: ends cs f e)
  case (Cons b bs)
  show ?case
  proof (cases "length cs < n \<and> \<not> f")
    case True
    with Cons.prems(3) have "ends_at_termchar ro (cs @ [b]) (ro_termchar_enabled ro \<and> b = ro_termchar ro)"
      by (intro ends_at_termchar_snoc) simp
    with Cons.IH [of _ "cs @ [b]"] Cons.prems(1) True show ?thesis by fastforce
  qed (use Cons.prems in auto)
qed auto

text \<open>What a read returns after it has claimed the operation.\<close>

lemma usbtmc_read_result:
  assumes "usbtmc_read tr race s x n ro = Some (st, data, k, y, s')" and ok: "usb_transport_ok tr"
  shows "op_advances x y \<and> (data = [] \<and> k = 0 \<or> \<not> op_completed x \<and> length data \<le> unat n \<and> k = of_nat (length data))"
proof (cases "n = 0 \<or> \<not> tmc_usable s \<or> \<not> valid_interface (tmc_interface s) \<or> op_completed x")
  case True
  with assms(1) show ?thesis by (auto simp: usbtmc_read_def split: if_splits)
next
  case False
  obtain c0 f0 e0 ra en where ta: "tmc_take_ahead (unat n) ro (tmc_read_ahead s) (tmc_read_ahead_ends_message s) [] False False =
    (c0, f0, e0, ra, en)" by (metis surj_pair)
  obtain l t cs f e z s1 where lo: "tmc_read_loop tr ro (unat n) c0 f0 e0 0 x
    (s\<lparr>tmc_read_ahead := ra, tmc_read_ahead_ends_message := en\<rparr>) = (l, t, cs, f, e, z, s1)" by (metis surj_pair)
  have "ends_at_termchar ro [] False" by (simp add: ends_at_termchar_def)
  from tmc_take_ahead_split [OF ta _ this] have "length c0 \<le> unat n" "ends_at_termchar ro c0 f0" by auto
  from tmc_read_loop_advances [OF lo ok this] have z: "op_advances x z" "length cs \<le> unat n" by auto
  note r = assms(1) [unfolded usbtmc_read_def ta lo prod.case Let_def]
  from r False z show ?thesis
    by (auto split: if_splits option.splits prod.splits intro: try_claimed_trans)
qed

lemma usbtmc_is_backend:
  assumes ok: "usb_transport_ok tr"
  shows "backend (usbtmc_backend tr race)"
proof
  fix b b' x y n ro st data k
  assume "be_read (usbtmc_backend tr race) b x n ro = Some (st, data, k, y, b')"
  then have "usbtmc_read tr race b x n ro = Some (st, data, k, y, b')" by (simp add: usbtmc_backend_def)
  note r = usbtmc_read_result [OF this ok]
  then show "op_advances x y" "op_completed x \<Longrightarrow> data = []" by auto
  show "length data \<le> unat n \<and> unat k = length data"
    using r unsigned_less [of n, where ?'a = nat] by (auto simp: unat_of_nat take_bit_eq_mod)
next
  fix b b' x y bs wo st k
  assume "be_write (usbtmc_backend tr race) b x bs wo = Some (st, k, y, b')"
  then show "op_advances x y"
    by (auto simp: usbtmc_backend_def usbtmc_write_def Let_def split: if_splits option.splits prod.splits
        intro: try_claimed_trans usb_transport_okD(1) [OF ok])
next
  fix b b' x y st
  assume "be_clear (usbtmc_backend tr race) b x = Some (st, y, b')"
  then show "op_advances x y"
    by (auto simp: usbtmc_backend_def usbtmc_clear_def Let_def split: if_splits dest!: protocol_clear_advances [OF _ ok])
next
  fix b b' x y st v out
  assume "be_read_stb (usbtmc_backend tr race) b x out = Some (st, v, y, b')"
  then show "op_advances x y"
    by (auto simp: usbtmc_backend_def usbtmc_read_stb_def Let_def split: if_splits option.splits prod.splits
        dest!: ensure_capabilities_advances [OF _ ok] status_loop_advances [OF _ ok] usb_transport_okD(3) [OF ok] intro: op_advances_trans)
next
  fix b b' x y st pr
  assume "be_assert_trigger (usbtmc_backend tr race) b x pr = Some (st, y, b')"
  then show "op_advances x y"
    by (auto simp: usbtmc_backend_def usbtmc_assert_trigger_def Let_def split: if_splits option.splits prod.splits
        dest!: ensure_capabilities_advances [OF _ ok] usb_transport_okD(1) [OF ok] intro: try_claimed_trans op_advances_trans)
qed (auto simp: usbtmc_backend_def usbtmc_flush_def default_lock_def default_unlock_def default_usb_control_def split: if_splits)

section \<open>The polling loops return\<close>

text \<open>The clock is steady, and time passes during every transfer in the direction of the host.\<close>

definition usb_ticks :: "'u usb_transport \<Rightarrow> bool" where
  "usb_ticks tr \<longleftrightarrow>
     (\<forall>u x n st bs y u'. ut_bulk_in tr u x n = (st, bs, y, u') \<longrightarrow> ut_now tr u < ut_now tr u') \<and>
     (\<forall>u x r n st bs y u'. ut_control_in tr u x r n = (st, bs, y, u') \<longrightarrow> ut_now tr u < ut_now tr u') \<and>
     (\<forall>u x n st bs y u'. ut_interrupt_in tr u x n = (st, bs, y, u') \<longrightarrow> ut_now tr u < ut_now tr u') \<and>
     (\<forall>u x e st y u'. ut_clear_halt tr u x e = (st, y, u') \<longrightarrow> ut_now tr u \<le> ut_now tr u')"

lemma usb_ticksD:
  assumes "usb_ticks tr"
  shows "ut_bulk_in tr u x n = (st, ds, y, u') \<Longrightarrow> ut_now tr u < ut_now tr u'"
    and "ut_control_in tr u x r n = (st, ds, y, u') \<Longrightarrow> ut_now tr u < ut_now tr u'"
    and "ut_interrupt_in tr u x n = (st, ds, y, u') \<Longrightarrow> ut_now tr u < ut_now tr u'"
    and "ut_clear_halt tr u x e = (st, y, u') \<Longrightarrow> ut_now tr u \<le> ut_now tr u'"
  using assms [unfolded usb_ticks_def] by - metis+

text \<open>Results of a loop that was started at \<open>now\<close> with the deadline \<open>d\<close>.\<close>

definition returns :: "'u usb_transport \<Rightarrow> 'u \<Rightarrow> nat \<Rightarrow> (vi_status \<times> op \<times> 'u) option \<Rightarrow> bool" where
  "returns tr u d res \<longleftrightarrow> (\<exists>st y u'. res = Some (st, y, u') \<and> op_deadline y = Some d \<and> ut_now tr u \<le> ut_now tr u')"

lemma returnsI [intro]: "op_deadline y = Some d \<Longrightarrow> ut_now tr u \<le> ut_now tr u' \<Longrightarrow> returns tr u d (Some (st, y, u'))"
  by (simp add: returns_def)

lemma returns_later: "returns tr u1 d res \<Longrightarrow> ut_now tr u \<le> ut_now tr u1 \<Longrightarrow> returns tr u d res"
  by (auto simp: returns_def intro: order_trans)

lemma operation_ready_deadline:
  "operation_ready now x = (ready, y) \<Longrightarrow> op_deadline x = Some d \<Longrightarrow> op_deadline y = Some d \<and> (ready \<longrightarrow> now < d \<and> y = x)"
  using operation_ready_cases [of now x ready y] by (auto simp: op_advances_def)

lemma drain_loop_returns:
  assumes ok: "usb_transport_ok tr" and ticks: "usb_ticks tr" and "op_deadline x = Some d"
  shows "returns tr u d (drain_loop tr i x u)"
  using assms(3)
proof (induction "d - ut_now tr u" arbitrary: x u rule: less_induct)
  case less
  obtain ready x1 where o: "operation_ready (ut_now tr u) x = (ready, x1)" by fastforce
  note x1 = operation_ready_deadline [OF o less.prems]
  obtain st ds y u1 where b: "ut_bulk_in tr u x (unat (ui_bulk_in_max_packet_size i)) = (st, ds, y, u1)" by (metis surj_pair)
  have y: "op_deadline y = Some d" using usb_transport_okD(2) [OF ok b] less.prems by (simp add: op_advances_def)
  note t = usb_ticksD(1) [OF ticks b]
  have "returns tr u d (drain_loop tr i y u1)" if ready
    using returns_later [OF less.hyps [OF _ y, of u1], of u] that x1 t by linarith
  with x1 y t show ?case by (subst drain_loop.simps) (auto simp: o b)
qed

lemma drain_bulk_in_returns:
  "usb_transport_ok tr \<Longrightarrow> usb_ticks tr \<Longrightarrow> op_deadline x = Some d \<Longrightarrow> returns tr u d (drain_bulk_in tr i x u)"
  by (auto simp: drain_bulk_in_def drain_loop_returns)

lemma poll_status_ticks:
  assumes "usb_transport_ok tr" and "usb_ticks tr" and "op_deadline x = Some d"
  shows "case poll_status tr rq n dec x u of
       Poll_return st y u1 \<Rightarrow> op_deadline y = Some d \<and> ut_now tr u < ut_now tr u1
     | Poll_success y u1 \<Rightarrow> op_deadline y = Some d \<and> ut_now tr u < ut_now tr u1
     | Poll_pending b y u1 \<Rightarrow> op_deadline y = Some d \<and> ut_now tr u < ut_now tr u1"
proof -
  obtain st ds y u1 where c: "ut_control_in tr u x rq n = (st, ds, y, u1)" by (metis surj_pair)
  from usb_transport_okD(3) [OF assms(1) c] usb_ticksD(2) [OF assms(2) c] assms(3) show ?thesis
    by (auto simp: poll_status_def c op_advances_def split: option.splits)
qed

lemma round_returns:
  assumes ok: "usb_transport_ok tr" and ticks: "usb_ticks tr" and d: "op_deadline x = Some d"
    and success: "\<And>y u1. op_deadline y = Some d \<Longrightarrow> returns tr u1 d (Some (success y u1))"
    and go_on: "\<And>fifo y u1. op_deadline y = Some d \<Longrightarrow> d - ut_now tr u1 < d - ut_now tr u \<Longrightarrow> returns tr u1 d (go_on fifo y u1)"
  shows "returns tr u d (case operation_ready (ut_now tr u) x of (ready, x1) \<Rightarrow>
      if \<not> ready then Some (op_result x1, x1, u)
      else (case poll_status tr rq n dec x1 u of
          Poll_return status y u1 \<Rightarrow> Some (status, y, u1)
        | Poll_success y u1 \<Rightarrow> Some (success y u1)
        | Poll_pending fifo y u1 \<Rightarrow> go_on fifo y u1))"
proof -
  obtain ready x1 where o: "operation_ready (ut_now tr u) x = (ready, x1)" by fastforce
  note x1 = operation_ready_deadline [OF o d]
  show ?thesis
  proof (cases ready)
    case True
    with x1 have now: "ut_now tr u < d" "x1 = x" by simp_all
    show ?thesis
    proof (cases "poll_status tr rq n dec x u")
      case (Poll_return st y u1)
      with poll_status_ticks [OF ok ticks d, of u rq n dec] show ?thesis by (auto simp: o True now)
    next
      case (Poll_success y u1)
      with poll_status_ticks [OF ok ticks d, of u rq n dec] have "op_deadline y = Some d" "ut_now tr u \<le> ut_now tr u1" by simp_all
      from returns_later [OF success [OF this(1)] this(2)] Poll_success show ?thesis by (simp add: o True now)
    next
      case (Poll_pending fifo y u1)
      with poll_status_ticks [OF ok ticks d, of u rq n dec] have y: "op_deadline y = Some d" "ut_now tr u < ut_now tr u1" by simp_all
      have "returns tr u1 d (go_on fifo y u1)" by (rule go_on [OF y(1)]) (use y(2) now(1) in linarith)
      from returns_later [OF this, of u] y(2) Poll_pending show ?thesis by (simp add: o True now)
    qed
  qed (use x1 in \<open>auto simp: o\<close>)
qed

lemma clear_halt_returns:
  assumes "usb_transport_ok tr" and "usb_ticks tr" and "op_deadline y = Some d"
  shows "returns tr u d (Some (ut_clear_halt tr u y e))"
proof -
  obtain st z u1 where h: "ut_clear_halt tr u y e = (st, z, u1)" by (metis surj_pair)
  from usb_transport_okD(7) [OF assms(1) h] usb_ticksD(4) [OF assms(2) h] assms(3) show ?thesis
    by (auto simp: h op_advances_def)
qed

lemma drained_returns:
  assumes "usb_transport_ok tr" and "usb_ticks tr" and "op_deadline y = Some d"
    and loop: "\<And>z u2. op_deadline z = Some d \<Longrightarrow> ut_now tr u \<le> ut_now tr u2 \<Longrightarrow> returns tr u2 d (loop z u2)"
  shows "returns tr u d (if fifo then Option.bind (drain_bulk_in tr i y u) (\<lambda>(status, z, u2).
              if status < VI_SUCCESS then Some (status, z, u2) else loop z u2) else loop y u)"
proof -
  obtain st z u2 where dr: "drain_bulk_in tr i y u = Some (st, z, u2)" "op_deadline z = Some d" "ut_now tr u \<le> ut_now tr u2"
    using drain_bulk_in_returns [OF assms(1-3), of u i] by (auto simp: returns_def)
  from loop [OF dr(2,3)] dr(3) have "returns tr u d (loop z u2)" by (rule returns_later)
  with dr loop [OF assms(3)] show ?thesis by auto
qed

lemma clear_loop_returns:
  assumes "usb_transport_ok tr" and "usb_ticks tr" and "op_deadline x = Some d"
  shows "returns tr u d (clear_loop tr i x u)"
  using assms(3)
proof (induction "d - ut_now tr u" arbitrary: x u rule: less_induct)
  case less
  show ?case
    by (subst clear_loop.simps)
       (intro round_returns assms(1,2) less.prems clear_halt_returns drained_returns less.hyps; linarith)
qed

lemma abort_in_loop_returns:
  assumes "usb_transport_ok tr" and "usb_ticks tr" and "op_deadline x = Some d"
  shows "returns tr u d (abort_in_loop tr i x u)"
  using assms(3)
proof (induction "d - ut_now tr u" arbitrary: x u rule: less_induct)
  case less
  show ?case
    by (subst abort_in_loop.simps)
       (intro round_returns assms(1,2) less.prems returnsI drained_returns less.hyps; linarith?)
qed

lemma abort_out_loop_returns:
  assumes "usb_transport_ok tr" and "usb_ticks tr" and "op_deadline x = Some d"
  shows "returns tr u d (abort_out_loop tr i x u)"
  using assms(3)
proof (induction "d - ut_now tr u" arbitrary: x u rule: less_induct)
  case less
  show ?case
    by (subst abort_out_loop.simps)
       (intro round_returns assms(1,2) less.prems clear_halt_returns less.hyps; linarith?)
qed

lemma control_in_then_returns:
  assumes "usb_transport_ok tr" and "usb_ticks tr" and "op_deadline x = Some d"
    and loop: "\<And>y u1. op_deadline y = Some d \<Longrightarrow> returns tr u1 d (go_on y u1)"
  shows "returns tr u d (case ut_control_in tr u x rq n of (status, response, y, u1) \<Rightarrow>
     if status < VI_SUCCESS then Some (status, y, u1) else if dec response then Some (VI_ERROR_IO, y, u1) else go_on y u1)"
proof -
  obtain st ds y u1 where c: "ut_control_in tr u x rq n = (st, ds, y, u1)" by (metis surj_pair)
  have y: "op_deadline y = Some d" using usb_transport_okD(3) [OF assms(1) c] assms(3) by (simp add: op_advances_def)
  from returns_later [OF loop [OF y]] usb_ticksD(2) [OF assms(2) c] y show ?thesis by (auto simp: c)
qed

lemma recovery_calls_return:
  assumes "usb_transport_ok tr" and "usb_ticks tr" and "op_deadline x = Some d"
  shows "returns tr u d (protocol_clear tr i x u)" and "returns tr u d (abort_bulk_out tr i t x u)"
    and "returns tr u d (abort_bulk_in tr i t x u)"
proof -
  note loops = clear_loop_returns [OF assms(1,2)] abort_out_loop_returns [OF assms(1,2)] abort_in_loop_returns [OF assms(1,2)]
  show "returns tr u d (protocol_clear tr i x u)"
    using control_in_then_returns [OF assms loops(1)] assms(3) by (auto simp: protocol_clear_def)
  show "returns tr u d (abort_bulk_out tr i t x u)"
    using control_in_then_returns [OF assms loops(2)] assms(3) by (auto simp: abort_bulk_out_def)
  have "returns tr u1 d (Option.bind (drain_bulk_in tr i y u1) (\<lambda>(status, z, u2).
      if status < VI_SUCCESS then Some (status, z, u2) else abort_in_loop tr i z u2))" if "op_deadline y = Some d" for y u1
    using drained_returns [OF assms(1,2) that, of u1 "abort_in_loop tr i" True i] loops(3) by simp
  then show "returns tr u d (abort_bulk_in tr i t x u)"
    using control_in_then_returns [OF assms] assms(3) by (auto simp: abort_bulk_in_def)
qed

lemma recover_returns:
  assumes "usb_transport_ok tr" and "usb_ticks tr"
  obtains r s' where "recover_cancelled_transfer tr b t s = Some (r, s')"
    and "if r then tmc_read_ahead s' = [] \<and> \<not> tmc_read_ahead_ends_message s' \<and> tmc_usable s' = tmc_usable s else \<not> tmc_usable s'"
proof -
  let ?i = "tmc_interface s" and ?u = "tmc_transport s"
  let ?x = "operation_new (ut_now tr ?u) kRecoveryTimeout :: op"
  obtain d where "op_deadline ?x = Some d" by (simp add: operation_new_def)
  note R = recovery_calls_return(2,3) [OF assms this]
  obtain st1 y1 u1 where a: "(if b then abort_bulk_in tr ?i t ?x ?u else abort_bulk_out tr ?i t ?x ?u) = Some (st1, y1, u1)"
    using R(1) [of ?u ?i t] R(2) [of ?u ?i t] by (cases b) (auto simp: returns_def simp del: kRecoveryTimeout_def)
  let ?y = "operation_new (ut_now tr u1) kRecoveryTimeout :: op"
  obtain d' where d': "op_deadline ?y = Some d'" by (simp add: operation_new_def)
  obtain st2 y2 u2 where c: "protocol_clear tr ?i ?y u1 = Some (st2, y2, u2)"
    using recovery_calls_return(1) [OF assms d', of u1 ?i] by (auto simp: returns_def simp del: kRecoveryTimeout_def)
  obtain r s' where e: "recover_cancelled_transfer tr b t s = Some (r, s')"
    by (cases "st1 \<ge> VI_SUCCESS"; cases "st2 \<ge> VI_SUCCESS") (auto simp: recover_cancelled_transfer_def Let_def a c simp del: kRecoveryTimeout_def)
  show thesis
    by (rule that [OF e]) (use e in \<open>auto simp: recover_cancelled_transfer_def Let_def a c forget_read_ahead_def mark_unusable_def split: if_splits simp del: kRecoveryTimeout_def\<close>)
qed

lemma status_loop_returns:
  assumes "usb_transport_ok tr" and "usb_ticks tr" and "op_deadline x = Some d"
  shows "status_loop tr t x u \<noteq> None"
  using assms(3)
proof (induction "d - ut_now tr u" arbitrary: x u rule: less_induct)
  case less
  obtain ready x1 where o: "operation_ready (ut_now tr u) x = (ready, x1)" by fastforce
  note x1 = operation_ready_deadline [OF o less.prems]
  obtain st ds y u1 where b: "ut_interrupt_in tr u x 2 = (st, ds, y, u1)" by (metis surj_pair)
  have y: "op_deadline y = Some d" using usb_transport_okD(5) [OF assms(1) b] less.prems by (simp add: op_advances_def)
  note t = usb_ticksD(3) [OF assms(2) b]
  have "status_loop tr t y u1 \<noteq> None" if ready using less.hyps [OF _ y, of u1] that x1 t by linarith
  with x1 show ?case by (subst status_loop.simps) (auto simp: o b split: option.splits)
qed

section \<open>Data is conserved\<close>

text \<open>The transport, with the frames it has handed over in successful bulk-in transfers.\<close>

definition usb_logged :: "'u usb_transport \<Rightarrow> ('u \<times> byte list list) usb_transport" where
  "usb_logged tr =
     \<lparr>ut_interface_info = (\<lambda>(u, l). ut_interface_info tr u),
      ut_bulk_out = (\<lambda>(u, l) x bs. case ut_bulk_out tr u x bs of (st, k, y, u') \<Rightarrow> (st, k, y, (u', l))),
      ut_bulk_in = (\<lambda>(u, l) x n. case ut_bulk_in tr u x n of
        (st, bs, y, u') \<Rightarrow> (st, bs, y, (u', if st < VI_SUCCESS then l else l @ [bs]))),
      ut_control_in = (\<lambda>(u, l) x r n. case ut_control_in tr u x r n of (st, bs, y, u') \<Rightarrow> (st, bs, y, (u', l))),
      ut_control_out = (\<lambda>(u, l) x r bs. case ut_control_out tr u x r bs of (st, k, y, u') \<Rightarrow> (st, k, y, (u', l))),
      ut_interrupt_in = (\<lambda>(u, l) x n. case ut_interrupt_in tr u x n of (st, bs, y, u') \<Rightarrow> (st, bs, y, (u', l))),
      ut_interrupt_out = (\<lambda>(u, l) x bs. case ut_interrupt_out tr u x bs of (st, k, y, u') \<Rightarrow> (st, k, y, (u', l))),
      ut_clear_halt = (\<lambda>(u, l) x e. case ut_clear_halt tr u x e of (st, y, u') \<Rightarrow> (st, y, (u', l))),
      ut_cancel = (\<lambda>(u, l). (ut_cancel tr u, l)), ut_close = (\<lambda>(u, l). (ut_close tr u, l)), ut_now = (\<lambda>(u, l). ut_now tr u)\<rparr>"

abbreviation frames :: "('u \<times> byte list list) usbtmc_session \<Rightarrow> byte list list" where
  "frames s \<equiv> snd (tmc_transport s)"

text \<open>The data of a frame and the END mark of its header; what waits in the session.\<close>

definition frame_tokens :: "byte list \<Rightarrow> token list" where
  "frame_tokens bytes = tokens (take (unat (read_u32_le bytes 4)) (drop kHeaderSize bytes)) (bytes ! 8 AND 1 \<noteq> 0)"

definition tmc_ahead :: "'u usbtmc_session \<Rightarrow> token list" where
  "tmc_ahead s = tokens (tmc_read_ahead s) (tmc_read_ahead_ends_message s)"

definition tmc_ahead_ok :: "'u usbtmc_session \<Rightarrow> bool" where
  "tmc_ahead_ok s \<longleftrightarrow> (tmc_read_ahead_ends_message s \<longrightarrow> tmc_read_ahead s \<noteq> [])"

lemma tokens_split: "tokens (bs @ cs) e = tokens bs (e \<and> cs = []) @ tokens cs (e \<and> cs \<noteq> [])"
  by (auto simp: tokens_def)

lemma decoded_frame: "decode_dev_dep_msg_in bs t n a = Some m \<Longrightarrow> frame_tokens bs = tokens (ddm_payload m) (end_of_message m)"
  by (auto simp: decode_dev_dep_msg_in_def decode_message_def frame_tokens_def Let_def split: if_splits)

lemma tmc_request_logged:
  assumes "tmc_request (usb_logged tr) ro n x s = (t, Inr m, y, s')"
  shows "\<exists>fr. frames s' = frames s @ [fr] \<and> frame_tokens fr = tokens (ddm_payload m) (end_of_message m) \<and>
     tmc_read_ahead s' = tmc_read_ahead s \<and> tmc_read_ahead_ends_message s' = tmc_read_ahead_ends_message s"
  using assms decoded_frame
  by (fastforce simp: tmc_request_def Let_def usb_logged_def next_tag_def split: prod.splits option.splits if_splits)

lemma tmc_take_ahead_conserves:
  "tmc_take_ahead n ro ra ends cs f False = (cs', f', e', ra', ends') \<Longrightarrow> (ends \<longrightarrow> ra \<noteq> []) \<Longrightarrow>
   tokens (cs @ ra) ends = tokens cs' e' @ tokens ra' ends' \<and> (ends' \<longrightarrow> ra' \<noteq> []) \<and> (length cs' < n \<and> \<not> f' \<longrightarrow> ra' = [])"
proof (induction ra arbitrary: ends cs f)
  case (Cons b bs)
  show ?case
  proof (cases "length cs < n \<and> \<not> f")
    case True
    show ?thesis
    proof (cases "bs = []")
      case True': True
      with Cons.prems True show ?thesis by (auto simp: tokens_def)
    next
      case False
      with Cons.prems True Cons.IH [of ends "cs @ [b]" "ro_termchar_enabled ro \<and> b = ro_termchar ro"] show ?thesis by simp
    qed
  qed (use Cons.prems in \<open>auto simp: tokens_def\<close>)
qed (auto simp: tokens_def)

lemma tmc_loop_conserves:
  assumes "tmc_read_loop (usb_logged tr) ro n cs f e t x s = r" and "length cs \<le> n" and "ends_at_termchar ro cs f"
    and "length cs < n \<and> \<not> f \<and> \<not> e \<longrightarrow> tmc_ahead s = []" and "tmc_ahead_ok s"
  shows "case r of (l, t', cs', f', e', y, s') \<Rightarrow> l = None \<longrightarrow>
    (\<exists>new. tokens cs e @ tmc_ahead s @ concat (map frame_tokens new) = tokens cs' e' @ tmc_ahead s' \<and> tmc_ahead_ok s' \<and>
      length cs' \<le> n \<and> ends_at_termchar ro cs' f' \<and> (n \<le> length cs' \<or> f' \<or> e') \<and> frames s @ new = frames s')"
  using assms
proof (induction rule: tmc_read_loop_rule)
  case (message cs t x s t' m y s1 cs' f' tl r)
  let ?s = "s1\<lparr>tmc_read_ahead := tmc_read_ahead s1 @ tl, tmc_read_ahead_ends_message :=
    (if end_of_message m \<and> tl \<noteq> [] then True else tmc_read_ahead_ends_message s1)\<rparr>"
  obtain fr where fr: "frames s1 = frames s @ [fr]" "frame_tokens fr = tokens (ddm_payload m) (end_of_message m)"
    "tmc_read_ahead s1 = tmc_read_ahead s" "tmc_read_ahead_ends_message s1 = tmc_read_ahead_ends_message s"
    using tmc_request_logged [OF message.hyps(2)] by blast
  obtain p where p: "ddm_payload m = p @ tl" "cs' = cs @ p" "length cs' \<le> n" "ends_at_termchar ro cs' f'"
    "tl \<noteq> [] \<longrightarrow> length cs' = n \<or> f'"
    using tmc_consume_split [OF message.prems(1) message.hyps(3) message.prems(2)] by auto
  have "tmc_ahead s = []" using message.prems(3) message.hyps(1) by simp
  then have e: "tmc_read_ahead s = []" "\<not> tmc_read_ahead_ends_message s" by (auto simp: tmc_ahead_def tokens_def split: if_splits)
  have ah: "tmc_ahead ?s = tokens tl (end_of_message m \<and> tl \<noteq> [])" using e fr(3,4) by (auto simp: tmc_ahead_def tokens_def)
  have ok: "tmc_ahead_ok ?s" using e fr(3,4) by (simp add: tmc_ahead_ok_def)
  have "length cs' < n \<and> \<not> f' \<and> \<not> (end_of_message m \<and> tl = []) \<longrightarrow> tmc_ahead ?s = []" using p(5) ah by auto
  note IH = message.IH [OF p(3,4) this ok]
  show ?case
  proof (clarify)
    fix t'' cs'' f'' e'' y' s'
    assume "r = (None, t'', cs'', f'', e'', y', s')"
    with IH obtain new where new: "tokens cs' (end_of_message m \<and> tl = []) @ tmc_ahead ?s @ concat (map frame_tokens new) =
        tokens cs'' e'' @ tmc_ahead s'" "frames ?s @ new = frames s'" "tmc_ahead_ok s'" "length cs'' \<le> n" "ends_at_termchar ro cs'' f''"
        "n \<le> length cs'' \<or> f'' \<or> e''" by auto
    have "tokens cs False @ tmc_ahead s @ frame_tokens fr = tokens cs' (end_of_message m \<and> tl = []) @ tmc_ahead ?s"
      using fr(2) p(1,2) e ah tokens_split [of cs' tl "end_of_message m"] by (simp add: tmc_ahead_def)
    then have "tokens cs False @ tmc_ahead s @ concat (map frame_tokens (fr # new)) = tokens cs'' e'' @ tmc_ahead s'"
      by (simp del: tokens_simps flip: new(1) append_assoc)
    with new fr(1) show "\<exists>new. tokens cs False @ tmc_ahead s @ concat (map frame_tokens new) = tokens cs'' e'' @ tmc_ahead s' \<and>
        tmc_ahead_ok s' \<and> length cs'' \<le> n \<and> ends_at_termchar ro cs'' f'' \<and> (n \<le> length cs'' \<or> f'' \<or> e'') \<and> frames s @ new = frames s'"
      by (intro exI [of _ "fr # new"]) (simp del: tokens_simps)
  qed
qed (auto intro!: exI [of _ "[]"])

text \<open>A transfer completes the operation only as failed: by a timeout or a cancellation.\<close>

definition unless_failed :: "op \<Rightarrow> bool" where
  "unless_failed x \<longleftrightarrow> op_completed x \<longrightarrow> op_result x < VI_SUCCESS"

definition usb_completes_failed :: "'u usb_transport \<Rightarrow> bool" where
  "usb_completes_failed tr \<longleftrightarrow>
     (\<forall>u x bs st k y u'. ut_bulk_out tr u x bs = (st, k, y, u') \<longrightarrow> unless_failed x \<longrightarrow> unless_failed y) \<and>
     (\<forall>u x n st bs y u'. ut_bulk_in tr u x n = (st, bs, y, u') \<longrightarrow> unless_failed x \<longrightarrow> unless_failed y)"

lemma usb_completes_failedD:
  assumes "usb_completes_failed tr"
  shows "ut_bulk_out tr u x bs = (st, k, y, u') \<Longrightarrow> unless_failed x \<Longrightarrow> unless_failed y"
    and "ut_bulk_in tr u x n = (st, ds, y, u') \<Longrightarrow> unless_failed x \<Longrightarrow> unless_failed y"
  using assms [unfolded usb_completes_failed_def] by - metis+

lemma usb_completes_failed_logged: "usb_completes_failed tr \<Longrightarrow> usb_completes_failed (usb_logged tr)"
  unfolding usb_completes_failed_def by (auto simp: usb_logged_def split: prod.splits)

lemma tmc_request_failed:
  assumes "tmc_request tr ro n x s = (t, res, y, s')" and "usb_completes_failed tr" and "unless_failed x"
  shows "unless_failed y" and "res = Inl (st, b, c) \<Longrightarrow> st < VI_SUCCESS"
proof -
  note D = usb_completes_failedD [OF assms(2)]
  show "unless_failed y" using assms(1,3)
    by (auto simp: tmc_request_def Let_def split: prod.splits option.splits if_splits dest: D)
  show "st < VI_SUCCESS" if "res = Inl (st, b, c)" using assms(1) that
    by (auto simp: tmc_request_def Let_def split: prod.splits option.splits if_splits)
qed

lemma tmc_loop_failed:
  assumes "tmc_read_loop tr ro n cs f e t x s = r" and "usb_completes_failed tr" and "unless_failed x"
  shows "case r of (l, t', cs', f', e', y, s') \<Rightarrow> unless_failed y \<and> (\<forall>st b c. l = Some (st, b, c) \<longrightarrow> st < VI_SUCCESS)"
  using assms(1,3)
proof (induction rule: tmc_read_loop_rule)
  case (left cs t x s t' l y s1)
  then show ?case using tmc_request_failed [OF left.hyps(2) assms(2)] by (cases l) auto
next
  case (message cs t x s t' m y s1 cs' f' tl r)
  then show ?case using tmc_request_failed(1) [OF message.hyps(2) assms(2)] by simp
qed simp

lemma try_claimed_failed:
  assumes "try_complete st (claimed race x) = (won, y)" and "unless_failed x" and "\<forall>c. race = Some c \<longrightarrow> c < VI_SUCCESS" and "\<not> won"
  shows "op_result y < VI_SUCCESS"
  using assms by (auto simp: claimed_def unless_failed_def operation_defs op_completed_def split: option.splits if_splits)

lemma usbtmc_read_success:
  assumes "usbtmc_read (usb_logged tr) race s x n ro = Some (st, data, k, y, s')" and "VI_SUCCESS \<le> st"
    and "tmc_ahead_ok s" and "usb_completes_failed tr" and race: "\<forall>c. race = Some c \<longrightarrow> c < VI_SUCCESS"
    and "\<not> op_completed x"
  shows "\<exists>new e. frames s' = frames s @ new \<and> tmc_ahead s @ concat (map frame_tokens new) = tokens data e @ tmc_ahead s' \<and>
     tmc_ahead_ok s' \<and>
     (st = VI_SUCCESS \<and> e \<or> st = VI_SUCCESS_MAX_CNT \<and> length data = unat n \<or>
      st = VI_SUCCESS_TERM_CHAR \<and> data \<noteq> [] \<and> last data = ro_termchar ro \<and> ro_termchar ro \<notin> set (butlast data))"
proof -
  obtain c0 f0 e0 ra en where ta: "tmc_take_ahead (unat n) ro (tmc_read_ahead s) (tmc_read_ahead_ends_message s) [] False False =
    (c0, f0, e0, ra, en)" by (metis surj_pair)
  let ?s = "s\<lparr>tmc_read_ahead := ra, tmc_read_ahead_ends_message := en\<rparr>"
  obtain l t cs f e z s1 where lo: "tmc_read_loop (usb_logged tr) ro (unat n) c0 f0 e0 0 x ?s = (l, t, cs, f, e, z, s1)" by (metis surj_pair)
  note r = assms(1) [unfolded usbtmc_read_def ta lo prod.case Let_def]
  have x: "unless_failed x" using assms(6) by (simp add: unless_failed_def)
  have ok: "n \<noteq> 0" "tmc_usable s" "valid_interface (tmc_interface s)" using assms(1,2) by (auto simp: usbtmc_read_def split: if_splits)
  note fl = tmc_loop_failed [OF lo usb_completes_failed_logged [OF assms(4)] x, unfolded prod.case]
  define st0 where "st0 = fst (case l of None \<Rightarrow> (VI_SUCCESS, False, False) | Some l \<Rightarrow> l)"
  define st1 where "st1 = (if st0 \<ge> VI_SUCCESS then if f then VI_SUCCESS_TERM_CHAR else if length cs = unat n then VI_SUCCESS_MAX_CNT
    else if \<not> e then VI_ERROR_IO else st0 else st0)"
  obtain won w where tc: "try_complete st1 (claimed race z) = (won, w)" by fastforce
  have "won" if "VI_SUCCESS \<le> (if won then st1 else op_result w)" 
    using try_claimed_failed [OF tc conjunct1 [OF fl] race] that by (cases won) auto
  with r ok assms(2,6) have res: "st = st1 \<and> data = cs \<and> s' = s1"
    using tc unfolding st1_def st0_def by (auto split: if_splits option.splits prod.splits)
  with assms(2) fl have l: "l = None" by (cases l) (auto simp: st1_def st0_def split: if_splits)
  have "ends_at_termchar ro [] False" by (simp add: ends_at_termchar_def)
  from tmc_take_ahead_split [OF ta _ this] have c0: "length c0 \<le> unat n" "ends_at_termchar ro c0 f0" by auto
  from tmc_take_ahead_conserves [OF ta] assms(3) have ah: "tmc_ahead s = tokens c0 e0 @ tmc_ahead ?s" "tmc_ahead_ok ?s"
    "length c0 < unat n \<and> \<not> f0 \<longrightarrow> ra = []" by (auto simp: tmc_ahead_def tmc_ahead_ok_def)
  then have "length c0 < unat n \<and> \<not> f0 \<and> \<not> e0 \<longrightarrow> tmc_ahead ?s = []" by (auto simp: tmc_ahead_def tmc_ahead_ok_def)
  from tmc_loop_conserves [OF lo c0 this ah(2)] l obtain new where new: "tokens c0 e0 @ tmc_ahead ?s @ concat (map frame_tokens new) =
      tokens cs e @ tmc_ahead s1" "tmc_ahead_ok s1" "length cs \<le> unat n" "ends_at_termchar ro cs f" "unat n \<le> length cs \<or> f \<or> e"
      "frames s @ new = frames s1" by auto
  then show ?thesis using res l ah(1)
    by (intro exI [of _ new] exI [of _ e]) (auto simp: st1_def st0_def ends_at_termchar_def)
qed

section \<open>An example device\<close>

text \<open>A device that answers abort and clear requests at once and sends a list of frames. Every transfer takes a millisecond;
  with no frame left the transfer runs into the timeout.\<close>

definition tmc_example_interface :: usb_interface_info where
  "tmc_example_interface = \<lparr>ui_interface_number = 0, ui_bulk_out_endpoint = 0x02, ui_bulk_in_endpoint = 0x81, ui_interrupt_in_endpoint = 0,
     ui_bulk_in_max_packet_size = 64, ui_usb488 = True, ui_alternate_setting = 0, ui_interrupt_out_endpoint = 0\<rparr>"

definition tmc_answer :: "usb_setup \<Rightarrow> byte list" where
  "tmc_answer r =
     (if us_request r = kInitiateAbortBulkOut \<or> us_request r = kInitiateAbortBulkIn then [1, ucast (us_value r)]
      else if us_request r = kInitiateClear then [1]
      else if us_request r = kCheckClear then [1, 0]
      else [1, 0, 0, 0, 0, 0, 0, 0])"

definition scripted_tmc :: "(nat \<times> byte list list) usb_transport" where
  "scripted_tmc =
     \<lparr>ut_interface_info = (\<lambda>u. tmc_example_interface), ut_bulk_out = (\<lambda>(now, fs) x bs. (VI_SUCCESS, length bs, x, (now + 1, fs))),
      ut_bulk_in = (\<lambda>(now, fs) x n. case fs of
          [] \<Rightarrow> (VI_ERROR_TMO, [], snd (try_complete VI_ERROR_TMO x), (now + 1, []))
        | f # fs' \<Rightarrow> (VI_SUCCESS, take n f, x, (now + 1, fs'))),
      ut_control_in = (\<lambda>(now, fs) x r n. (VI_SUCCESS, tmc_answer r, x, (now + 1, fs))), ut_control_out = usb_default_control_out,
      ut_interrupt_in = (\<lambda>(now, fs) x n. (VI_ERROR_NSUP_OPER, [], x, (now + 1, fs))), ut_interrupt_out = usb_default_interrupt_out,
      ut_clear_halt = (\<lambda>(now, fs) x e. (VI_SUCCESS, x, (now + 1, fs))), ut_cancel = (\<lambda>u. u), ut_close = (\<lambda>u. u), ut_now = fst\<rparr>"

lemma scripted_tmc_facts:
  shows "usb_transport_ok scripted_tmc" and "usb_ticks scripted_tmc" and "usb_completes_failed scripted_tmc"
  by (auto simp: usb_transport_ok_def usb_ticks_def usb_completes_failed_def unless_failed_def scripted_tmc_def
      usb_default_control_out_def usb_default_interrupt_out_def operation_defs op_advances_def split: list.splits if_splits)

abbreviation tmc_example :: "byte list list \<Rightarrow> (nat \<times> byte list list) usbtmc_session" where
  "tmc_example fs \<equiv> usbtmc_session_new scripted_tmc (0, fs)"

definition line_feed :: read_options where
  "line_feed = \<lparr>ro_termchar_enabled = True, ro_termchar = 10\<rparr>"

lemmas tmc_read_eval =
  usbtmc_read_def usbtmc_session_new_def scripted_tmc_def tmc_example_interface_def valid_interface_def tmc_read_loop.simps
  tmc_request_def next_tag_def encode_request_dev_dep_msg_in_def append_u32_le_def decode_dev_dep_msg_in_def decode_message_def
  valid_common_header_def read_u32_le_def claimed_def operation_new_def operation_defs line_feed_def tmc_restore_read_ahead_def

lemmas tmc_recover_eval =
  recover_cancelled_transfer_def abort_bulk_in_def abort_bulk_out_def drain_bulk_in_def drain_loop.simps protocol_clear_def
  clear_loop.simps abort_out_loop.simps poll_status_def operation_ready_def endpoint_request_def interface_request_def tmc_answer_def
  decode_initiate_abort_def decode_initiate_clear_def decode_check_clear_def decode_check_abort_bulk_out_def forget_read_ahead_def

section \<open>Properties\<close>

text \<open>C31. A successful read of a USBTMC session neither loses, repeats nor reorders data: the bytes and END marks waiting in
  the read-ahead, followed by those of the frames the device sends during the read, are what the read delivers followed by
  what waits afterwards. The status says where the read ended: at the END mark of a message, at the first termination
  character, or with the buffer full.\<close>

theorem usbtmc_read_conserves_data:
  assumes "usbtmc_read (usb_logged tr) race s x n ro = Some (st, data, k, y, s')" and "VI_SUCCESS \<le> st" and "tmc_ahead_ok s"
    and "usb_completes_failed tr" and "\<forall>c. race = Some c \<longrightarrow> c < VI_SUCCESS" and "\<not> op_completed x"
  shows "\<exists>new e. frames s' = frames s @ new \<and> tmc_ahead s @ concat (map frame_tokens new) = tokens data e @ tmc_ahead s' \<and>
     tmc_ahead_ok s' \<and>
     (st = VI_SUCCESS \<and> e \<or> st = VI_SUCCESS_MAX_CNT \<and> length data = unat n \<or>
      st = VI_SUCCESS_TERM_CHAR \<and> data \<noteq> [] \<and> last data = ro_termchar ro \<and> ro_termchar ro \<notin> set (butlast data))"
  using assms by (rule usbtmc_read_success)

lemma logged_example_read:
  "\<exists>y s'. usbtmc_read (usb_logged scripted_tmc) None (usbtmc_session_new (usb_logged scripted_tmc)
     ((0, [[2, 1, 254, 0, 3, 0, 0, 0, 1, 0, 0, 0, 65, 10, 66]]), [])) (operation_new 0 2000) 8 line_feed =
     Some (VI_SUCCESS_TERM_CHAR, [65, 10], 2, y, s') \<and> tmc_ahead s' = [Byte 66, End_mark]"
  by (simp add: usb_logged_def tmc_read_eval tmc_ahead_def tokens_def)

theorem usbtmc_read_conserves_data_witness:
  "\<exists>y s'. usbtmc_read (usb_logged scripted_tmc) None (usbtmc_session_new (usb_logged scripted_tmc)
      ((0, [[2, 1, 254, 0, 3, 0, 0, 0, 1, 0, 0, 0, 65, 10, 66]]), [])) (operation_new 0 2000) 8 line_feed =
      Some (VI_SUCCESS_TERM_CHAR, [65, 10], 2, y, s') \<and> tmc_ahead_ok s' \<and>
    concat (map frame_tokens (frames s')) \<in> {[Byte 65, Byte 10, Byte 66, End_mark], [Byte 65, Byte 10, End_mark, Byte 66, End_mark]}"
proof -
  let ?s = "usbtmc_session_new (usb_logged scripted_tmc) ((0, [[2, 1, 254, 0, 3, 0, 0, 0, 1, 0, 0, 0, 65, 10, 66]]), [])"
  obtain y s' where r: "usbtmc_read (usb_logged scripted_tmc) None ?s (operation_new 0 2000) 8 line_feed =
     Some (VI_SUCCESS_TERM_CHAR, [65, 10], 2, y, s')" and a: "tmc_ahead s' = [Byte 66, End_mark]" using logged_example_read by blast
  have "tmc_ahead_ok ?s" "frames ?s = []" "tmc_ahead ?s = []"
    by (simp_all add: tmc_ahead_ok_def tmc_ahead_def usbtmc_session_new_def)
  with usbtmc_read_conserves_data [OF r _ _ scripted_tmc_facts(3)] a
  have "tmc_ahead_ok s' \<and> (\<exists>e. concat (map frame_tokens (frames s')) = tokens [65, 10] e @ [Byte 66, End_mark])"
    by (auto simp: operation_new_def operation_defs)
  with r show ?thesis by (auto simp: tokens_def)
qed

text \<open>C32. Over every transport that does not undo a completion or move a deadline, the USBTMC session keeps the contract that
  sessions rely on, with its capabilities, recovery and status requests included.\<close>

theorem usbtmc_session_obeys_backend_contract:
  assumes "usb_transport_ok tr"
  shows "backend (usbtmc_backend tr race)"
  by (rule usbtmc_is_backend [OF assms])

theorem usbtmc_session_obeys_backend_contract_witness: "backend (usbtmc_backend scripted_tmc None)"
  by (rule usbtmc_session_obeys_backend_contract) (rule scripted_tmc_facts)

text \<open>C30. The polling loops end: when the clock moves during transfers from the device, every read, write and trigger returns, also one
  without a timeout, because the recovery after a cancelled transfer runs under deadlines of its own; a clear and a
  status request return when they have a timeout, whatever the device answers.\<close>

theorem usbtmc_calls_return:
  assumes "usb_transport_ok tr" and "usb_ticks tr"
  shows "usbtmc_read tr race s x n ro \<noteq> None \<and> usbtmc_write tr race s x bs wo \<noteq> None \<and> usbtmc_assert_trigger tr race s x pr \<noteq> None \<and>
    (op_deadline x \<noteq> None \<longrightarrow> usbtmc_clear tr s x \<noteq> None \<and> usbtmc_read_stb tr s x out \<noteq> None)"
proof (intro conjI impI)
  have rec: "\<exists>s' r. recover_cancelled_transfer tr b t s = Some (r, s')" for b t s
    by (rule recover_returns [OF assms, of b t s]) simp
  show "usbtmc_read tr race s x n ro \<noteq> None"
  proof -
    obtain c0 f0 e0 ra en where ta: "tmc_take_ahead (unat n) ro (tmc_read_ahead s) (tmc_read_ahead_ends_message s) [] False False =
      (c0, f0, e0, ra, en)" by (metis surj_pair)
    obtain l t cs f e z s1 where lo: "tmc_read_loop tr ro (unat n) c0 f0 e0 0 x
      (s\<lparr>tmc_read_ahead := ra, tmc_read_ahead_ends_message := en\<rparr>) = (l, t, cs, f, e, z, s1)" by (metis surj_pair)
    obtain st fb ca where l: "(case l of None \<Rightarrow> (VI_SUCCESS, False, False) | Some l \<Rightarrow> l) = (st, fb, ca)" by (metis surj_pair)
    obtain st1 where st1: "(if st \<ge> VI_SUCCESS then if f then VI_SUCCESS_TERM_CHAR else if length cs = unat n then VI_SUCCESS_MAX_CNT
      else if \<not> e then VI_ERROR_IO else st else st) = st1" by blast
    obtain won y where tc: "try_complete st1 (claimed race z) = (won, y)" by fastforce
    obtain st2 where st2: "(if won then st1 else op_result y) = st2" by blast
    from rec [of fb t s1] obtain r s2 where r: "recover_cancelled_transfer tr fb t s1 = Some (r, s2)" by fastforce
    show ?thesis unfolding usbtmc_read_def ta lo l Let_def prod.case st1 tc st2 r by simp
  qed
  show "usbtmc_write tr race s x bs wo \<noteq> None"
    by (auto simp: usbtmc_write_def Let_def rec split: prod.splits option.splits)
  show "usbtmc_assert_trigger tr race s x pr \<noteq> None"
    by (auto simp: usbtmc_assert_trigger_def Let_def rec split: prod.splits option.splits)
next
  assume "op_deadline x \<noteq> None"
  then obtain d where d: "op_deadline x = Some d" by blast
  show "usbtmc_clear tr s x \<noteq> None"
    using recovery_calls_return(1) [OF assms d, of "tmc_transport s" "tmc_interface s"]
    by (auto simp: usbtmc_clear_def returns_def Let_def)
  have "\<exists>a b c e. status_loop tr t y u = Some (a, b, c, e)" if "op_advances x z" "op_advances z y" for t y z u
    using status_loop_returns [OF assms, of y d t u] that d by (auto simp: op_advances_def)
  then show "usbtmc_read_stb tr s x out \<noteq> None"
    by (auto simp: usbtmc_read_stb_def Let_def split: prod.splits option.splits
        dest!: ensure_capabilities_advances [OF _ assms(1)] usb_transport_okD(3) [OF assms(1)] intro: op_advances_trans)
qed

theorem usbtmc_calls_return_witness:
  "usbtmc_read scripted_tmc None (tmc_example []) (operation_new 0 VI_TMO_INFINITE) 8 line_feed \<noteq> None \<and>
   usbtmc_clear scripted_tmc (tmc_example []) (operation_new 0 2000) \<noteq> None"
  using usbtmc_calls_return [OF scripted_tmc_facts(1,2)] by (auto simp: operation_new_def)

text \<open>A cancellation that arrives after the last frame of a message loses the END mark: the bytes are put back into the read-ahead
  without it. The device has sent \<open>A\<close> with END. The first read is cancelled; the second asks the device for a
  continuation that does not exist, runs into its timeout, and the recovery drops the byte as well. Without the
  cancellation the first read returns the complete message.\<close>

theorem cancelled_read_loses_end:
  "let fs = [[2, 1, 254, 0, 1, 0, 0, 0, 1, 0, 0, 0, 65]]; x = operation_new 0 2000 in
   (\<exists>y s'. usbtmc_read scripted_tmc None (tmc_example fs) x 8 line_feed = Some (VI_SUCCESS, [65], 1, y, s')) \<and>
   (\<exists>y s1. usbtmc_read scripted_tmc (Some VI_ERROR_ABORT) (tmc_example fs) x 8 line_feed = Some (VI_ERROR_ABORT, [], 0, y, s1) \<and>
      tmc_read_ahead s1 = [65] \<and> \<not> tmc_read_ahead_ends_message s1 \<and>
      (\<exists>z s2. usbtmc_read scripted_tmc None s1 x 8 line_feed = Some (VI_ERROR_TMO, [], 0, z, s2) \<and> tmc_read_ahead s2 = []))"
  by (simp add: tmc_read_eval tmc_recover_eval)

end
