(* ===== verification/Request_Channel.thy ===== *)
theory Request_Channel
  imports Framed_Protocols Backend "HOL-Library.Monad_Syntax"
begin

text \<open>
  The request channel (\<open>src/backends/asio/request_channel.{h,cpp}\<close>) that the HiSLIP and VXI-11 sessions share: requests of
  several threads are queued on one socket and answered through promises. All handlers run on one strand, so a handler
  is one atomic function on the state of the channel; asio is the environment that calls them. What the handlers start
  (writes, reads, timers) is recorded in a list. A handler that follows the pointer to an operation after the caller
  got it back is the value \<open>None\<close>. The functions \<open>start_next\<close>, \<open>finish\<close> and \<open>begin_response\<close> call each other; they are
  one partial function over the name of the function, which is proved to return.
\<close>

section \<open>State\<close>

datatype response_framing = Framing_none | Rpc_record | Hislip_frame

datatype asio_error =
    Error_eof | Error_connection_reset | Error_connection_aborted | Error_broken_pipe | Error_not_connected
  | Error_access_denied | Error_operation_aborted | Error_other

definition rc_read_u32 :: "byte list \<Rightarrow> u32" where
  "rc_read_u32 input =
     push_bit 24 (ucast (input ! 0)) OR push_bit 16 (ucast (input ! 1)) OR
     push_bit 8 (ucast (input ! 2)) OR ucast (input ! 3)"

definition rc_read_u64 :: "byte list \<Rightarrow> u64" where
  "rc_read_u64 input = push_bit 32 (ucast (rc_read_u32 input)) OR ucast (rc_read_u32 (drop 4 input))"

definition map_socket_error :: "asio_error \<Rightarrow> vi_status" where
  "map_socket_error e =
     (if e = Error_eof \<or> e = Error_connection_reset \<or> e = Error_connection_aborted \<or> e = Error_broken_pipe \<or> e = Error_not_connected
      then VI_ERROR_CONN_LOST
      else if e = Error_access_denied then VI_ERROR_NPERMISSION
      else VI_ERROR_IO)"

definition map_connect_error :: "asio_error \<Rightarrow> vi_status" where
  "map_connect_error e = (if e = Error_access_denied then VI_ERROR_NPERMISSION else VI_ERROR_RSRC_NFOUND)"

text \<open>\<open>rq_attached\<close> says that the pointer \<open>operation\<close> is not null; \<open>rq_completion\<close> lists the values the promise was
  given.\<close>

record request =
  rq_operation :: op
  rq_attached :: bool
  rq_request :: "byte list"
  rq_framing :: response_framing
  rq_fragment :: "byte list"
  rq_response :: "byte list"
  rq_completion :: "(vi_status \<times> byte list) list"
  rq_enqueued :: bool
  rq_active :: bool
  rq_done :: bool

datatype chan_io =
    Io_write nat "byte list"
  | Io_read nat nat
  | Io_timer nat nat
  | Io_drain_timer nat
  | Io_timer_cancel nat
  | Io_cancel nat
  | Io_observer
  | Io_socket_close

record channel =
  ch_requests :: "request list"
  ch_queue :: "nat list"
  ch_closed :: bool
  ch_open :: bool
  ch_maximum :: nat
  ch_drain :: bool
  ch_observer :: bool
  ch_io :: "chan_io list"

definition channel_new :: "nat \<Rightarrow> bool \<Rightarrow> channel" where
  "channel_new maximum_frame_size drain_on_cancel =
     \<lparr>ch_requests = [], ch_queue = [], ch_closed = False, ch_open = False, ch_maximum = maximum_frame_size,
      ch_drain = drain_on_cancel, ch_observer = False, ch_io = []\<rparr>"

abbreviation req :: "nat \<Rightarrow> channel \<Rightarrow> request" where
  "req r c \<equiv> ch_requests c ! r"

definition upd :: "nat \<Rightarrow> (request \<Rightarrow> request) \<Rightarrow> channel \<Rightarrow> channel" where
  "upd r f c = c\<lparr>ch_requests := (ch_requests c)[r := f (req r c)]\<rparr>"

definition emit :: "chan_io \<Rightarrow> channel \<Rightarrow> channel" where
  "emit a c = c\<lparr>ch_io := ch_io c @ [a]\<rparr>"

definition deref :: "nat \<Rightarrow> channel \<Rightarrow> op option" where
  "deref r c = (if rq_attached (req r c) then Some (rq_operation (req r c)) else None)"

section \<open>Handlers\<close>

definition arm_timer :: "nat \<Rightarrow> op \<Rightarrow> channel \<Rightarrow> channel" where
  "arm_timer r x c = (case op_deadline x of None \<Rightarrow> c | Some deadline \<Rightarrow> emit (Io_timer r deadline) c)"

definition read_rpc_marker :: "nat \<Rightarrow> channel \<Rightarrow> channel" where
  "read_rpc_marker r c = emit (Io_read r 4) c"

definition read_hislip_header :: "nat \<Rightarrow> channel \<Rightarrow> channel" where
  "read_hislip_header r c = emit (Io_read r 16) c"

text \<open>The part of \<open>finish\<close> before it starts the next request.\<close>

definition finish_request :: "nat \<Rightarrow> vi_status \<Rightarrow> op \<Rightarrow> channel \<Rightarrow> channel" where
  "finish_request r proposed x c =
     (let (status, y) =
            (if op_completed x then (op_result x, x)
             else if proposed < VI_SUCCESS then
               (case try_complete proposed x of (won, z) \<Rightarrow> (if won then proposed else op_result z, z))
             else (proposed, x));
          queue = (if ch_queue c \<noteq> [] \<and> hd (ch_queue c) = r then tl (ch_queue c) else remove1 r (ch_queue c));
          response = (if status \<ge> VI_SUCCESS then rq_response (req r c) else []) in
      (emit (Io_timer_cancel r)
        (upd r (\<lambda>q. q\<lparr>rq_operation := y, rq_attached := False, rq_done := True, rq_active := False,
                     rq_completion := rq_completion q @ [(status, response)]\<rparr>) c))
        \<lparr>ch_queue := queue\<rparr>)"

datatype chan_call = Start_next | Finish nat vi_status | Begin_response nat

partial_function (option) channel_run :: "chan_call \<Rightarrow> channel \<Rightarrow> channel option" where
  "channel_run k c =
     (case k of
        Start_next \<Rightarrow>
          (case ch_queue c of
             [] \<Rightarrow> Some c
           | r # rest \<Rightarrow>
               if rq_done (req r c) then channel_run Start_next (c\<lparr>ch_queue := rest\<rparr>)
               else do {
                 x \<leftarrow> deref r c;
                 if op_completed x then do {
                   c1 \<leftarrow> channel_run (Finish r (op_result x)) (c\<lparr>ch_queue := rest\<rparr>);
                   channel_run Start_next c1
                 }
                 else
                   let c1 = arm_timer r x (upd r (\<lambda>q. q\<lparr>rq_active := True\<rparr>) c) in
                   if rq_request (req r c) = [] then channel_run (Begin_response r) c1
                   else Some (emit (Io_write r (rq_request (req r c))) c1)
               })
      | Finish r proposed \<Rightarrow>
          if rq_done (req r c) then Some c
          else do {
            x \<leftarrow> deref r c;
            let c1 = finish_request r proposed x c;
            if ch_closed c1 then Some c1 else channel_run Start_next c1
          }
      | Begin_response r \<Rightarrow>
          if rq_done (req r c) \<or> \<not> rq_attached (req r c) then Some c
          else do {
            x \<leftarrow> deref r c;
            if op_completed x then channel_run (Finish r (op_result x)) c
            else (case rq_framing (req r c) of
                Framing_none \<Rightarrow> channel_run (Finish r VI_SUCCESS) c
              | Rpc_record \<Rightarrow> Some (read_rpc_marker r c)
              | Hislip_frame \<Rightarrow> Some (read_hislip_header r c))
          })"

abbreviation start_next :: "channel \<Rightarrow> channel option" where
  "start_next \<equiv> channel_run Start_next"

abbreviation chan_finish :: "nat \<Rightarrow> vi_status \<Rightarrow> channel \<Rightarrow> channel option" where
  "chan_finish r proposed \<equiv> channel_run (Finish r proposed)"

abbreviation begin_response :: "nat \<Rightarrow> channel \<Rightarrow> channel option" where
  "begin_response r \<equiv> channel_run (Begin_response r)"

definition finish_error :: "nat \<Rightarrow> asio_error \<Rightarrow> channel \<Rightarrow> channel option" where
  "finish_error r e c =
     (if rq_done (req r c) \<or> \<not> rq_attached (req r c) then Some c
      else do {
        x \<leftarrow> deref r c;
        if e = Error_operation_aborted \<and> op_completed x then chan_finish r (op_result x) c
        else chan_finish r (map_socket_error e) c
      })"

definition enqueue :: "nat \<Rightarrow> channel \<Rightarrow> channel option" where
  "enqueue r c =
     (if rq_done (req r c) then Some c
      else if ch_closed c \<or> \<not> ch_open c then chan_finish r VI_ERROR_CONN_LOST c
      else do {
        x \<leftarrow> deref r c;
        if op_completed x then chan_finish r (op_result x) c
        else
          let c1 = (upd r (\<lambda>q. q\<lparr>rq_enqueued := True\<rparr>) c)\<lparr>ch_queue := ch_queue c @ [r]\<rparr> in
          if length (ch_queue c1) = 1 then start_next c1 else Some c1
      })"

definition write_done :: "nat \<Rightarrow> asio_error option \<Rightarrow> channel \<Rightarrow> channel option" where
  "write_done r err c = (case err of Some e \<Rightarrow> finish_error r e c | None \<Rightarrow> begin_response r c)"

definition read_rpc_fragment :: "nat \<Rightarrow> bool \<Rightarrow> channel \<Rightarrow> channel option" where
  "read_rpc_fragment r final c =
     (if rq_fragment (req r c) = [] then
        if final then chan_finish r VI_SUCCESS c else Some (read_rpc_marker r c)
      else Some (emit (Io_read r (length (rq_fragment (req r c)))) c))"

definition marker_read :: "nat \<Rightarrow> asio_error + byte list \<Rightarrow> channel \<Rightarrow> channel option" where
  "marker_read r res c =
     (case res of
        Inl e \<Rightarrow> finish_error r e c
      | Inr header \<Rightarrow>
          let marker = rc_read_u32 header; size = unat (marker AND 0x7FFFFFFF) in
          if size > ch_maximum c \<or> length (rq_response (req r c)) > ch_maximum c - size then chan_finish r VI_ERROR_IO c
          else read_rpc_fragment r (marker AND 0x80000000 \<noteq> 0) (upd r (\<lambda>q. q\<lparr>rq_fragment := replicate size 0\<rparr>) c))"

definition fragment_read :: "nat \<Rightarrow> bool \<Rightarrow> asio_error + byte list \<Rightarrow> channel \<Rightarrow> channel option" where
  "fragment_read r final res c =
     (case res of
        Inl e \<Rightarrow> finish_error r e c
      | Inr bytes \<Rightarrow>
          let c1 = upd r (\<lambda>q. q\<lparr>rq_response := rq_response q @ bytes, rq_fragment := []\<rparr>) c in
          if final then chan_finish r VI_SUCCESS c1 else Some (read_rpc_marker r c1))"

definition read_hislip_payload :: "nat \<Rightarrow> channel \<Rightarrow> channel option" where
  "read_hislip_payload r c =
     (if rq_fragment (req r c) = [] then chan_finish r VI_SUCCESS c
      else Some (emit (Io_read r (length (rq_fragment (req r c)))) c))"

definition header_read :: "nat \<Rightarrow> asio_error + byte list \<Rightarrow> channel \<Rightarrow> channel option" where
  "header_read r res c =
     (case res of
        Inl e \<Rightarrow> finish_error r e c
      | Inr header \<Rightarrow>
          let payload_size = unat (rc_read_u64 (drop 8 header)) in
          if header ! 0 \<noteq> of_char (CHR ''H'') \<or> header ! 1 \<noteq> of_char (CHR ''S'') \<or> payload_size > ch_maximum c \<or>
             payload_size > 2 ^ 64 - 1 - 16
          then chan_finish r VI_ERROR_IO c
          else read_hislip_payload r (upd r (\<lambda>q. q\<lparr>rq_response := header, rq_fragment := replicate payload_size 0\<rparr>) c))"

definition payload_read :: "nat \<Rightarrow> asio_error + byte list \<Rightarrow> channel \<Rightarrow> channel option" where
  "payload_read r res c =
     (case res of
        Inl e \<Rightarrow> finish_error r e c
      | Inr bytes \<Rightarrow> chan_finish r VI_SUCCESS (upd r (\<lambda>q. q\<lparr>rq_response := rq_response q @ bytes, rq_fragment := []\<rparr>) c))"

fun close_pending :: "nat list \<Rightarrow> channel \<Rightarrow> channel option" where
  "close_pending [] c = Some c"
| "close_pending (r # rs) c =
     do {
       x \<leftarrow> deref r c;
       c1 \<leftarrow> chan_finish r (if op_completed x then op_result x else VI_ERROR_CONN_LOST) c;
       close_pending rs c1
     }"

definition chan_close :: "channel \<Rightarrow> channel option" where
  "chan_close c =
     (if ch_closed c then Some c
      else close_pending (ch_queue c) (emit Io_socket_close (c\<lparr>ch_closed := True, ch_open := False\<rparr>)))"

definition chan_cancel :: "nat \<Rightarrow> channel \<Rightarrow> channel option" where
  "chan_cancel r c =
     (if rq_done (req r c) then Some c
      else if rq_active (req r c) then
        if ch_drain c then
          let c1 = emit (Io_timer_cancel r) c; c2 = (if ch_observer c1 then emit Io_observer c1 else c1) in
          Some (emit (Io_drain_timer r) c2)
        else Some (emit (Io_cancel r) c)
      else do {
        x \<leftarrow> deref r c;
        chan_finish r (op_result x) c
      })"

definition timer_fired :: "nat \<Rightarrow> channel \<Rightarrow> channel option" where
  "timer_fired r c =
     (if \<not> rq_done (req r c) \<and> rq_attached (req r c)
      then Some (upd r (\<lambda>q. q\<lparr>rq_operation := snd (snd (request_timeout (rq_operation q)))\<rparr>) c)
      else Some c)"

definition drain_timer_fired :: "nat \<Rightarrow> channel \<Rightarrow> channel option" where
  "drain_timer_fired r c = (if \<not> rq_done (req r c) then chan_close c else Some c)"

text \<open>The beginning of \<open>exchange\<close>, on the thread of the caller: the request whose \<open>enqueue\<close> is posted next.\<close>

definition exchange_begin :: "op \<Rightarrow> byte list \<Rightarrow> response_framing \<Rightarrow> channel \<Rightarrow> channel" where
  "exchange_begin x bytes framing c =
     c\<lparr>ch_requests := ch_requests c @
       [\<lparr>rq_operation = x, rq_attached = True, rq_request = bytes, rq_framing = framing, rq_fragment = [], rq_response = [],
         rq_completion = [], rq_enqueued = False, rq_active = False, rq_done = False\<rparr>]\<rparr>"

definition set_cancel_observer :: "channel \<Rightarrow> channel" where
  "set_cancel_observer c = c\<lparr>ch_observer := True\<rparr>"

section \<open>Connecting\<close>

text \<open>The promise of \<open>connect\<close> and its handlers; a successful connect has opened the socket.\<close>

record connect_state =
  cn_done :: bool
  cn_completion :: "(vi_status \<times> string) list"

definition connect_finish :: "vi_status \<Rightarrow> string \<Rightarrow> connect_state \<Rightarrow> channel \<Rightarrow> connect_state \<times> channel" where
  "connect_finish status address n c =
     (if cn_done n then (n, c)
      else (\<lparr>cn_done = True, cn_completion = cn_completion n @ [(status, address)]\<rparr>,
            if status < VI_SUCCESS then emit Io_socket_close (c\<lparr>ch_open := False\<rparr>) else c\<lparr>ch_open := True\<rparr>))"

definition connect_timer_fired :: "connect_state \<Rightarrow> channel \<Rightarrow> connect_state \<times> channel" where
  "connect_timer_fired n c = connect_finish VI_ERROR_TMO [] n c"

definition resolve_failed :: "asio_error \<Rightarrow> connect_state \<Rightarrow> channel \<Rightarrow> connect_state \<times> channel" where
  "resolve_failed e n c = connect_finish (map_connect_error e) [] n c"

definition connect_done :: "asio_error + string \<Rightarrow> connect_state \<Rightarrow> channel \<Rightarrow> connect_state \<times> channel" where
  "connect_done res n c =
     (case res of
        Inl e \<Rightarrow> connect_finish (map_connect_error e) [] n c
      | Inr address \<Rightarrow> connect_finish VI_SUCCESS address n c)"

section \<open>Invariant\<close>

definition frame_bound :: "response_framing \<Rightarrow> nat \<Rightarrow> nat" where
  "frame_bound framing maximum = (case framing of Framing_none \<Rightarrow> 0 | Rpc_record \<Rightarrow> maximum | Hislip_frame \<Rightarrow> 16 + maximum)"

text \<open>A request that is not done has its operation and an empty promise; one that is done has given the operation
  back and its promise has one value, which agrees with the operation. Data stays within the limit of the framing.\<close>

definition outcome_ok :: "nat \<Rightarrow> op \<Rightarrow> (vi_status \<times> byte list) list \<Rightarrow> bool" where
  "outcome_ok bound x completion \<longleftrightarrow>
     (\<exists>st bs. completion = [(st, bs)] \<and> (if op_completed x then st = op_result x else 0 \<le> st) \<and> (st < 0 \<longrightarrow> bs = []) \<and> length bs \<le> bound)"

definition request_ok :: "nat \<Rightarrow> request \<Rightarrow> bool" where
  "request_ok maximum q \<longleftrightarrow>
     rq_attached q = (\<not> rq_done q) \<and> (rq_active q \<longrightarrow> \<not> rq_done q) \<and>
     length (rq_response q) + length (rq_fragment q) \<le> frame_bound (rq_framing q) maximum \<and>
     (if rq_done q then outcome_ok (frame_bound (rq_framing q) maximum) (rq_operation q) (rq_completion q)
      else rq_completion q = [])"

text \<open>The queue holds, in order, the requests that wait; the active one is at its front. The requests in \<open>X\<close> have been
  taken from the queue and are being finished.\<close>

definition chan_inv :: "nat set \<Rightarrow> channel \<Rightarrow> bool" where
  "chan_inv X c \<longleftrightarrow>
     distinct (ch_queue c) \<and>
     (\<forall>r \<in> set (ch_queue c). r < length (ch_requests c) \<and> rq_enqueued (req r c) \<and> \<not> rq_done (req r c)) \<and>
     (\<forall>r < length (ch_requests c). request_ok (ch_maximum c) (req r c) \<and>
        (rq_enqueued (req r c) \<and> \<not> rq_done (req r c) \<longrightarrow> r \<in> set (ch_queue c) \<or> r \<in> X) \<and>
        (rq_active (req r c) \<longrightarrow> ch_queue c \<noteq> [] \<and> hd (ch_queue c) = r \<or> r \<in> X))"

text \<open>What these functions keep: requests that are done stay as they are, and the queue gets no new ones.\<close>

definition chan_le :: "channel \<Rightarrow> channel \<Rightarrow> bool" where
  "chan_le c c' \<longleftrightarrow>
     length (ch_requests c') = length (ch_requests c) \<and> ch_closed c' = ch_closed c \<and> ch_open c' = ch_open c \<and>
     ch_maximum c' = ch_maximum c \<and> set (ch_queue c') \<subseteq> set (ch_queue c) \<and>
     (\<forall>r < length (ch_requests c). (rq_done (req r c) \<longrightarrow> req r c' = req r c) \<and> (rq_enqueued (req r c) \<longrightarrow> rq_enqueued (req r c')))"

definition undone :: "channel \<Rightarrow> nat" where
  "undone c = card {r. r < length (ch_requests c) \<and> \<not> rq_done (req r c)}"

lemma chan_le_refl [simp]: "chan_le c c"
  by (simp add: chan_le_def)

lemma chan_le_trans: "chan_le c1 c2 \<Longrightarrow> chan_le c2 c3 \<Longrightarrow> chan_le c1 c3"
  unfolding chan_le_def by auto

lemma undone_le: "chan_le c c' \<Longrightarrow> undone c' \<le> undone c"
  unfolding undone_def chan_le_def by (rule card_mono) auto

lemma undone_less:
  assumes "chan_le c c'" and "r < length (ch_requests c)" and "\<not> rq_done (req r c)" and "rq_done (req r c')"
  shows "undone c' < undone c"
  unfolding undone_def using assms by (intro psubset_card_mono) (auto simp: chan_le_def)

lemma emit_sel [simp]:
  "ch_requests (emit a c) = ch_requests c" "ch_queue (emit a c) = ch_queue c" "ch_closed (emit a c) = ch_closed c"
  "ch_open (emit a c) = ch_open c" "ch_maximum (emit a c) = ch_maximum c" "ch_drain (emit a c) = ch_drain c"
  "ch_observer (emit a c) = ch_observer c"
  by (simp_all add: emit_def)

lemma upd_sel [simp]:
  "ch_requests (upd r f c) = (ch_requests c)[r := f (req r c)]" "ch_queue (upd r f c) = ch_queue c" "ch_closed (upd r f c) = ch_closed c"
  "ch_open (upd r f c) = ch_open c" "ch_maximum (upd r f c) = ch_maximum c" "ch_io (upd r f c) = ch_io c"
  by (simp_all add: upd_def)

lemma chan_inv_cong:
  "ch_requests c' = ch_requests c \<Longrightarrow> ch_queue c' = ch_queue c \<Longrightarrow> ch_maximum c' = ch_maximum c \<Longrightarrow> chan_inv X c \<Longrightarrow> chan_inv X c'"
  by (simp add: chan_inv_def)

lemma chan_inv_emit [simp]: "chan_inv X (emit a c) = chan_inv X c"
  by (simp add: chan_inv_def)

lemma chan_le_emit [simp]: "chan_le c (emit a c') = chan_le c c'"
  by (simp add: chan_le_def)

lemma chan_inv_mono: "chan_inv X c \<Longrightarrow> X \<subseteq> Y \<Longrightarrow> chan_inv Y c"
  unfolding chan_inv_def by blast

lemma arm_timer_sel [simp]:
  "ch_requests (arm_timer r x c) = ch_requests c" "ch_queue (arm_timer r x c) = ch_queue c" "ch_closed (arm_timer r x c) = ch_closed c"
  "ch_open (arm_timer r x c) = ch_open c" "ch_maximum (arm_timer r x c) = ch_maximum c"
  by (simp_all add: arm_timer_def split: option.split)

lemma chan_invD:
  assumes "chan_inv X c"
  shows "distinct (ch_queue c)" and "r \<in> set (ch_queue c) \<Longrightarrow> r < length (ch_requests c)"
    and "r \<in> set (ch_queue c) \<Longrightarrow> \<not> rq_done (req r c)" and "r < length (ch_requests c) \<Longrightarrow> request_ok (ch_maximum c) (req r c)"
    and "r < length (ch_requests c) \<Longrightarrow> deref r c = (if rq_done (req r c) then None else Some (rq_operation (req r c)))"
  using assms by (auto simp: chan_inv_def request_ok_def deref_def)

lemma chan_inv_place:
  assumes "chan_inv X c"
  shows "r \<in> set (ch_queue c) \<Longrightarrow> rq_enqueued (req r c)"
    and "r < length (ch_requests c) \<Longrightarrow> rq_enqueued (req r c) \<Longrightarrow> \<not> rq_done (req r c) \<Longrightarrow> r \<in> set (ch_queue c) \<or> r \<in> X"
    and "r < length (ch_requests c) \<Longrightarrow> rq_active (req r c) \<Longrightarrow> ch_queue c \<noteq> [] \<and> hd (ch_queue c) = r \<or> r \<in> X"
  using assms unfolding chan_inv_def by blast+

lemma chan_invI:
  assumes "distinct (ch_queue c)"
    and "\<And>r. r \<in> set (ch_queue c) \<Longrightarrow> r < length (ch_requests c) \<and> rq_enqueued (req r c) \<and> \<not> rq_done (req r c)"
    and "\<And>r. r < length (ch_requests c) \<Longrightarrow> request_ok (ch_maximum c) (req r c)"
    and "\<And>r. r < length (ch_requests c) \<Longrightarrow> rq_enqueued (req r c) \<Longrightarrow> \<not> rq_done (req r c) \<Longrightarrow> r \<in> set (ch_queue c) \<or> r \<in> X"
    and "\<And>r. r < length (ch_requests c) \<Longrightarrow> rq_active (req r c) \<Longrightarrow> ch_queue c \<noteq> [] \<and> hd (ch_queue c) = r \<or> r \<in> X"
  shows "chan_inv X c"
  using assms unfolding chan_inv_def by blast

text \<open>Changing one request that stays in its place.\<close>

lemma chan_inv_upd:
  assumes "chan_inv X c" and "r < length (ch_requests c)" and "request_ok (ch_maximum c) q" and "q = f (req r c)"
    and "rq_done q = rq_done (req r c)" and "rq_enqueued q = rq_enqueued (req r c)"
    and "rq_active q \<longrightarrow> rq_active (req r c) \<or> ch_queue c \<noteq> [] \<and> hd (ch_queue c) = r"
  shows "chan_inv X (upd r f c)"
  using assms unfolding chan_inv_def by (auto simp: nth_list_update)

lemma hd_remove1: "hd xs \<noteq> x \<Longrightarrow> xs \<noteq> [] \<Longrightarrow> remove1 x xs \<noteq> [] \<and> hd (remove1 x xs) = hd xs"
  by (cases xs) auto

lemma finish_request_ok:
  assumes inv: "chan_inv {r} c" and r: "r < length (ch_requests c)" and nd: "\<not> rq_done (req r c)"
  shows "chan_inv {} (finish_request r st (rq_operation (req r c)) c)"
    and "chan_le c (finish_request r st (rq_operation (req r c)) c)"
    and "rq_done (req r (finish_request r st (rq_operation (req r c)) c))"
proof -
  let ?x = "rq_operation (req r c)"
  obtain status y where sy: "(if op_completed ?x then (op_result ?x, ?x)
      else if st < VI_SUCCESS then (case try_complete st ?x of (won, z) \<Rightarrow> (if won then st else op_result z, z)) else (st, ?x)) = (status, y)"
    by (rule prod.exhaust)
  have agree: "if op_completed y then status = op_result y else 0 \<le> status"
  proof (cases "op_completed ?x")
    case False
    then have "try_complete st ?x = (True, ?x\<lparr>op_result := st\<rparr>)" by (simp add: try_complete_def op_completed_def)
    with sy False show ?thesis by (cases "st < 0") (auto simp: op_completed_def)
  qed (use sy in auto)
  have q: "(if ch_queue c \<noteq> [] \<and> hd (ch_queue c) = r then tl (ch_queue c) else remove1 r (ch_queue c)) = remove1 r (ch_queue c)"
    by (cases "ch_queue c") auto
  let ?bs = "if status \<ge> VI_SUCCESS then rq_response (req r c) else []"
  let ?q = "(req r c)\<lparr>rq_operation := y, rq_attached := False, rq_done := True, rq_active := False,
              rq_completion := rq_completion (req r c) @ [(status, ?bs)]\<rparr>"
  define c' where "c' = finish_request r st ?x c"
  have c': "ch_requests c' = (ch_requests c)[r := ?q]" "ch_queue c' = remove1 r (ch_queue c)" "ch_maximum c' = ch_maximum c"
    "ch_closed c' = ch_closed c" "ch_open c' = ch_open c"
    unfolding c'_def finish_request_def sy prod.case Let_def q by simp_all
  have okr: "request_ok (ch_maximum c) (req r c)" by (rule chan_invD(4) [OF inv r])
  then have "request_ok (ch_maximum c) ?q" using nd agree by (auto simp: request_ok_def outcome_ok_def)
  then show "chan_inv {} (finish_request r st ?x c)" using inv r unfolding c'_def [symmetric]
    by (auto simp: chan_inv_def c' nth_list_update hd_remove1)
  show "chan_le c (finish_request r st ?x c)" "rq_done (req r (finish_request r st ?x c))"
    unfolding c'_def [symmetric] using nd r set_remove1_subset [of r "ch_queue c"] by (auto simp: chan_le_def c' nth_list_update)
qed

definition call_ok :: "chan_call \<Rightarrow> channel \<Rightarrow> bool" where
  "call_ok k c \<longleftrightarrow>
     (case k of
        Start_next \<Rightarrow> chan_inv {} c
      | Finish r st \<Rightarrow> r < length (ch_requests c) \<and> chan_inv {r} c
      | Begin_response r \<Rightarrow> r < length (ch_requests c) \<and> chan_inv {} c)"

definition call_rank :: "chan_call \<Rightarrow> nat" where
  "call_rank k = (case k of Start_next \<Rightarrow> 2 | Finish r st \<Rightarrow> 0 | Begin_response r \<Rightarrow> 1)"

definition call_returns :: "chan_call \<Rightarrow> channel \<Rightarrow> bool" where
  "call_returns k c \<longleftrightarrow>
     (\<exists>c'. channel_run k c = Some c' \<and> chan_inv {} c' \<and> chan_le c c' \<and> (\<forall>r st. k = Finish r st \<longrightarrow> rq_done (req r c')))"

lemma call_returns_le:
  assumes "call_returns k c1" and "chan_le c c1" and "channel_run k' c = channel_run k c1" and "\<forall>r st. k' \<noteq> Finish r st"
  shows "call_returns k' c"
  using assms unfolding call_returns_def by (auto intro: chan_le_trans)

lemma channel_run_Finish:
  assumes IH: "\<And>c1. undone c1 < undone c \<Longrightarrow> chan_inv {} c1 \<Longrightarrow> call_returns Start_next c1"
    and r: "r < length (ch_requests c)" and inv: "chan_inv {r} c"
  shows "call_returns (Finish r st) c"
proof (cases "rq_done (req r c)")
  case True
  then have "chan_inv {} c" using inv unfolding chan_inv_def request_ok_def by auto
  with True show ?thesis unfolding call_returns_def by (auto simp: channel_run.simps)
next
  case False
  note f = finish_request_ok [OF inv r False, of st]
  let ?c1 = "finish_request r st (rq_operation (req r c)) c"
  have run: "channel_run (Finish r st) c = (if ch_closed ?c1 then Some ?c1 else channel_run Start_next ?c1)"
    using False chan_invD(5) [OF inv r] by (subst channel_run.simps) (simp add: Let_def)
  show ?thesis
  proof (cases "ch_closed ?c1")
    case True
    with f run show ?thesis by (auto simp: call_returns_def)
  next
    case False': False
    from IH [OF undone_less [OF f(2) r False f(3)] f(1)] obtain c' where
      c': "channel_run Start_next ?c1 = Some c'" "chan_inv {} c'" "chan_le ?c1 c'" by (auto simp: call_returns_def)
    have "rq_done (req r c')" using c'(3) f(2,3) r by (auto simp: chan_le_def)
    with c' f(2) run False' show ?thesis by (auto simp: call_returns_def intro: chan_le_trans)
  qed
qed

lemma channel_run_Begin:
  assumes IH: "\<And>st. call_returns (Finish r st) c" and r: "r < length (ch_requests c)" and inv: "chan_inv {} c"
  shows "call_returns (Begin_response r) c"
proof (cases "rq_done (req r c)")
  case True
  with inv show ?thesis unfolding call_returns_def by (auto simp: channel_run.simps)
next
  case False
  then have d: "deref r c = Some (rq_operation (req r c))" "rq_attached (req r c)"
    using chan_invD(4,5) [OF inv r] by (auto simp: request_ok_def)
  let ?x = "rq_operation (req r c)"
  show ?thesis
  proof (cases "op_completed ?x \<or> rq_framing (req r c) = Framing_none")
    case True
    then have "channel_run (Begin_response r) c = channel_run (Finish r (if op_completed ?x then op_result ?x else VI_SUCCESS)) c"
      using False d by (subst channel_run.simps) auto
    from call_returns_le [OF IH _ this] show ?thesis by simp
  next
    case False': False
    then have "channel_run (Begin_response r) c \<in> {Some (read_rpc_marker r c), Some (read_hislip_header r c)}"
      using False d by (subst channel_run.simps) (auto split: response_framing.split)
    with inv show ?thesis by (auto simp: call_returns_def read_rpc_marker_def read_hislip_header_def)
  qed
qed

lemma activate_ok:
  assumes inv: "chan_inv {} c" and q: "ch_queue c = r # rest" and c1: "c1 = arm_timer r x (upd r (\<lambda>q. q\<lparr>rq_active := True\<rparr>) c)"
  shows "chan_inv {} c1" and "chan_le c c1" and "undone c1 = undone c"
proof -
  have r: "r < length (ch_requests c)" "\<not> rq_done (req r c)" using chan_invD(2,3) [OF inv, of r] q by auto
  have ok: "request_ok (ch_maximum c) ((req r c)\<lparr>rq_active := True\<rparr>)"
    using chan_invD(4) [OF inv r(1)] r(2) by (simp add: request_ok_def)
  have u: "chan_inv {} (upd r (\<lambda>q. q\<lparr>rq_active := True\<rparr>) c)"
    by (rule chan_inv_upd [OF inv r(1) ok]) (use q in simp_all)
  show "chan_inv {} c1" by (rule chan_inv_cong [OF _ _ _ u]) (simp_all add: c1)
  show "chan_le c c1" "undone c1 = undone c" using r
    by (auto simp: c1 chan_le_def undone_def nth_list_update intro!: arg_cong [where f = card])
qed

text \<open>A request at the front whose operation is completed is finished before the next one starts.\<close>

lemma channel_run_skip:
  assumes fin: "call_returns (Finish r (op_result (rq_operation (req r c)))) (c\<lparr>ch_queue := rest\<rparr>)"
    and start: "\<And>c1. undone c1 < undone c \<Longrightarrow> chan_inv {} c1 \<Longrightarrow> call_returns Start_next c1"
    and inv: "chan_inv {} c" and q: "ch_queue c = r # rest" and cp: "op_completed (rq_operation (req r c))"
  shows "call_returns Start_next c"
proof -
  let ?x = "rq_operation (req r c)" and ?p = "c\<lparr>ch_queue := rest\<rparr>"
  have r: "r < length (ch_requests c)" "\<not> rq_done (req r c)" using chan_invD(2,3) [OF inv, of r] q by auto
  have d: "deref r c = Some ?x" using chan_invD(5) [OF inv r(1)] r(2) by simp
  have p: "undone ?p = undone c" "chan_le c ?p" using q by (auto simp: undone_def chan_le_def)
  from fin obtain c1 where
    c1: "channel_run (Finish r (op_result ?x)) ?p = Some c1" "chan_inv {} c1" "chan_le ?p c1" "rq_done (req r c1)"
    by (auto simp: call_returns_def)
  have "undone c1 < undone c" using undone_less [OF c1(3) _ _ c1(4)] r p(1) by simp
  from start [OF this c1(2)] have "call_returns Start_next c1" .
  moreover have "channel_run Start_next c = channel_run Start_next c1"
    using q r d cp c1(1) by (subst channel_run.simps) simp
  ultimately show ?thesis using call_returns_le chan_le_trans [OF p(2) c1(3)] by auto
qed

lemma channel_run_Start:
  assumes fin: "\<And>r st c1. undone c1 = undone c \<Longrightarrow> r < length (ch_requests c1) \<Longrightarrow> chan_inv {r} c1 \<Longrightarrow> call_returns (Finish r st) c1"
    and start: "\<And>c1. undone c1 < undone c \<Longrightarrow> chan_inv {} c1 \<Longrightarrow> call_returns Start_next c1"
    and beg: "\<And>r c1. undone c1 = undone c \<Longrightarrow> r < length (ch_requests c1) \<Longrightarrow> chan_inv {} c1 \<Longrightarrow> call_returns (Begin_response r) c1"
    and inv: "chan_inv {} c"
  shows "call_returns Start_next c"
proof (cases "ch_queue c")
  case Nil
  with inv show ?thesis by (auto simp: call_returns_def channel_run.simps)
next
  case (Cons r rest)
  then have r: "r < length (ch_requests c)" "\<not> rq_done (req r c)" using chan_invD(2,3) [OF inv, of r] by auto
  let ?x = "rq_operation (req r c)"
  have d: "deref r c = Some ?x" using chan_invD(5) [OF inv r(1)] r(2) by simp
  let ?c1 = "arm_timer r ?x (upd r (\<lambda>q. q\<lparr>rq_active := True\<rparr>) c)"
  note a = activate_ok [OF inv Cons refl, of ?x]
  consider "op_completed ?x" | "\<not> op_completed ?x" "rq_request (req r c) = []" | "\<not> op_completed ?x" "rq_request (req r c) \<noteq> []" by blast
  then show ?thesis
  proof cases
    case 1
    have "chan_inv {r} (c\<lparr>ch_queue := rest\<rparr>)" using inv Cons by (auto simp: chan_inv_def)
    with r have "call_returns (Finish r (op_result ?x)) (c\<lparr>ch_queue := rest\<rparr>)" by (intro fin) (simp_all add: undone_def)
    from channel_run_skip [OF this start inv Cons 1] show ?thesis .
  next
    case 2
    then have "channel_run Start_next c = channel_run (Begin_response r) ?c1"
      using Cons r d by (subst channel_run.simps) (simp add: Let_def)
    with beg [OF a(3) _ a(1), of r] r(1) a(2) show ?thesis by (auto intro: call_returns_le)
  next
    case 3
    then have "channel_run Start_next c = Some (emit (Io_write r (rq_request (req r c))) ?c1)"
      using Cons r d by (subst channel_run.simps) (simp add: Let_def)
    with a show ?thesis unfolding call_returns_def by simp
  qed
qed

lemma channel_run_returns: "call_ok k c \<Longrightarrow> call_returns k c"
proof (induction "3 * undone c + call_rank k" arbitrary: k c rule: less_induct)
  case less
  have IH: "call_returns k1 c1" if "3 * undone c1 + call_rank k1 < 3 * undone c + call_rank k" "call_ok k1 c1" for k1 c1
    using less.hyps that by blast
  show ?case
  proof (cases k)
    case (Finish r st)
    show ?thesis unfolding Finish
      by (rule channel_run_Finish) (use less.prems IH Finish in \<open>auto simp: call_ok_def call_rank_def\<close>)
  next
    case (Begin_response r)
    with less.prems have c: "r < length (ch_requests c)" "chan_inv {} c" by (simp_all add: call_ok_def)
    show ?thesis unfolding Begin_response
      by (rule channel_run_Begin [OF IH c]) (use c Begin_response chan_inv_mono in \<open>auto simp: call_rank_def call_ok_def\<close>)
  next
    case Start_next
    show ?thesis unfolding Start_next
      by (rule channel_run_Start) (use less.prems IH Start_next in \<open>auto simp: call_ok_def call_rank_def\<close>)
  qed
qed

lemma handlers_return:
  assumes "chan_inv {} c"
  shows "\<exists>c'. start_next c = Some c' \<and> chan_inv {} c' \<and> chan_le c c'"
    and "r < length (ch_requests c) \<Longrightarrow> \<exists>c'. chan_finish r st c = Some c' \<and> chan_inv {} c' \<and> chan_le c c' \<and> rq_done (req r c')"
    and "r < length (ch_requests c) \<Longrightarrow> \<exists>c'. begin_response r c = Some c' \<and> chan_inv {} c' \<and> chan_le c c'"
  using channel_run_returns [of Start_next c] channel_run_returns [of "Finish r st" c] channel_run_returns [of "Begin_response r" c]
    assms chan_inv_mono [OF assms, of "{r}"]
  by (auto simp: call_ok_def call_returns_def)

section \<open>Runs\<close>

text \<open>The events of a channel: calls of \<open>exchange\<close>, \<open>connect\<close> and \<open>close\<close>, completions of what was started, and operations
  completed by other threads.\<close>

datatype chan_event =
    Exchange op "byte list" response_framing
  | Enqueue nat
  | Write_done nat "asio_error option"
  | Marker_read nat "asio_error + byte list"
  | Fragment_read nat bool "asio_error + byte list"
  | Header_read nat "asio_error + byte list"
  | Payload_read nat "asio_error + byte list"
  | Cancel nat
  | Timer nat
  | Drain_timer nat
  | Close
  | Complete nat vi_status
  | Connect_done "asio_error + string" connect_state
  | Connect_timer connect_state
  | Set_observer

definition complete_operation :: "nat \<Rightarrow> vi_status \<Rightarrow> channel \<Rightarrow> channel" where
  "complete_operation r st c =
     (if rq_attached (req r c) then upd r (\<lambda>q. q\<lparr>rq_operation := snd (try_complete st (rq_operation q))\<rparr>) c else c)"

definition chan_exec :: "chan_event \<Rightarrow> channel \<Rightarrow> channel option" where
  "chan_exec e c =
     (case e of
        Exchange x bytes framing \<Rightarrow> Some (exchange_begin x bytes framing c)
      | Enqueue r \<Rightarrow> enqueue r c
      | Write_done r err \<Rightarrow> write_done r err c
      | Marker_read r res \<Rightarrow> marker_read r res c
      | Fragment_read r final res \<Rightarrow> fragment_read r final res c
      | Header_read r res \<Rightarrow> header_read r res c
      | Payload_read r res \<Rightarrow> payload_read r res c
      | Cancel r \<Rightarrow> chan_cancel r c
      | Timer r \<Rightarrow> timer_fired r c
      | Drain_timer r \<Rightarrow> drain_timer_fired r c
      | Close \<Rightarrow> chan_close c
      | Complete r st \<Rightarrow> Some (complete_operation r st c)
      | Connect_done res n \<Rightarrow> Some (snd (connect_done res n c))
      | Connect_timer n \<Rightarrow> Some (snd (connect_timer_fired n c))
      | Set_observer \<Rightarrow> Some (set_cancel_observer c))"

text \<open>What asio and the callers guarantee: a request exists and is enqueued once, reads deliver the number of bytes asked for
  and belong to the framing of the request.\<close>

definition event_ok :: "chan_event \<Rightarrow> channel \<Rightarrow> bool" where
  "event_ok e c \<longleftrightarrow>
     (case e of
        Enqueue r \<Rightarrow> r < length (ch_requests c) \<and> \<not> rq_enqueued (req r c)
      | Write_done r err \<Rightarrow> r < length (ch_requests c)
      | Marker_read r res \<Rightarrow> r < length (ch_requests c) \<and> rq_framing (req r c) = Rpc_record
      | Fragment_read r final res \<Rightarrow> r < length (ch_requests c) \<and> rq_framing (req r c) = Rpc_record \<and>
          (case res of Inl err \<Rightarrow> True | Inr bytes \<Rightarrow> length bytes = length (rq_fragment (req r c)))
      | Header_read r res \<Rightarrow> r < length (ch_requests c) \<and> rq_framing (req r c) = Hislip_frame \<and>
          (case res of Inl err \<Rightarrow> True | Inr bytes \<Rightarrow> length bytes = 16)
      | Payload_read r res \<Rightarrow> r < length (ch_requests c) \<and> rq_framing (req r c) = Hislip_frame \<and>
          (case res of Inl err \<Rightarrow> True | Inr bytes \<Rightarrow> length bytes = length (rq_fragment (req r c)))
      | Cancel r \<Rightarrow> r < length (ch_requests c)
      | Timer r \<Rightarrow> r < length (ch_requests c)
      | Drain_timer r \<Rightarrow> r < length (ch_requests c)
      | Complete r st \<Rightarrow> r < length (ch_requests c)
      | _ \<Rightarrow> True)"

definition chan_good :: "channel \<Rightarrow> bool" where
  "chan_good c \<longleftrightarrow> chan_inv {} c \<and> (ch_closed c \<longrightarrow> ch_queue c = [])"

text \<open>A handler returns with a good channel in which the outcome of finished requests is untouched.\<close>

definition chan_later :: "channel \<Rightarrow> channel \<Rightarrow> bool" where
  "chan_later c c' \<longleftrightarrow>
     length (ch_requests c) \<le> length (ch_requests c') \<and> (ch_closed c \<longrightarrow> ch_closed c') \<and> ch_maximum c' = ch_maximum c \<and>
     (\<forall>r < length (ch_requests c). rq_done (req r c) \<longrightarrow>
        rq_done (req r c') \<and> rq_completion (req r c') = rq_completion (req r c) \<and> rq_operation (req r c') = rq_operation (req r c))"

definition steps_well :: "channel \<Rightarrow> channel option \<Rightarrow> bool" where
  "steps_well c res \<longleftrightarrow> (\<exists>c'. res = Some c' \<and> chan_good c' \<and> chan_later c c')"

lemma steps_well_Some: "chan_good c' \<Longrightarrow> chan_later c c' \<Longrightarrow> steps_well c (Some c')"
  by (simp add: steps_well_def)

lemma chan_later_refl [simp, intro]: "chan_later c c"
  by (simp add: chan_later_def)

lemma steps_well_same: "chan_good c \<Longrightarrow> steps_well c (Some c)"
  by (simp add: steps_well_Some)

lemma chan_later_trans: "chan_later c1 c2 \<Longrightarrow> chan_later c2 c3 \<Longrightarrow> chan_later c1 c3"
  by (auto simp: chan_later_def)

lemma chan_le_later: "chan_le c c' \<Longrightarrow> chan_later c c'"
  by (auto simp: chan_le_def chan_later_def)

lemma steps_well_later: "chan_later c c1 \<Longrightarrow> steps_well c1 res \<Longrightarrow> steps_well c res"
  by (auto simp: steps_well_def intro: chan_later_trans)

lemma good_le: "chan_good c \<Longrightarrow> chan_inv {} c' \<Longrightarrow> chan_le c c' \<Longrightarrow> chan_good c'"
  by (auto simp: chan_good_def chan_le_def)

lemma calls_step_well:
  assumes "chan_good c"
  shows "steps_well c (start_next c)" and "r < length (ch_requests c) \<Longrightarrow> steps_well c (chan_finish r st c)"
    and "r < length (ch_requests c) \<Longrightarrow> steps_well c (begin_response r c)"
proof -
  have inv: "chan_inv {} c" using assms by (simp add: chan_good_def)
  show "steps_well c (start_next c)" using handlers_return(1) [OF inv] assms
    by (auto simp: steps_well_def intro: good_le chan_le_later)
  show "r < length (ch_requests c) \<Longrightarrow> steps_well c (chan_finish r st c)" using handlers_return(2) [OF inv, of r st] assms
    by (auto simp: steps_well_def intro: good_le chan_le_later)
  show "r < length (ch_requests c) \<Longrightarrow> steps_well c (begin_response r c)" using handlers_return(3) [OF inv, of r] assms
    by (auto simp: steps_well_def intro: good_le chan_le_later)
qed

lemma good_deref: "chan_good c \<Longrightarrow> r < length (ch_requests c) \<Longrightarrow> \<not> rq_done (req r c) \<Longrightarrow> deref r c = Some (rq_operation (req r c))"
  using chan_invD(5) [of "{}" c r] by (simp add: chan_good_def)

text \<open>A change of a request that keeps its place in the queue.\<close>

lemma good_upd:
  assumes "chan_good c" and "r < length (ch_requests c)" and "request_ok (ch_maximum c) (f (req r c))"
    and "rq_done (f (req r c)) = rq_done (req r c)" and "rq_enqueued (f (req r c)) = rq_enqueued (req r c)"
    and "rq_active (f (req r c)) = rq_active (req r c)"
    and "rq_done (req r c) \<Longrightarrow> rq_completion (f (req r c)) = rq_completion (req r c) \<and> rq_operation (f (req r c)) = rq_operation (req r c)"
  shows "chan_good (upd r f c)" and "chan_later c (upd r f c)"
  using assms chan_inv_upd [of "{}" c r "f (req r c)" f] by (auto simp: chan_good_def chan_later_def nth_list_update)

lemma chan_inv_flags [simp]:
  "chan_inv X (c\<lparr>ch_open := b\<rparr>) = chan_inv X c" "chan_inv X (c\<lparr>ch_closed := b\<rparr>) = chan_inv X c"
  "chan_inv X (c\<lparr>ch_observer := b\<rparr>) = chan_inv X c"
  by (simp_all add: chan_inv_def)

lemma chan_later_flags [simp]:
  "chan_later c (c'\<lparr>ch_open := b\<rparr>) = chan_later c c'" "chan_later c (c'\<lparr>ch_observer := b\<rparr>) = chan_later c c'"
  "chan_later c (c\<lparr>ch_closed := True\<rparr>)"
  by (simp_all add: chan_later_def)

lemma chan_good_flags [simp]: "chan_good (c\<lparr>ch_open := b\<rparr>) = chan_good c" "chan_good (c\<lparr>ch_observer := b\<rparr>) = chan_good c"
  by (simp_all add: chan_good_def)

lemma good_emit [simp]: "chan_good (emit a c) = chan_good c" "chan_later c (emit a c') = chan_later c c'"
  by (simp_all add: chan_good_def chan_later_def)

text \<open>Handlers that change data of a request and then finish it, start a read, or end.\<close>

lemma data_then:
  assumes good: "chan_good c" and r: "r < length (ch_requests c)"
    and f: "f (req r c) = (req r c)\<lparr>rq_response := rs, rq_fragment := fs\<rparr>"
    and le: "length rs + length fs \<le> frame_bound (rq_framing (req r c)) (ch_maximum c)"
  shows "steps_well c (chan_finish r st (upd r f c))" and "steps_well c (Some (emit a (upd r f c)))"
proof -
  have "request_ok (ch_maximum c) (req r c)" using good chan_invD(4) [OF _ r] by (auto simp: chan_good_def)
  then have ok: "request_ok (ch_maximum c) (f (req r c))" using le unfolding f request_ok_def by simp
  have u: "chan_good (upd r f c)" "chan_later c (upd r f c)" by (rule good_upd [where f = f, OF good r ok]; simp add: f)+
  show "steps_well c (chan_finish r st (upd r f c))"
    using steps_well_later [OF u(2) calls_step_well(2) [OF u(1)]] r by simp
  show "steps_well c (Some (emit a (upd r f c)))" using u by (auto intro: steps_well_Some)
qed

lemma finish_error_well:
  assumes "chan_good c" and "r < length (ch_requests c)"
  shows "steps_well c (finish_error r e c)"
  using calls_step_well(2) [OF assms] good_deref [OF assms] assms(1)
  by (auto simp: finish_error_def intro: steps_well_Some)

lemma enqueue_well:
  assumes good: "chan_good c" and r: "r < length (ch_requests c)" and ne: "\<not> rq_enqueued (req r c)"
  shows "steps_well c (enqueue r c)"
proof (cases "rq_done (req r c) \<or> ch_closed c \<or> \<not> ch_open c \<or> op_completed (rq_operation (req r c))")
  case True
  have "enqueue r c = Some c \<or> (\<exists>st. enqueue r c = chan_finish r st c)"
    using True good_deref [OF good r] by (cases "rq_done (req r c)"; cases "ch_closed c \<or> \<not> ch_open c") (auto simp: enqueue_def)
  then show ?thesis using calls_step_well(2) [OF good r] steps_well_same [OF good] by (elim disjE exE) simp_all
next
  case False
  let ?c1 = "(upd r (\<lambda>q. q\<lparr>rq_enqueued := True\<rparr>) c)\<lparr>ch_queue := ch_queue c @ [r]\<rparr>"
  have inv: "chan_inv {} c" using good by (simp add: chan_good_def)
  have nq: "r \<notin> set (ch_queue c)" using chan_inv_place(1) [OF inv] ne by blast
  have na: "\<not> rq_active (req r c)" using chan_inv_place(3) [OF inv r] nq by (metis empty_iff hd_in_set)
  have okr: "request_ok (ch_maximum c) ((req r c)\<lparr>rq_enqueued := True\<rparr>)" using chan_invD(4) [OF inv r] by (simp add: request_ok_def)
  have "chan_inv {} ?c1"
  proof (rule chan_invI)
    show "distinct (ch_queue ?c1)" using chan_invD(1) [OF inv] nq by simp
    fix r' show "r' \<in> set (ch_queue ?c1) \<Longrightarrow> r' < length (ch_requests ?c1) \<and> rq_enqueued (req r' ?c1) \<and> \<not> rq_done (req r' ?c1)"
      using chan_invD(2,3) [OF inv] chan_inv_place(1) [OF inv] r False by (auto simp: nth_list_update)
    assume r': "r' < length (ch_requests ?c1)"
    show "request_ok (ch_maximum ?c1) (req r' ?c1)" using chan_invD(4) [OF inv] okr r r' by (auto simp: nth_list_update)
    show "rq_enqueued (req r' ?c1) \<Longrightarrow> \<not> rq_done (req r' ?c1) \<Longrightarrow> r' \<in> set (ch_queue ?c1) \<or> r' \<in> {}"
      using chan_inv_place(2) [OF inv] r r' by (auto simp: nth_list_update split: if_splits)
    show "rq_active (req r' ?c1) \<Longrightarrow> ch_queue ?c1 \<noteq> [] \<and> hd (ch_queue ?c1) = r' \<or> r' \<in> {}"
      using chan_inv_place(3) [OF inv, of r'] na r r' by (auto simp: nth_list_update hd_append split: if_splits)
  qed
  with False have c1: "chan_good ?c1" "chan_later c ?c1" using r by (auto simp: chan_good_def chan_later_def nth_list_update)
  have "enqueue r c = (if length (ch_queue ?c1) = 1 then start_next ?c1 else Some ?c1)"
    using False good_deref [OF good r] by (simp add: enqueue_def Let_def)
  with c1 steps_well_later [OF c1(2) calls_step_well(1) [OF c1(1)]] show ?thesis by (auto intro: steps_well_Some)
qed

lemma reads_well:
  assumes good: "chan_good c" and r: "r < length (ch_requests c)"
  shows "rq_framing (req r c) = Rpc_record \<Longrightarrow> steps_well c (marker_read r res c)"
    and "rq_framing (req r c) = Rpc_record \<Longrightarrow> (case res of Inl err \<Rightarrow> True | Inr bs \<Rightarrow> length bs = length (rq_fragment (req r c))) \<Longrightarrow>
      steps_well c (fragment_read r final res c)"
    and "rq_framing (req r c) = Hislip_frame \<Longrightarrow> (case res of Inl err \<Rightarrow> True | Inr bs \<Rightarrow> length bs = 16) \<Longrightarrow> steps_well c (header_read r res c)"
    and "rq_framing (req r c) = Hislip_frame \<Longrightarrow> (case res of Inl err \<Rightarrow> True | Inr bs \<Rightarrow> length bs = length (rq_fragment (req r c))) \<Longrightarrow>
      steps_well c (payload_read r res c)"
proof -
  have le: "length (rq_response (req r c)) + length (rq_fragment (req r c)) \<le> frame_bound (rq_framing (req r c)) (ch_maximum c)"
    using good chan_invD(4) [OF _ r] by (auto simp: chan_good_def request_ok_def)
  note base = finish_error_well [OF good r] calls_step_well(2) [OF good r]
  note data = data_then [OF good r, where rs = "rq_response (req r c) @ bs" and fs = "[]" for bs]
  show "steps_well c (marker_read r res c)" if "rq_framing (req r c) = Rpc_record"
    using that r data_then [OF good r, where rs = "rq_response (req r c)"]
    by (auto simp: marker_read_def read_rpc_fragment_def read_rpc_marker_def Let_def frame_bound_def base split: sum.split)
  show "steps_well c (fragment_read r final res c)"
    if "case res of Inl err \<Rightarrow> True | Inr bs \<Rightarrow> length bs = length (rq_fragment (req r c))"
    using that le data by (auto simp: fragment_read_def read_rpc_marker_def Let_def base split: sum.splits)
  show "steps_well c (header_read r res c)" if "rq_framing (req r c) = Hislip_frame" "case res of Inl err \<Rightarrow> True | Inr bs \<Rightarrow> length bs = 16"
    using that r data_then [OF good r]
    by (auto simp: header_read_def read_hislip_payload_def Let_def frame_bound_def base split: sum.splits)
  show "steps_well c (payload_read r res c)"
    if "case res of Inl err \<Rightarrow> True | Inr bs \<Rightarrow> length bs = length (rq_fragment (req r c))"
    using that le data by (auto simp: payload_read_def Let_def base split: sum.splits)
qed

lemma finish_closed:
  assumes "chan_inv {} c" and "ch_closed c" and "r < length (ch_requests c)" and "\<not> rq_done (req r c)"
  shows "chan_finish r st c = Some (finish_request r st (rq_operation (req r c)) c)"
proof -
  have "ch_closed (finish_request r st (rq_operation (req r c)) c)"
    using finish_request_ok(2) [OF chan_inv_mono [OF assms(1)] assms(3,4)] assms(2) by (auto simp: chan_le_def)
  with assms chan_invD(5) [OF assms(1,3)] show ?thesis by (subst channel_run.simps) (simp add: Let_def)
qed

lemma close_pending_well:
  "chan_inv {} c \<Longrightarrow> ch_closed c \<Longrightarrow> ch_queue c = rs \<Longrightarrow>
   \<exists>c'. close_pending rs c = Some c' \<and> chan_inv {} c' \<and> chan_le c c' \<and> ch_queue c' = []"
proof (induction rs arbitrary: c)
  case (Cons r rs)
  then have r: "r < length (ch_requests c)" "\<not> rq_done (req r c)" using chan_invD(2,3) [OF Cons.prems(1), of r] by auto
  let ?x = "rq_operation (req r c)"
  define st where "st = (if op_completed ?x then op_result ?x else VI_ERROR_CONN_LOST)"
  let ?c1 = "finish_request r st ?x c"
  note f = finish_request_ok [OF chan_inv_mono [OF Cons.prems(1)] r, of st]
  have q: "ch_queue ?c1 = rs" using Cons.prems(3) by (simp add: finish_request_def Let_def split: prod.split)
  have cl: "ch_closed ?c1" using f(2) Cons.prems(2) by (auto simp: chan_le_def)
  from Cons.IH [OF f(1) cl q] obtain c' where c': "close_pending rs ?c1 = Some c'" "chan_inv {} c'" "chan_le ?c1 c'" "ch_queue c' = []" by auto
  have "close_pending (r # rs) c = Some c'"
    using chan_invD(5) [OF Cons.prems(1) r(1)] r(2) finish_closed [OF Cons.prems(1,2) r, of st] c'(1) by (simp add: st_def)
  with c' f(2) show ?case by (auto intro: chan_le_trans)
qed auto

lemma close_well:
  assumes "chan_good c"
  shows "\<exists>c'. chan_close c = Some c' \<and> chan_good c' \<and> chan_later c c' \<and> ch_closed c' \<and> ch_queue c' = []"
proof (cases "ch_closed c")
  case True
  with assms show ?thesis by (simp add: chan_close_def chan_good_def)
next
  case False
  let ?c1 = "emit Io_socket_close (c\<lparr>ch_closed := True, ch_open := False\<rparr>)"
  have "chan_inv {} ?c1" using assms by (simp add: chan_good_def)
  from close_pending_well [OF this _ refl] obtain c' where
    c': "close_pending (ch_queue c) ?c1 = Some c'" "chan_inv {} c'" "chan_le ?c1 c'" "ch_queue c' = []" by auto
  have "ch_closed c'" using c'(3) by (simp add: chan_le_def)
  moreover have "chan_later c c'" by (rule chan_later_trans [OF _ chan_le_later [OF c'(3)]]) simp
  ultimately show ?thesis using False c' by (simp add: chan_close_def chan_good_def)
qed

lemma cancel_well:
  assumes "chan_good c" and "r < length (ch_requests c)"
  shows "steps_well c (chan_cancel r c)"
  using calls_step_well(2) [OF assms] good_deref [OF assms] assms(1)
  by (auto simp: chan_cancel_def Let_def steps_well_Some)

lemma operation_changes_well:
  assumes "chan_good c" and "r < length (ch_requests c)"
  shows "steps_well c (Some (complete_operation r st c))" and "steps_well c (timer_fired r c)"
proof -
  have ok: "request_ok (ch_maximum c) (req r c)" using assms(1) chan_invD(4) [OF _ assms(2)] by (auto simp: chan_good_def)
  have u: "steps_well c (Some (upd r (\<lambda>q. q\<lparr>rq_operation := g (rq_operation q)\<rparr>) c))" if "\<not> rq_done (req r c)" for g
  proof -
    have "request_ok (ch_maximum c) ((req r c)\<lparr>rq_operation := g (rq_operation (req r c))\<rparr>)" using ok that by (simp add: request_ok_def)
    with good_upd [OF assms, of "\<lambda>q. q\<lparr>rq_operation := g (rq_operation q)\<rparr>"] that show ?thesis by (simp add: steps_well_Some)
  qed
  show "steps_well c (Some (complete_operation r st c))" "steps_well c (timer_fired r c)"
    using u [of "\<lambda>x. snd (try_complete st x)"] u [of "\<lambda>x. snd (snd (request_timeout x))"] ok assms(1)
    by (auto simp: complete_operation_def timer_fired_def request_ok_def steps_well_Some)
qed

lemma connect_well:
  assumes "chan_good c"
  shows "steps_well c (Some (snd (connect_finish st address n c)))"
  using assms by (simp add: connect_finish_def steps_well_Some)

lemma exchange_well:
  assumes "chan_good c"
  shows "steps_well c (Some (exchange_begin x bytes framing c))"
proof -
  let ?n = "\<lparr>rq_operation = x, rq_attached = True, rq_request = bytes, rq_framing = framing, rq_fragment = [], rq_response = [],
         rq_completion = [], rq_enqueued = False, rq_active = False, rq_done = False\<rparr>"
  let ?c = "exchange_begin x bytes framing c"
  have c: "ch_requests ?c = ch_requests c @ [?n]" "ch_queue ?c = ch_queue c" "ch_closed ?c = ch_closed c" "ch_maximum ?c = ch_maximum c"
    by (simp_all add: exchange_begin_def)
  have "request_ok m ?n" for m by (simp add: request_ok_def)
  moreover have inv: "chan_inv {} c" using assms by (simp add: chan_good_def)
  ultimately have "chan_inv {} ?c"
    using chan_invD(1-4) [OF inv] chan_inv_place [OF inv] by (intro chan_invI) (auto simp: c nth_append less_Suc_eq)
  moreover have "chan_later c ?c" unfolding chan_later_def c by (auto simp: nth_append)
  ultimately show ?thesis using assms by (simp add: steps_well_def chan_good_def c)
qed

lemma chan_exec_well:
  assumes good: "chan_good c" and "event_ok e c"
  shows "steps_well c (chan_exec e c)"
proof (cases e)
  case (Drain_timer r)
  then show ?thesis using close_well [OF good] good by (auto simp: chan_exec_def drain_timer_fired_def steps_well_def)
next
  case Close
  then show ?thesis using close_well [OF good] by (auto simp: chan_exec_def steps_well_def)
next
  case Set_observer
  then show ?thesis using good by (simp add: chan_exec_def set_cancel_observer_def steps_well_Some)
qed (use assms finish_error_well [OF good] calls_step_well(3) [OF good] reads_well [OF good] enqueue_well [OF good] cancel_well [OF good]
      operation_changes_well [OF good] connect_well [OF good] exchange_well [OF good] in
    \<open>auto simp: chan_exec_def event_ok_def write_done_def connect_done_def connect_timer_fired_def split: option.split sum.split\<close>)

inductive chan_step :: "channel \<Rightarrow> channel \<Rightarrow> bool" where
  chan_stepI: "event_ok e c \<Longrightarrow> chan_exec e c = Some c' \<Longrightarrow> chan_step c c'"

inductive_cases chan_stepE: "chan_step c c'"

definition chan_reachable :: "channel \<Rightarrow> bool" where
  "chan_reachable c \<longleftrightarrow> (\<exists>maximum drain. chan_step\<^sup>*\<^sup>* (channel_new maximum drain) c)"

interpretation request_channel: transition_invariant chan_step chan_good
proof
  fix c c' assume "chan_step c c'" and "chan_good c"
  then show "chan_good c'" using chan_exec_well by (fastforce elim!: chan_stepE simp: steps_well_def)
qed

lemma reachable_good: "chan_reachable c \<Longrightarrow> chan_good c"
proof -
  assume "chan_reachable c"
  then obtain maximum drain where "chan_step\<^sup>*\<^sup>* (channel_new maximum drain) c" by (auto simp: chan_reachable_def)
  moreover have "chan_good (channel_new maximum drain)" by (simp add: channel_new_def chan_good_def chan_inv_def)
  ultimately show "chan_good c" by (rule request_channel.reach_inv)
qed

lemma steps_later: "chan_step\<^sup>*\<^sup>* c c' \<Longrightarrow> chan_good c \<Longrightarrow> chan_later c c'"
proof (induction rule: rtranclp_induct)
  case (step y z)
  have "chan_good y" by (rule request_channel.reach_inv [OF step.hyps(1) step.prems])
  with step.hyps(2) have "chan_later y z" using chan_exec_well by (fastforce elim!: chan_stepE simp: steps_well_def)
  with step.IH step.prems show ?case by (blast intro: chan_later_trans)
qed simp

fun chan_events :: "chan_event list \<Rightarrow> channel \<Rightarrow> channel option" where
  "chan_events [] c = Some c"
| "chan_events (e # es) c = Option.bind (chan_exec e c) (chan_events es)"

lemma bind_no_events [simp]: "Option.bind m (chan_events []) = m"
  by (cases m) auto

lemma chan_events_append: "chan_events (es @ fs) c = Option.bind (chan_events es c) (chan_events fs)"
proof (induction es arbitrary: c)
  case (Cons e es)
  then show ?case by (cases "chan_exec e c") simp_all
qed simp

fun legal_events :: "chan_event list \<Rightarrow> channel \<Rightarrow> bool" where
  "legal_events [] c \<longleftrightarrow> True"
| "legal_events (e # es) c \<longleftrightarrow> event_ok e c \<and> (case chan_exec e c of None \<Rightarrow> False | Some c' \<Rightarrow> legal_events es c')"

lemma events_reachable: "chan_reachable c \<Longrightarrow> legal_events es c \<Longrightarrow> chan_events es c = Some c' \<Longrightarrow> chan_reachable c'"
proof (induction es arbitrary: c)
  case (Cons e es)
  then obtain c1 where c1: "chan_exec e c = Some c1" "legal_events es c1" "chan_events es c1 = Some c'" by (auto split: option.splits)
  have "chan_step c c1" by (rule chan_stepI) (use Cons.prems(2) c1(1) in simp_all)
  with Cons.prems(1) have "chan_reachable c1" unfolding chan_reachable_def by (meson rtranclp.rtrancl_into_rtrancl)
  then show ?case by (rule Cons.IH) (use c1 in simp_all)
qed simp

section \<open>Records of RPC\<close>

text \<open>The completions of the reads of a record in fragments.\<close>

definition rpc_marker :: "byte list \<Rightarrow> bool \<Rightarrow> byte list" where
  "rpc_marker bs final = xdr_u32 [] (of_nat (length bs) OR (if final then 0x80000000 else 0))"

definition rpc_fragment_events :: "nat \<Rightarrow> byte list \<Rightarrow> bool \<Rightarrow> chan_event list" where
  "rpc_fragment_events r bs final =
     Marker_read r (Inr (rpc_marker bs final)) # (if bs = [] then [] else [Fragment_read r final (Inr bs)])"

fun rpc_record_events :: "nat \<Rightarrow> byte list list \<Rightarrow> byte list \<Rightarrow> chan_event list" where
  "rpc_record_events r [] final = rpc_fragment_events r final True"
| "rpc_record_events r (bs # bss) final = rpc_fragment_events r bs False @ rpc_record_events r bss final"

lemma rc_read_u32_put [simp]: "rc_read_u32 (xdr_u32 [] w) = w"
proof -
  have "rc_read_u32 = xdr_read_u32_at" by (rule ext) (simp add: rc_read_u32_def xdr_read_u32_at_def)
  then show ?thesis using xdr.get_put_Nil by simp
qed

lemma marker_bits:
  fixes n :: nat assumes "n < 2 ^ 31"
  shows "unat ((of_nat n OR (if final then 0x80000000 else 0) :: u32) AND 0x7FFFFFFF) = n"
    and "((of_nat n OR (if final then 0x80000000 else 0) :: u32) AND 0x80000000 \<noteq> 0) = final"
proof -
  have m: "(0x7FFFFFFF :: u32) = mask 31" by (simp add: mask_eq_exp_minus_1)
  have t: "take_bit 31 (of_nat n :: u32) = of_nat n" using assms by (simp add: take_bit_of_nat take_bit_nat_eq_self)
  have "(of_nat n OR (if final then 0x80000000 else 0) :: u32) AND 0x7FFFFFFF = of_nat n"
    unfolding m by (simp flip: take_bit_eq_mask add: take_bit_or t)
  then show "unat ((of_nat n OR (if final then 0x80000000 else 0) :: u32) AND 0x7FFFFFFF) = n"
    using assms by (simp add: unat_of_nat take_bit_nat_eq_self)
  have "(0x80000000 :: u32) = NOT 0x7FFFFFFF" by simp
  then have "(of_nat n :: u32) AND 0x80000000 = (of_nat n AND mask 31) AND NOT (mask 31)"
    using t unfolding m by (simp add: take_bit_eq_mask)
  then have "(of_nat n :: u32) AND 0x80000000 = 0" by (simp add: and.assoc)
  then show "((of_nat n OR (if final then 0x80000000 else 0) :: u32) AND 0x80000000 \<noteq> 0) = final"
    by (simp add: bit.conj_disj_distrib2)
qed

text \<open>Finishing a request whose operation is pending delivers the status and the response.\<close>

lemma chan_finish_success:
  assumes good: "chan_good c" and r: "r < length (ch_requests c)" and nd: "\<not> rq_done (req r c)" and p: "\<not> op_completed (rq_operation (req r c))"
  shows "\<exists>c'. chan_finish r VI_SUCCESS c = Some c' \<and> rq_completion (req r c') = [(VI_SUCCESS, rq_response (req r c))]"
proof -
  let ?x = "rq_operation (req r c)"
  let ?c1 = "finish_request r VI_SUCCESS ?x c"
  have inv: "chan_inv {} c" using good by (simp add: chan_good_def)
  note f = finish_request_ok [OF chan_inv_mono [OF inv, of "{r}"] r nd, of VI_SUCCESS]
  have "rq_completion (req r c) = []" using chan_invD(4) [OF inv r] nd by (simp add: request_ok_def)
  then have k: "rq_completion (req r ?c1) = [(VI_SUCCESS, rq_response (req r c))]" using p r by (simp add: finish_request_def)
  have run: "chan_finish r VI_SUCCESS c = (if ch_closed ?c1 then Some ?c1 else start_next ?c1)"
    using nd chan_invD(5) [OF inv r] by (subst channel_run.simps) (simp add: Let_def)
  obtain c' where c': "start_next ?c1 = Some c'" "chan_le ?c1 c'" using handlers_return(1) [OF f(1)] by auto
  have "r < length (ch_requests ?c1)" using f(2) r by (simp add: chan_le_def)
  with c'(2) f(3) have "req r c' = req r ?c1" by (simp add: chan_le_def)
  with c' k run show ?thesis by (cases "ch_closed ?c1") auto
qed

text \<open>One fragment: the response grows by it; the last one finishes the request.\<close>

lemma rpc_fragment_run:
  assumes good: "chan_good c" and r: "r < length (ch_requests c)" and nd: "\<not> rq_done (req r c)" and p: "\<not> op_completed (rq_operation (req r c))"
    and fr: "rq_framing (req r c) = Rpc_record" and le: "length (rq_response (req r c)) + length bs \<le> ch_maximum c" and lim: "length bs < 2 ^ 31"
  shows "\<exists>c'. chan_events (rpc_fragment_events r bs final) c = Some c' \<and>
    (if final then rq_completion (req r c') = [(VI_SUCCESS, rq_response (req r c) @ bs)]
     else chan_good c' \<and> length (ch_requests c') = length (ch_requests c) \<and> ch_maximum c' = ch_maximum c \<and>
       \<not> rq_done (req r c') \<and> rq_operation (req r c') = rq_operation (req r c) \<and> rq_framing (req r c') = Rpc_record \<and>
       rq_response (req r c') = rq_response (req r c) @ bs)"
proof -
  let ?f = "\<lambda>q. q\<lparr>rq_fragment := replicate (length bs) 0\<rparr>" and ?g = "\<lambda>q. q\<lparr>rq_response := rq_response q @ bs, rq_fragment := []\<rparr>"
  have ok: "request_ok (ch_maximum c) (req r c)" using good chan_invD(4) [OF _ r] by (auto simp: chan_good_def)
  have f: "chan_good (upd r ?f c)"
    by (rule good_upd(1) [OF good r]) (use ok fr le in \<open>auto simp: request_ok_def frame_bound_def\<close>)
  let ?c1 = "emit (Io_read r (length bs)) (upd r ?f c)"
  have g: "chan_good (upd r ?g ?c1)"
    by (rule good_upd(1)) (use f ok fr le r in \<open>auto simp: request_ok_def frame_bound_def nth_list_update\<close>)
  note m = marker_bits [OF lim, of final]
  have mr: "marker_read r (Inr (rpc_marker bs final)) c = read_rpc_fragment r final (upd r ?f c)"
    using m le by (auto simp: marker_read_def rpc_marker_def Let_def)
  show ?thesis
  proof (cases "bs = []")
    case True
    then have e: "chan_events (rpc_fragment_events r bs final) c =
        (if final then chan_finish r VI_SUCCESS (upd r ?f c) else Some (read_rpc_marker r (upd r ?f c)))"
      using mr r by (simp add: rpc_fragment_events_def chan_exec_def read_rpc_fragment_def split: option.split)
    from chan_finish_success [OF f, of r] True r nd p fr f show ?thesis unfolding e by (cases final) (auto simp: read_rpc_marker_def)
  next
    case False
    then have e: "chan_events (rpc_fragment_events r bs final) c =
        (if final then chan_finish r VI_SUCCESS (upd r ?g ?c1) else Some (read_rpc_marker r (upd r ?g ?c1)))"
      using mr r by (simp add: rpc_fragment_events_def chan_exec_def read_rpc_fragment_def fragment_read_def Let_def split: option.split)
    from chan_finish_success [OF g, of r] r nd p fr g show ?thesis unfolding e by (cases final) (auto simp: read_rpc_marker_def)
  qed
qed

lemma rpc_record_run:
  assumes "chan_good c" and "r < length (ch_requests c)" and "\<not> rq_done (req r c)" and "\<not> op_completed (rq_operation (req r c))"
    and "rq_framing (req r c) = Rpc_record" and "length (rq_response (req r c) @ concat bss @ bs) \<le> ch_maximum c"
    and "\<And>b. b \<in> set (bs # bss) \<Longrightarrow> length b < 2 ^ 31"
  shows "\<exists>c'. chan_events (rpc_record_events r bss bs) c = Some c' \<and>
    rq_completion (req r c') = [(VI_SUCCESS, rq_response (req r c) @ concat bss @ bs)]"
  using assms
proof (induction bss arbitrary: c)
  case Nil
  then show ?case using rpc_fragment_run [of c r bs True] by auto
next
  case (Cons b bss)
  from rpc_fragment_run [OF Cons.prems(1-5), of b False] Cons.prems(6,7) obtain c1 where
    c1: "chan_events (rpc_fragment_events r b False) c = Some c1" "chan_good c1" "length (ch_requests c1) = length (ch_requests c)"
      "ch_maximum c1 = ch_maximum c" "\<not> rq_done (req r c1)" "rq_operation (req r c1) = rq_operation (req r c)"
      "rq_framing (req r c1) = Rpc_record" "rq_response (req r c1) = rq_response (req r c) @ b" by auto
  have "\<exists>c'. chan_events (rpc_record_events r bss bs) c1 = Some c' \<and>
      rq_completion (req r c') = [(VI_SUCCESS, rq_response (req r c1) @ concat bss @ bs)]"
    by (rule Cons.IH) (use Cons.prems c1 in auto)
  with c1(1,8) show ?case by (simp add: chan_events_append)
qed

section \<open>Properties\<close>

text \<open>C25. Whatever the callers, the timers and the network do, and in whatever order, every handler of a request channel returns and none
  uses an operation that its caller has got back: no handler runs into a null pointer, and the functions that start and finish
  requests through each other always come to an end.\<close>

theorem channel_handlers_always_return:
  assumes "chan_reachable c" and "event_ok e c"
  shows "\<exists>c'. chan_exec e c = Some c' \<and> chan_reachable c'"
proof -
  from chan_exec_well [OF reachable_good [OF assms(1)] assms(2)] obtain c' where c': "chan_exec e c = Some c'"
    by (auto simp: steps_well_def)
  with assms(2) have "chan_step c c'" by (rule chan_stepI)
  with assms(1) have "chan_reachable c'" unfolding chan_reachable_def by (meson rtranclp.rtrancl_into_rtrancl)
  with c' show ?thesis by blast
qed

text \<open>A channel with a connected socket and two requests on their way.\<close>

definition connect_fresh :: connect_state where
  "connect_fresh = \<lparr>cn_done = False, cn_completion = []\<rparr>"

definition endless :: op where
  "endless = operation_new 0 VI_TMO_INFINITE"

definition busy_channel :: channel where
  "busy_channel = the (chan_events [Connect_done (Inr []) connect_fresh, Exchange endless [1] Rpc_record, Enqueue 0,
     Exchange endless [2] Rpc_record, Enqueue 1] (channel_new 64 False))"

lemmas channel_eval =
  chan_exec_def connect_done_def connect_finish_def connect_fresh_def exchange_begin_def enqueue_def channel_new_def emit_def upd_def
  deref_def channel_run.simps arm_timer_def endless_def operation_new_def op_completed_def

lemma busy_channel_eq:
  "busy_channel = \<lparr>ch_requests =
     [\<lparr>rq_operation = endless, rq_attached = True, rq_request = [1], rq_framing = Rpc_record, rq_fragment = [], rq_response = [],
       rq_completion = [], rq_enqueued = True, rq_active = True, rq_done = False\<rparr>,
      \<lparr>rq_operation = endless, rq_attached = True, rq_request = [2], rq_framing = Rpc_record, rq_fragment = [], rq_response = [],
       rq_completion = [], rq_enqueued = True, rq_active = False, rq_done = False\<rparr>],
     ch_queue = [0, 1], ch_closed = False, ch_open = True, ch_maximum = 64, ch_drain = False, ch_observer = False, ch_io = [Io_write 0 [1]]\<rparr>"
  by (simp add: busy_channel_def channel_eval)

lemma busy_channel_reachable: "chan_reachable busy_channel"
proof (rule events_reachable)
  show "chan_reachable (channel_new 64 False)" by (auto simp: chan_reachable_def)
  show "legal_events [Connect_done (Inr []) connect_fresh, Exchange endless [1] Rpc_record, Enqueue 0,
     Exchange endless [2] Rpc_record, Enqueue 1] (channel_new 64 False)"
    by (simp add: channel_eval event_ok_def)
  show "chan_events [Connect_done (Inr []) connect_fresh, Exchange endless [1] Rpc_record, Enqueue 0,
     Exchange endless [2] Rpc_record, Enqueue 1] (channel_new 64 False) = Some busy_channel"
    by (simp add: busy_channel_def channel_eval)
qed

theorem channel_handlers_always_return_witness:
  "\<exists>c'. chan_exec (Marker_read 0 (Inr [128, 0, 0, 2])) busy_channel = Some c' \<and> chan_reachable c'"
  by (rule channel_handlers_always_return [OF busy_channel_reachable]) (simp add: event_ok_def busy_channel_eq)

text \<open>C24. Every exchange is answered at most once, and its answer never changes: the promise of a request has a value exactly if the
  caller has its operation back; the status is the result of the operation if it was completed and a success otherwise,
  a failure carries no data, and no response is larger than the limit of the channel (and the header of a HiSLIP frame).\<close>

theorem exchange_answered_once:
  assumes "chan_reachable c" and "chan_step\<^sup>*\<^sup>* c c'" and "r < length (ch_requests c)"
  shows "(rq_attached (req r c) \<longleftrightarrow> rq_completion (req r c) = []) \<and>
    (rq_completion (req r c) \<noteq> [] \<longrightarrow>
      rq_completion (req r c') = rq_completion (req r c) \<and> rq_operation (req r c') = rq_operation (req r c) \<and>
      (\<exists>st bs. rq_completion (req r c) = [(st, bs)] \<and>
        (if op_completed (rq_operation (req r c)) then st = op_result (rq_operation (req r c)) else 0 \<le> st) \<and>
        (st < 0 \<longrightarrow> bs = []) \<and> length bs \<le> frame_bound (rq_framing (req r c)) (ch_maximum c)))"
proof -
  note good = reachable_good [OF assms(1)]
  then have "request_ok (ch_maximum c) (req r c)" using chan_invD(4) [OF _ assms(3)] by (auto simp: chan_good_def)
  moreover have "chan_later c c'" by (rule steps_later [OF assms(2) good])
  ultimately show ?thesis using assms(3)
    by (cases "rq_done (req r c)") (auto simp: request_ok_def outcome_ok_def chan_later_def)
qed

theorem exchange_answered_once_witness:
  "(rq_attached (req 0 busy_channel) \<longleftrightarrow> rq_completion (req 0 busy_channel) = []) \<and> rq_attached (req 0 busy_channel)"
  using exchange_answered_once [OF busy_channel_reachable rtranclp.rtrancl_refl, of 0] by (simp add: busy_channel_eq)

text \<open>C28. At any time at most one request of a channel is in progress, and it is the one that has waited longest.\<close>

theorem active_request_is_oldest:
  assumes "chan_reachable c" and "r < length (ch_requests c)" and "rq_active (req r c)"
  shows "ch_queue c \<noteq> [] \<and> hd (ch_queue c) = r \<and> \<not> rq_done (req r c)"
proof -
  have inv: "chan_inv {} c" using reachable_good [OF assms(1)] by (simp add: chan_good_def)
  show ?thesis using chan_inv_place(3) [OF inv assms(2,3)] chan_invD(4) [OF inv assms(2)] assms(3) by (auto simp: request_ok_def)
qed

theorem active_request_is_oldest_witness:
  "ch_queue busy_channel \<noteq> [] \<and> hd (ch_queue busy_channel) = 0 \<and> \<not> rq_done (req 0 busy_channel)"
  by (rule active_request_is_oldest [OF busy_channel_reachable]) (simp_all add: busy_channel_eq)

text \<open>Enqueueing on a closed channel answers at once.\<close>

lemma enqueue_closed:
  assumes "chan_inv {} c" and "ch_closed c" and "r < length (ch_requests c)" and "\<not> rq_done (req r c)"
  shows "\<exists>c' bs. enqueue r c = Some c' \<and> rq_done (req r c') \<and>
     rq_completion (req r c') =
       [(if op_completed (rq_operation (req r c)) then op_result (rq_operation (req r c)) else VI_ERROR_CONN_LOST, bs)]"
proof -
  have d: "deref r c = Some (rq_operation (req r c))" using chan_invD(5) [OF assms(1,3)] assms(4) by simp
  have q: "rq_completion (req r c) = []" using chan_invD(4) [OF assms(1,3)] assms(4) by (simp add: request_ok_def)
  have "enqueue r c = Some (finish_request r VI_ERROR_CONN_LOST (rq_operation (req r c)) c)"
    using assms(2,4) d by (simp add: enqueue_def channel_run.simps [of "Finish _ _"] finish_request_def Let_def split: prod.split)
  then show ?thesis
    using assms(3) q by (auto simp: finish_request_def Let_def try_complete_def op_completed_def split: prod.split)
qed

text \<open>C26. Closing a channel answers every request, and from then on none ever waits: in every later state of the channel a
  request that was enqueued at any time has its answer, and \<open>enqueue\<close> of any other request returns and has answered it at
  once, with the result of its operation if that is completed and \<open>VI_ERROR_CONN_LOST\<close> otherwise.\<close>

theorem close_answers_all_requests:
  assumes "chan_reachable c" and "chan_exec Close c = Some c1" and "chan_step\<^sup>*\<^sup>* c1 c2" and "r < length (ch_requests c2)"
  shows "(rq_enqueued (req r c2) \<longrightarrow> rq_done (req r c2) \<and> rq_completion (req r c2) \<noteq> []) \<and>
    (\<exists>c3. chan_exec (Enqueue r) c2 = Some c3 \<and> rq_done (req r c3) \<and>
      (\<exists>st bs. rq_completion (req r c3) = [(st, bs)] \<and>
        (\<not> rq_done (req r c2) \<longrightarrow>
          st = (if op_completed (rq_operation (req r c2)) then op_result (rq_operation (req r c2)) else VI_ERROR_CONN_LOST))))"
proof -
  have c1: "chan_good c1" "ch_closed c1" using close_well [OF reachable_good [OF assms(1)]] assms(2) by (auto simp: chan_exec_def)
  have good: "chan_good c2" by (rule request_channel.reach_inv [OF assms(3) c1(1)])
  have closed: "ch_closed c2" using steps_later [OF assms(3) c1(1)] c1(2) by (simp add: chan_later_def)
  with good have inv: "chan_inv {} c2" "ch_queue c2 = []" by (simp_all add: chan_good_def)
  note ok = chan_invD(4) [OF inv(1) assms(4)]
  have e: "rq_enqueued (req r c2) \<longrightarrow> rq_done (req r c2) \<and> rq_completion (req r c2) \<noteq> []"
    using chan_inv_place(2) [OF inv(1) assms(4)] ok inv(2) by (auto simp: request_ok_def outcome_ok_def)
  show ?thesis
  proof (cases "rq_done (req r c2)")
    case True
    then have "chan_exec (Enqueue r) c2 = Some c2" by (simp add: chan_exec_def enqueue_def)
    with True e ok show ?thesis by (auto simp: request_ok_def outcome_ok_def)
  next
    case False
    from enqueue_closed [OF inv(1) closed assms(4) this] obtain c3 bs where "enqueue r c2 = Some c3" "rq_done (req r c3)"
      "rq_completion (req r c3) =
        [(if op_completed (rq_operation (req r c2)) then op_result (rq_operation (req r c2)) else VI_ERROR_CONN_LOST, bs)]" by blast
    with e show ?thesis by (simp add: chan_exec_def)
  qed
qed

theorem close_answers_all_requests_witness:
  "\<exists>c1 c3. chan_exec Close busy_channel = Some c1 \<and> rq_completion (req 1 c1) \<noteq> [] \<and> chan_exec (Enqueue 1) c1 = Some c3 \<and> rq_done (req 1 c3)"
proof -
  obtain c1 where c1: "chan_exec Close busy_channel = Some c1" "1 < length (ch_requests c1)" "rq_enqueued (req 1 c1)"
    by (simp add: busy_channel_eq chan_exec_def chan_close_def channel_eval finish_request_def try_complete_def)
  from close_answers_all_requests [OF busy_channel_reachable c1(1) rtranclp.rtrancl_refl c1(2)] c1 show ?thesis by blast
qed

text \<open>C27. A record that arrives in fragments is put together: when the reads of a pending RPC request that has no data yet
  deliver, one after the other with no other event on the channel in between, any number of fragments of fewer than \<open>2^31\<close>
  bytes each, the last one marked, and their total length does not exceed the limit of the channel, then the exchange succeeds
  with exactly their concatenation.\<close>

theorem rpc_record_reassembled:
  assumes "chan_reachable c" and "r < length (ch_requests c)" and "rq_attached (req r c)" and "\<not> op_completed (rq_operation (req r c))"
    and "rq_framing (req r c) = Rpc_record" and "rq_response (req r c) = []" and "length (concat bss @ bs) \<le> ch_maximum c"
    and "\<And>b. b \<in> set (bs # bss) \<Longrightarrow> length b < 2 ^ 31"
  shows "\<exists>c'. chan_events (rpc_record_events r bss bs) c = Some c' \<and> rq_completion (req r c') = [(VI_SUCCESS, concat bss @ bs)]"
proof -
  note good = reachable_good [OF assms(1)]
  then have "\<not> rq_done (req r c)" using chan_invD(4) [OF _ assms(2)] assms(3) by (auto simp: chan_good_def request_ok_def)
  from rpc_record_run [OF good assms(2) this assms(4,5)] assms(6-8) show ?thesis by simp
qed

theorem rpc_record_reassembled_witness:
  "\<exists>c'. chan_events (rpc_record_events 0 [[1, 2], []] [3]) busy_channel = Some c' \<and> rq_completion (req 0 c') = [(VI_SUCCESS, [1, 2, 3])]"
proof -
  have "\<exists>c'. chan_events (rpc_record_events 0 [[1, 2], []] [3]) busy_channel = Some c' \<and>
      rq_completion (req 0 c') = [(VI_SUCCESS, concat [[1, 2], []] @ [3])]"
    by (rule rpc_record_reassembled [OF busy_channel_reachable])
       (auto simp: busy_channel_eq endless_def operation_new_def op_completed_def)
  then show ?thesis by simp
qed

text \<open>C31. Cancelling a request that still waits starts the request in progress a second time: \<open>cancel\<close> finishes the waiting request, \<open>finish\<close>
  calls \<open>start_next\<close>, and that does not look whether the request at the front is already active. Here the bytes of the first
  request are written twice.\<close>

theorem cancelled_waiting_request_restarts_active_one:
  "\<exists>c. chan_events [Complete 1 VI_ERROR_ABORT, Cancel 1] busy_channel = Some c \<and>
     filter (\<lambda>a. \<exists>r bs. a = Io_write r bs) (ch_io c) = [Io_write 0 [1], Io_write 0 [1]]"
  by (simp add: busy_channel_eq chan_cancel_def complete_operation_def channel_eval finish_request_def try_complete_def)

end
