(* ===== verification/Channel_Session.thy ===== *)
theory Channel_Session
  imports Device_Session Request_Channel Session
begin

text \<open>
  What the sessions over request channels (HiSLIP and VXI-11) share. The network is a record of the operations of
  \<open>RequestChannel\<close> on channels that are named by numbers, over a state of any type: the peers, the clock and the other
  threads. The sessions rely on one law of it, that an exchange does not undo a completion; the model of the request channel
  obeys it.
\<close>

section \<open>The network\<close>

text \<open>\<open>nw_exchange\<close> ends with the status and the response, or with \<open>None\<close> when the active request of a channel that drains
  is cancelled: then the observer of the channel runs, and \<open>nw_drain\<close> is the rest of the exchange. \<open>nw_waits\<close> are the
  attempts to take the I/O mutex that fail, with a completion by another thread and the time after each; \<open>nw_race\<close> is a
  completion by another thread before the session claims the operation.\<close>

record 'w network =
  nw_new :: "'w \<Rightarrow> nat \<Rightarrow> bool \<Rightarrow> nat \<times> 'w"
  nw_connect :: "'w \<Rightarrow> nat \<Rightarrow> string \<Rightarrow> u16 \<Rightarrow> u32 \<Rightarrow> vi_status \<times> string \<times> 'w"
  nw_exchange :: "'w \<Rightarrow> nat \<Rightarrow> op \<Rightarrow> byte list \<Rightarrow> response_framing \<Rightarrow> (vi_status \<times> byte list) option \<times> op \<times> 'w"
  nw_drain :: "'w \<Rightarrow> nat \<Rightarrow> op \<Rightarrow> byte list \<Rightarrow> response_framing \<Rightarrow> vi_status \<times> byte list \<times> op \<times> 'w"
  nw_close :: "'w \<Rightarrow> nat \<Rightarrow> 'w"
  nw_now :: "'w \<Rightarrow> nat"
  nw_waits :: "'w \<Rightarrow> (vi_status option \<times> nat) list"
  nw_race :: "'w \<Rightarrow> vi_status option"

section \<open>Helpers of both sessions\<close>

definition remaining_timeout :: "nat \<Rightarrow> op \<Rightarrow> u32" where
  "remaining_timeout now x =
     (case op_deadline x of
        None \<Rightarrow> VI_TMO_INFINITE
      | Some deadline \<Rightarrow>
          if deadline \<le> now then 0
          else let count = deadline - now in
            if count \<ge> 0xFFFFFFFF then 0xFFFFFFFE else of_nat (max count 1))"

definition valid_flush_mask :: "u16 \<Rightarrow> bool" where
  "valid_flush_mask m \<longleftrightarrow>
     m \<noteq> 0 \<and> m AND NOT (VI_READ_BUF OR VI_WRITE_BUF OR VI_READ_BUF_DISCARD OR VI_WRITE_BUF_DISCARD OR
       VI_IO_IN_BUF OR VI_IO_OUT_BUF OR VI_IO_IN_BUF_DISCARD OR VI_IO_OUT_BUF_DISCARD) = 0"

definition io_ready :: "nat \<Rightarrow> op \<Rightarrow> bool \<times> op" where
  "io_ready now x =
     (if op_completed x then (False, x)
      else case op_deadline x of
        None \<Rightarrow> (True, x)
      | Some deadline \<Rightarrow> if deadline \<le> now then (False, snd (snd (request_timeout x))) else (True, x))"

fun acquire_io :: "(vi_status option \<times> nat) list \<Rightarrow> nat \<Rightarrow> op \<Rightarrow> bool \<times> op" where
  "acquire_io [] now x = io_ready now x"
| "acquire_io ((race, later) # ws) now x =
     (case io_ready now x of (ready, y) \<Rightarrow> if ready then acquire_io ws later (claimed race y) else (False, y))"

text \<open>The beginning of \<open>read\<close>: bytes of the read-ahead up to the count or the first termination character.\<close>

fun take_ahead :: "read_options \<Rightarrow> nat \<Rightarrow> byte list \<Rightarrow> byte list \<Rightarrow> byte list \<times> bool \<times> byte list" where
  "take_ahead options count data [] = (data, False, [])"
| "take_ahead options count data (b # ahead) =
     (if length data < count then
        if ro_termchar_enabled options \<and> b = ro_termchar options then (data @ [b], True, ahead)
        else take_ahead options count (data @ [b]) ahead
      else (data, False, b # ahead))"

definition read_status :: "bool \<Rightarrow> byte list \<Rightarrow> u32 \<Rightarrow> vi_status" where
  "read_status termchar data count =
     (if termchar then VI_SUCCESS_TERM_CHAR else if length data = unat count then VI_SUCCESS_MAX_CNT else VI_SUCCESS)"

section \<open>Loops over the device\<close>

text \<open>A loop whose passes depend on what the device answers: a pass leaves the loop or gives the next state. A loop that never
  ends is \<open>None\<close>.\<close>

partial_function (option) run_loop :: "('s \<Rightarrow> 'r + 's) \<Rightarrow> 's \<Rightarrow> 'r option" where
  "run_loop pass s = (case pass s of Inl r \<Rightarrow> Some r | Inr s' \<Rightarrow> run_loop pass s')"

lemma run_loop_leave: "pass s = Inl r \<Longrightarrow> run_loop pass s = Some r"
  by (subst run_loop.simps) simp

lemma run_loop_go: "pass s = Inr s' \<Longrightarrow> run_loop pass s = run_loop pass s'"
  by (subst run_loop.simps) simp

lemma run_loop_rule [consumes 1, case_names leave go]:
  assumes "run_loop pass s = Some r" and "\<And>s r. pass s = Inl r \<Longrightarrow> P s r"
    and "\<And>s s' r. pass s = Inr s' \<Longrightarrow> P s' r \<Longrightarrow> P s r"
  shows "P s r"
proof -
  define Q where "Q = (\<lambda>pass s r. (\<forall>s r. pass s = Inl r \<longrightarrow> P s r) \<longrightarrow> (\<forall>s s' r. pass s = Inr s' \<longrightarrow> P s' r \<longrightarrow> P s r) \<longrightarrow> P s r)"
  have "Q pass s r"
    by (rule run_loop.raw_induct [of Q, OF _ assms(1)]) (auto simp: Q_def split: sum.splits)
  with assms(2,3) show ?thesis by (auto simp: Q_def)
qed

lemma run_loop_returns:
  assumes "I s" and "\<And>s s'. I s \<Longrightarrow> pass s = Inr s' \<Longrightarrow> I s' \<and> m s' < (m s :: nat)"
  shows "\<exists>r. run_loop pass s = Some r"
  using assms(1)
proof (induction "m s" arbitrary: s rule: less_induct)
  case less
  show ?case
  proof (cases "pass s")
    case (Inr s')
    with assms(2) [OF less.prems Inr] less.hyps show ?thesis by (simp add: run_loop_go)
  qed (auto simp: run_loop_leave)
qed

section \<open>The contract of a network\<close>

locale channel_network =
  fixes nw :: "'w network"
  assumes exchange_advances: "nw_exchange nw w ch x bs fr = (res, y, w') \<Longrightarrow> op_advances x y"
    and drain_advances: "nw_drain nw w ch x bs fr = (st, bs', y, w') \<Longrightarrow> op_advances x y"

lemma op_advances_timeout [simp]: "op_advances x (snd (snd (request_timeout x)))"
  by (simp add: op_advances_def operation_defs Let_def)

lemma io_ready_cases:
  assumes "io_ready now x = (ready, y)"
  shows "op_advances x y" and "ready = (\<not> op_completed y)" and "ready \<Longrightarrow> y = x" and "op_completed x \<Longrightarrow> \<not> ready \<and> y = x"
  using assms by (auto simp: io_ready_def op_advances_def operation_defs split: if_splits option.splits)

lemma acquire_io_cases:
  assumes "acquire_io ws now x = (ok, y)"
  shows "op_advances x y" and "ok = (\<not> op_completed y)" and "op_completed x \<Longrightarrow> y = x"
proof -
  have "op_advances x y \<and> ok = (\<not> op_completed y) \<and> (op_completed x \<longrightarrow> y = x)" using assms
  proof (induction ws now x arbitrary: ok y rule: acquire_io.induct)
    case (1 now x)
    then have r: "io_ready now x = (ok, y)" by simp
    show ?case using io_ready_cases [OF r] by blast
  next
    case (2 race later ws now x)
    obtain ready z where z: "io_ready now x = (ready, z)" by fastforce
    note c = io_ready_cases [OF z]
    show ?case
    proof (cases ready)
      case True
      have "acquire_io ws later (claimed race z) = (ok, y)" using "2.prems" z True by simp
      from "2.IH" [OF z [symmetric] True this] have a: "op_advances (claimed race z) y" "ok = (\<not> op_completed y)" by auto
      have "op_advances x y" using op_advances_trans [OF claimed_advances a(1)] c(3) [OF True] by simp
      with a(2) c(4) True show ?thesis by blast
    next
      case False
      then have y: "\<not> ok" "y = z" using "2.prems" z by auto
      show ?thesis unfolding y(2) using c(1,2,4) y(1) False by blast
    qed
  qed
  then show "op_advances x y" and "ok = (\<not> op_completed y)" and "op_completed x \<Longrightarrow> y = x" by auto
qed

lemma take_ahead_split:
  assumes "take_ahead options count data ahead = (data', found, ahead')"
  shows "data' @ ahead' = data @ ahead" and "length data \<le> count \<Longrightarrow> length data' \<le> count"
    and "found \<Longrightarrow> ro_termchar_enabled options \<and> data' \<noteq> [] \<and> last data' = ro_termchar options"
    and "length data' < count \<Longrightarrow> \<not> found \<Longrightarrow> ahead' = []"
  using assms by (induction options count data ahead rule: take_ahead.induct) (auto split: if_splits)

lemma unat_of_nat_le: "k \<le> unat (n :: u32) \<Longrightarrow> unat (of_nat k :: u32) = k"
  by (metis le_unat_uoi)

end
