(* ===== verification/Vxi11_Session.thy ===== *)
theory Vxi11_Session
  imports Channel_Session
begin

text \<open>
  The VXI-11 session (\<open>src/backends/vxi11/vxi11_session.{h,cpp}\<close>): remote procedure calls over a core channel, with an
  abort channel that is used when a call is cancelled. The network is a parameter. The loops of \<open>read\<close> and \<open>write\<close> depend on
  what the device answers and are partial functions; that \<open>write\<close> returns is proved.
\<close>

section \<open>State\<close>

definition kMaximumRpcPayload :: nat where
  "kMaximumRpcPayload = 16 * 1024 * 1024"

definition kPortmapperProgram :: u32 where [simp]: "kPortmapperProgram = 100000"
definition kPortmapperVersion :: u32 where [simp]: "kPortmapperVersion = 2"
definition kPortmapperGetPort :: u32 where [simp]: "kPortmapperGetPort = 3"
definition kTcpProtocol :: u32 where [simp]: "kTcpProtocol = 6"
definition kDeviceCoreProgram :: u32 where [simp]: "kDeviceCoreProgram = 0x0607AF"
definition kDeviceAsyncProgram :: u32 where [simp]: "kDeviceAsyncProgram = 0x0607B0"
definition kProgramVersion :: u32 where [simp]: "kProgramVersion = 1"
definition kCreateLink :: u32 where [simp]: "kCreateLink = 10"
definition kDeviceWrite :: u32 where [simp]: "kDeviceWrite = 11"
definition kDeviceRead :: u32 where [simp]: "kDeviceRead = 12"
definition kDeviceReadStb :: u32 where [simp]: "kDeviceReadStb = 13"
definition kDeviceTrigger :: u32 where [simp]: "kDeviceTrigger = 14"
definition kDeviceClear :: u32 where [simp]: "kDeviceClear = 15"
definition kDeviceLock :: u32 where [simp]: "kDeviceLock = 18"
definition kDeviceUnlock :: u32 where [simp]: "kDeviceUnlock = 19"
definition kDestroyLink :: u32 where [simp]: "kDestroyLink = 23"
definition kDeviceAbort :: u32 where [simp]: "kDeviceAbort = 1"
definition kFlagWaitLock :: u32 where [simp]: "kFlagWaitLock = 1"
definition kFlagEnd :: u32 where [simp]: "kFlagEnd = 8"
definition kFlagTermCharSet :: u32 where [simp]: "kFlagTermCharSet = 128"
definition kReasonTermChar :: u32 where [simp]: "kReasonTermChar = 2"
definition kReasonEnd :: u32 where [simp]: "kReasonEnd = 4"

definition map_device_error :: "u32 \<Rightarrow> vi_status" where
  "map_device_error error =
     (if error = 0 then VI_SUCCESS
      else if error = 3 \<or> error = 4 \<or> error = 6 then VI_ERROR_CONN_LOST
      else if error = 5 \<or> error = 21 then VI_ERROR_INV_PARAMETER
      else if error = 8 then VI_ERROR_NSUP_OPER
      else if error = 9 then VI_ERROR_ALLOC
      else if error = 11 then VI_ERROR_RSRC_LOCKED
      else if error = 12 then VI_ERROR_SESN_NLOCKED
      else if error = 15 then VI_ERROR_TMO
      else if error = 17 then VI_ERROR_IO
      else if error = 23 then VI_ERROR_ABORT
      else if error = 29 then VI_ERROR_RSRC_BUSY
      else VI_ERROR_IO)"

text \<open>\<open>vx_observer\<close> says that the core channel has its cancel observer.\<close>

record 'w vxi_session =
  vx_net :: 'w
  vx_host :: string
  vx_address :: string
  vx_device :: string
  vx_portmapper_port :: u16
  vx_core_port :: u16
  vx_abort_port :: u16
  vx_link_id :: u32
  vx_maximum_receive_size :: u32
  vx_next_xid :: u32
  vx_abort_requested :: bool
  vx_core :: nat
  vx_abort :: nat
  vx_observer :: bool
  vx_read_ahead :: "byte list"
  vx_closed :: bool

definition vxi_session_new :: "'w network \<Rightarrow> 'w \<Rightarrow> string \<Rightarrow> string \<Rightarrow> u16 \<Rightarrow> 'w vxi_session" where
  "vxi_session_new nw w host device portmapper_port =
     (let (core, w1) = nw_new nw w kMaximumRpcPayload True; (abort, w2) = nw_new nw w1 kMaximumRpcPayload False in
      \<lparr>vx_net = w2, vx_host = host, vx_address = [], vx_device = device, vx_portmapper_port = portmapper_port, vx_core_port = 0,
       vx_abort_port = 0, vx_link_id = 0, vx_maximum_receive_size = 1024 * 1024, vx_next_xid = 1, vx_abort_requested = False,
       vx_core = core, vx_abort = abort, vx_observer = False, vx_read_ahead = [], vx_closed = False\<rparr>)"

abbreviation vx_remaining :: "'w network \<Rightarrow> op \<Rightarrow> 'w vxi_session \<Rightarrow> u32" where
  "vx_remaining nw x s \<equiv> remaining_timeout (nw_now nw (vx_net s)) x"

abbreviation vx_claimed :: "'w network \<Rightarrow> op \<Rightarrow> 'w vxi_session \<Rightarrow> op" where
  "vx_claimed nw x s \<equiv> claimed (nw_race nw (vx_net s)) x"

section \<open>Calls\<close>

definition next_xid :: "'w vxi_session \<Rightarrow> u32 \<times> 'w vxi_session" where
  "next_xid s = (vx_next_xid s, s\<lparr>vx_next_xid := vx_next_xid s + 1\<rparr>)"

text \<open>\<open>RequestChannel::exchange\<close>; \<open>observe\<close> is the cancel observer of the channel.\<close>

definition vxi_exchange ::
  "'w network \<Rightarrow> ('w vxi_session \<Rightarrow> 'w vxi_session) \<Rightarrow> nat \<Rightarrow> op \<Rightarrow> byte list \<Rightarrow> 'w vxi_session \<Rightarrow>
   vi_status \<times> byte list \<times> op \<times> 'w vxi_session" where
  "vxi_exchange nw observe ch x request s =
     (case nw_exchange nw (vx_net s) ch x request Rpc_record of
        (res, y, w) \<Rightarrow>
          (case res of
             Some (status, response) \<Rightarrow> (status, response, y, s\<lparr>vx_net := w\<rparr>)
           | None \<Rightarrow>
               let s1 = observe (s\<lparr>vx_net := w\<rparr>) in
               (case nw_drain nw (vx_net s1) ch y request Rpc_record of
                  (status, response, z, w1) \<Rightarrow> (status, response, z, s1\<lparr>vx_net := w1\<rparr>))))"

definition vxi_call ::
  "'w network \<Rightarrow> ('w vxi_session \<Rightarrow> 'w vxi_session) \<Rightarrow> nat \<Rightarrow> op \<Rightarrow> u32 \<Rightarrow> u32 \<Rightarrow> byte list \<Rightarrow> 'w vxi_session \<Rightarrow>
   vi_status \<times> byte list \<times> op \<times> 'w vxi_session" where
  "vxi_call nw observe ch x program procedure arguments s =
     (let (xid, s1) = next_xid s;
          version = (if program = kPortmapperProgram then kPortmapperVersion else kProgramVersion);
          request = make_rpc_call xid program version procedure arguments in
      if request = [] then (VI_ERROR_INV_SIZE, [], x, s1)
      else
        let (status, response, y, s2) = vxi_exchange nw observe ch x request s1 in
        if status < VI_SUCCESS then (status, [], y, s2)
        else case parse_rpc_reply response xid of
            None \<Rightarrow> (VI_ERROR_IO, [], y, s2)
          | Some payload \<Rightarrow> (VI_SUCCESS, payload, y, s2))"

definition request_abort :: "'w network \<Rightarrow> 'w vxi_session \<Rightarrow> 'w vxi_session" where
  "request_abort nw s =
     (if vx_link_id s = 0 \<or> vx_closed s then s
      else if vx_abort_requested s then s
      else
        let s1 = s\<lparr>vx_abort_requested := True\<rparr>; x = operation_new (nw_now nw (vx_net s)) 250 in
        snd (snd (snd (vxi_call nw (\<lambda>s. s) (vx_abort s1) x kDeviceAsyncProgram kDeviceAbort (xdr_u32 [] (vx_link_id s1)) s1))))"

definition core_call ::
  "'w network \<Rightarrow> op \<Rightarrow> u32 \<Rightarrow> byte list \<Rightarrow> 'w vxi_session \<Rightarrow> vi_status \<times> byte list \<times> op \<times> 'w vxi_session" where
  "core_call nw x procedure arguments s =
     vxi_call nw (\<lambda>s. if vx_observer s then request_abort nw s else s) (vx_core s) x kDeviceCoreProgram procedure arguments s"

section \<open>Opening and closing\<close>

definition open_link :: "'w network \<Rightarrow> op \<Rightarrow> byte list \<Rightarrow> 'w vxi_session \<Rightarrow> vi_status \<times> 'w vxi_session" where
  "open_link nw x result s =
     (case xdr_read_u32 result of None \<Rightarrow> (VI_ERROR_IO, s) | Some (error, r1) \<Rightarrow>
      case xdr_read_u32 r1 of None \<Rightarrow> (VI_ERROR_IO, s) | Some (link_id, r2) \<Rightarrow>
      let s1 = s\<lparr>vx_link_id := link_id\<rparr> in
      case xdr_read_u32 r2 of None \<Rightarrow> (VI_ERROR_IO, s1) | Some (abort_port, r3) \<Rightarrow>
      if abort_port > 0xFFFF then (VI_ERROR_IO, s1) else
      case xdr_read_u32 r3 of None \<Rightarrow> (VI_ERROR_IO, s1) | Some (maximum_receive, r4) \<Rightarrow>
      let s2 = s1\<lparr>vx_abort_port := ucast abort_port\<rparr>; status = map_device_error error in
      if status < VI_SUCCESS then (status, s2)
      else
        let s3 = (if maximum_receive \<noteq> 0 then s2\<lparr>vx_maximum_receive_size := min maximum_receive (of_nat kMaximumRpcPayload)\<rparr> else s2) in
        if vx_abort_port s3 = 0 then (VI_ERROR_IO, s3)
        else
          let (status, _, w) = nw_connect nw (vx_net s3) (vx_abort s3) (vx_host s3) (vx_abort_port s3) (vx_remaining nw x s3);
              s4 = s3\<lparr>vx_net := w\<rparr> in
          if status < VI_SUCCESS then (status, s4) else (VI_SUCCESS, s4\<lparr>vx_observer := True\<rparr>))"

definition open_core :: "'w network \<Rightarrow> op \<Rightarrow> byte list \<Rightarrow> 'w vxi_session \<Rightarrow> vi_status \<times> 'w vxi_session" where
  "open_core nw x result s =
     (case xdr_read_u32 result of None \<Rightarrow> (VI_ERROR_RSRC_NFOUND, s) | Some (core_port, _) \<Rightarrow>
      if core_port = 0 \<or> core_port > 0xFFFF then (VI_ERROR_RSRC_NFOUND, s)
      else
        let s1 = s\<lparr>vx_core_port := ucast core_port\<rparr>;
            (status, address, w) = nw_connect nw (vx_net s1) (vx_core s1) (vx_host s1) (vx_core_port s1) (vx_remaining nw x s1);
            s2 = s1\<lparr>vx_net := w, vx_address := address\<rparr> in
        if status < VI_SUCCESS then (status, s2)
        else
          let (xid, s3) = next_xid s2;
              arguments = xdr_string (xdr_u32 (xdr_boolean (xdr_u32 [] xid) False) (vx_remaining nw x s3)) (vx_device s3);
              (status, result1, y, s4) = core_call nw x kCreateLink arguments s3 in
          if status < VI_SUCCESS then (status, s4) else open_link nw y result1 s4)"

definition vxi_open :: "'w network \<Rightarrow> u32 \<Rightarrow> 'w vxi_session \<Rightarrow> vi_status \<times> 'w vxi_session" where
  "vxi_open nw timeout s =
     (let x = operation_new (nw_now nw (vx_net s)) timeout;
          (portmapper, w) = nw_new nw (vx_net s) (64 * 1024) False;
          s1 = s\<lparr>vx_net := w\<rparr>;
          (status, _, w1) = nw_connect nw (vx_net s1) portmapper (vx_host s1) (vx_portmapper_port s1) (vx_remaining nw x s1);
          s2 = s1\<lparr>vx_net := w1\<rparr> in
      if status < VI_SUCCESS then (status, s2\<lparr>vx_net := nw_close nw (vx_net s2) portmapper\<rparr>)
      else
        let mapping = foldl xdr_u32 [] [kDeviceCoreProgram, kProgramVersion, kTcpProtocol, 0];
            (status, result, y, s3) = vxi_call nw (\<lambda>s. s) portmapper x kPortmapperProgram kPortmapperGetPort mapping s2;
            s4 = s3\<lparr>vx_net := nw_close nw (vx_net s3) portmapper\<rparr> in
        if status < VI_SUCCESS then (status, s4) else open_core nw y result s4)"

definition vxi_close :: "'w network \<Rightarrow> 'w vxi_session \<Rightarrow> 'w vxi_session" where
  "vxi_close nw s =
     (if vx_closed s then s
      else
        let s1 = s\<lparr>vx_closed := True\<rparr>;
            s2 = (if vx_link_id s1 \<noteq> 0 then
                    snd (snd (snd (core_call nw (operation_new (nw_now nw (vx_net s1)) 250) kDestroyLink (xdr_u32 [] (vx_link_id s1)) s1)))
                  else s1);
            s3 = s2\<lparr>vx_net := nw_close nw (vx_net s2) (vx_abort s2)\<rparr> in
        s3\<lparr>vx_net := nw_close nw (vx_net s3) (vx_core s3)\<rparr>)"

definition vxi_create ::
  "'w network \<Rightarrow> 'w \<Rightarrow> string \<Rightarrow> string \<Rightarrow> u32 \<Rightarrow> u16 \<Rightarrow> vi_status \<times> 'w vxi_session option \<times> 'w" where
  "vxi_create nw w host device timeout portmapper_port =
     (let (status, s) = vxi_open nw timeout (vxi_session_new nw w host device portmapper_port) in
      if status < VI_SUCCESS then (status, None, vx_net (vxi_close nw s)) else (status, Some s, vx_net s))"

section \<open>Input and output\<close>

definition vxi_acquire_io :: "'w network \<Rightarrow> op \<Rightarrow> 'w vxi_session \<Rightarrow> bool \<times> op \<times> 'w vxi_session" where
  "vxi_acquire_io nw x s =
     (case acquire_io (nw_waits nw (vx_net s)) (nw_now nw (vx_net s)) x of
        (ok, y) \<Rightarrow> (ok, y, if ok then s\<lparr>vx_abort_requested := False\<rparr> else s))"

text \<open>One pass of the loop of \<open>write\<close>: the call, and what follows from its reply, a return or the next offset.\<close>

definition vxi_write_amount :: "byte list \<Rightarrow> nat \<Rightarrow> 'w vxi_session \<Rightarrow> nat" where
  "vxi_write_amount data offset s = min (length data - offset) (unat (vx_maximum_receive_size s))"

definition vxi_write_request ::
  "'w network \<Rightarrow> bool \<Rightarrow> byte list \<Rightarrow> nat \<Rightarrow> op \<Rightarrow> 'w vxi_session \<Rightarrow> vi_status \<times> byte list \<times> op \<times> 'w vxi_session" where
  "vxi_write_request nw send_end data offset x s =
     (let amount = vxi_write_amount data offset s;
          final = (offset + amount = length data);
          head = foldl xdr_u32 [] [vx_link_id s, vx_remaining nw x s, vx_remaining nw x s, if final \<and> send_end then kFlagEnd else 0] in
      core_call nw x kDeviceWrite (xdr_opaque head (take amount (drop offset data))) s)"

definition vxi_write_reply ::
  "'w network \<Rightarrow> nat \<Rightarrow> nat \<Rightarrow> byte list \<Rightarrow> op \<Rightarrow> 'w vxi_session \<Rightarrow>
   (vi_status \<times> op \<times> 'w vxi_session) + (nat \<times> op \<times> 'w vxi_session)" where
  "vxi_write_reply nw amount offset result y s =
     (case xdr_read_u32 result of None \<Rightarrow> Inl (VI_ERROR_IO, y, s) | Some (error, r1) \<Rightarrow>
      case xdr_read_u32 r1 of None \<Rightarrow> Inl (VI_ERROR_IO, y, s) | Some (written, r2) \<Rightarrow>
      if unat written > amount then Inl (VI_ERROR_IO, y, s)
      else
        let device = map_device_error error in
        if device < VI_SUCCESS then
          let z = snd (try_complete device (vx_claimed nw y s)) in Inl (op_result z, z, s)
        else if unat written \<noteq> amount then
          let z = snd (try_complete VI_ERROR_IO (vx_claimed nw y s)) in Inl (op_result z, z, s)
        else Inr (offset + unat written, y, s))"

definition vxi_write_step ::
  "'w network \<Rightarrow> bool \<Rightarrow> byte list \<Rightarrow> nat \<Rightarrow> op \<Rightarrow> 'w vxi_session \<Rightarrow>
   (vi_status \<times> op \<times> 'w vxi_session) + (nat \<times> op \<times> 'w vxi_session)" where
  "vxi_write_step nw send_end data offset x s =
     (let (status, result, y, s1) = vxi_write_request nw send_end data offset x s in
      if status < VI_SUCCESS then Inl (status, y, s1)
      else vxi_write_reply nw (vxi_write_amount data offset s) offset result y s1)"

definition vxi_write_pass ::
  "'w network \<Rightarrow> bool \<Rightarrow> byte list \<Rightarrow> nat \<times> op \<times> 'w vxi_session \<Rightarrow>
   ((vi_status \<times> op \<times> 'w vxi_session) + (op \<times> 'w vxi_session)) + (nat \<times> op \<times> 'w vxi_session)" where
  "vxi_write_pass nw send_end data = (\<lambda>(offset, x, s).
     if offset < length data then
       (case vxi_write_step nw send_end data offset x s of Inl r \<Rightarrow> Inl (Inl r) | Inr q \<Rightarrow> Inr q)
     else Inl (Inr (x, s)))"

definition vxi_write ::
  "'w network \<Rightarrow> 'w vxi_session \<Rightarrow> op \<Rightarrow> byte list \<Rightarrow> write_options \<Rightarrow> (vi_status \<times> u32 \<times> op \<times> 'w vxi_session) option" where
  "vxi_write nw s x data send_end =
     (case vxi_acquire_io nw x s of
        (ok, y, s1) \<Rightarrow>
          if \<not> ok then Some (op_result y, 0, y, s1)
          else map_option (\<lambda>r. case r of
              Inl (status, z, s2) \<Rightarrow> (status, 0, z, s2)
            | Inr (z, s2) \<Rightarrow>
                (case try_complete VI_SUCCESS (vx_claimed nw z s2) of
                   (won, z1) \<Rightarrow> if \<not> won then (op_result z1, 0, z1, s2) else (VI_SUCCESS, of_nat (length data), z1, s2)))
            (run_loop (vxi_write_pass nw send_end data) (0, y, s1)))"

definition vxi_restore_data :: "byte list \<Rightarrow> 'w vxi_session \<Rightarrow> 'w vxi_session" where
  "vxi_restore_data data s = s\<lparr>vx_read_ahead := data @ vx_read_ahead s\<rparr>"

text \<open>A chunk from the device: bytes beyond the count, and all behind the termination character, go to the read-ahead.\<close>

fun vxi_consume :: "read_options \<Rightarrow> nat \<Rightarrow> byte list \<Rightarrow> byte list \<Rightarrow> byte list \<Rightarrow> byte list \<times> byte list \<times> bool" where
  "vxi_consume options count data ahead [] = (data, ahead, False)"
| "vxi_consume options count data ahead (b # chunk) =
     (let (data', ahead') = (if length data < count then (data @ [b], ahead) else (data, ahead @ [b])) in
      if ro_termchar_enabled options \<and> b = ro_termchar options then (data', ahead' @ chunk, True)
      else vxi_consume options count data' ahead' chunk)"

definition vxi_read_request ::
  "'w network \<Rightarrow> read_options \<Rightarrow> nat \<Rightarrow> op \<Rightarrow> 'w vxi_session \<Rightarrow> vi_status \<times> byte list \<times> op \<times> 'w vxi_session" where
  "vxi_read_request nw options wanted x s =
     (let request_size = of_nat (min wanted (unat (vx_maximum_receive_size s))) in
      core_call nw x kDeviceRead
        (foldl xdr_u32 [] [vx_link_id s, request_size, vx_remaining nw x s, vx_remaining nw x s,
          if ro_termchar_enabled options then kFlagTermCharSet else 0, ucast (ro_termchar options)]) s)"

definition vxi_read_reply ::
  "'w network \<Rightarrow> read_options \<Rightarrow> u32 \<Rightarrow> byte list \<Rightarrow> byte list \<Rightarrow> op \<Rightarrow> 'w vxi_session \<Rightarrow>
   (vi_status \<times> op \<times> 'w vxi_session) + (byte list \<times> bool \<times> bool \<times> op \<times> 'w vxi_session)" where
  "vxi_read_reply nw options count data result y s =
     (case xdr_read_u32 result of None \<Rightarrow> Inl (VI_ERROR_IO, y, vxi_restore_data data s) | Some (error, r1) \<Rightarrow>
      case xdr_read_u32 r1 of None \<Rightarrow> Inl (VI_ERROR_IO, y, vxi_restore_data data s) | Some (reason, r2) \<Rightarrow>
      case xdr_read_opaque kMaximumRpcPayload r2 of None \<Rightarrow> Inl (VI_ERROR_IO, y, vxi_restore_data data s) | Some (chunk, r3) \<Rightarrow>
      let device = map_device_error error in
      if device < VI_SUCCESS then
        let z = snd (try_complete device (vx_claimed nw y s)) in Inl (op_result z, z, vxi_restore_data data s)
      else if chunk = [] \<and> reason = 0 then Inl (VI_ERROR_IO, y, vxi_restore_data data s)
      else
        let (data', ahead', found) = vxi_consume options (unat count) data (vx_read_ahead s) chunk in
        Inr (data', found \<or> reason AND kReasonEnd \<noteq> 0 \<or> reason AND kReasonTermChar \<noteq> 0,
             found \<or> reason AND kReasonTermChar \<noteq> 0, y, s\<lparr>vx_read_ahead := ahead'\<rparr>))"

definition vxi_read_step ::
  "'w network \<Rightarrow> read_options \<Rightarrow> u32 \<Rightarrow> byte list \<Rightarrow> op \<Rightarrow> 'w vxi_session \<Rightarrow>
   (vi_status \<times> op \<times> 'w vxi_session) + (byte list \<times> bool \<times> bool \<times> op \<times> 'w vxi_session)" where
  "vxi_read_step nw options count data x s =
     (let (status, result, y, s1) = vxi_read_request nw options (unat count - length data) x s in
      if status < VI_SUCCESS then Inl (status, y, vxi_restore_data data s1)
      else vxi_read_reply nw options count data result y s1)"

definition vxi_read_pass ::
  "'w network \<Rightarrow> read_options \<Rightarrow> u32 \<Rightarrow> byte list \<times> bool \<times> bool \<times> op \<times> 'w vxi_session \<Rightarrow>
   ((vi_status \<times> op \<times> 'w vxi_session) + (byte list \<times> bool \<times> op \<times> 'w vxi_session)) +
   (byte list \<times> bool \<times> bool \<times> op \<times> 'w vxi_session)" where
  "vxi_read_pass nw options count = (\<lambda>(data, ended, by_termchar, x, s).
     if \<not> ended \<and> length data < unat count then
       (case vxi_read_step nw options count data x s of
          Inl r \<Rightarrow> Inl (Inl r)
        | Inr (data', ended', termchar', y, s') \<Rightarrow> Inr (data', ended', by_termchar \<or> termchar', y, s'))
     else Inl (Inr (data, by_termchar, x, s)))"

definition vxi_read_finish ::
  "'w network \<Rightarrow> u32 \<Rightarrow> byte list \<Rightarrow> bool \<Rightarrow> op \<Rightarrow> 'w vxi_session \<Rightarrow> vi_status \<times> byte list \<times> u32 \<times> op \<times> 'w vxi_session" where
  "vxi_read_finish nw count data by_termchar x s =
     (let status = read_status by_termchar data count; (won, y) = try_complete status (vx_claimed nw x s) in
      if \<not> won then (op_result y, [], 0, y, vxi_restore_data data s)
      else (status, data, of_nat (length data), y, s))"

definition vxi_read ::
  "'w network \<Rightarrow> 'w vxi_session \<Rightarrow> op \<Rightarrow> u32 \<Rightarrow> read_options \<Rightarrow> (vi_status \<times> byte list \<times> u32 \<times> op \<times> 'w vxi_session) option" where
  "vxi_read nw s x count options =
     (case vxi_acquire_io nw x s of
        (ok, y, s1) \<Rightarrow>
          if \<not> ok then Some (op_result y, [], 0, y, s1)
          else case take_ahead options (unat count) [] (vx_read_ahead s1) of
            (data, found, ahead) \<Rightarrow>
              let ended = (ro_termchar_enabled options \<and> data \<noteq> [] \<and> last data = ro_termchar options) in
              map_option (\<lambda>r. case r of
                  Inl (status, z, s2) \<Rightarrow> (status, [], 0, z, s2)
                | Inr (data', by_termchar, z, s2) \<Rightarrow> vxi_read_finish nw count data' by_termchar z s2)
                (run_loop (vxi_read_pass nw options count) (data, ended, ended, y, s1\<lparr>vx_read_ahead := ahead\<rparr>)))"

section \<open>Other operations\<close>

text \<open>The end of several operations: the error word of the reply.\<close>

definition reply_status :: "byte list \<Rightarrow> vi_status" where
  "reply_status result = (case xdr_read_u32 result of None \<Rightarrow> VI_ERROR_IO | Some (error, _) \<Rightarrow> map_device_error error)"

definition generic_call :: "'w network \<Rightarrow> op \<Rightarrow> u32 \<Rightarrow> 'w vxi_session \<Rightarrow> vi_status \<times> op \<times> 'w vxi_session" where
  "generic_call nw x procedure s =
     (case vxi_acquire_io nw x s of
        (ok, y, s1) \<Rightarrow>
          if \<not> ok then (op_result y, y, s1)
          else
            let arguments = foldl xdr_u32 [] [vx_link_id s1, if vx_remaining nw y s1 = 0 then 0 else kFlagWaitLock,
                  vx_remaining nw y s1, vx_remaining nw y s1];
                (status, result, z, s2) = core_call nw y procedure arguments s1 in
            if status < VI_SUCCESS then (status, z, s2) else (reply_status result, z, s2))"

definition vxi_clear :: "'w network \<Rightarrow> 'w vxi_session \<Rightarrow> op \<Rightarrow> vi_status \<times> op \<times> 'w vxi_session" where
  "vxi_clear nw s x =
     (let (status, y, s1) = generic_call nw x kDeviceClear s in
      (status, y, if status \<ge> VI_SUCCESS then s1\<lparr>vx_read_ahead := []\<rparr> else s1))"

definition vxi_assert_trigger :: "'w network \<Rightarrow> 'w vxi_session \<Rightarrow> op \<Rightarrow> u16 \<Rightarrow> vi_status \<times> op \<times> 'w vxi_session" where
  "vxi_assert_trigger nw s x protocol =
     (if protocol \<noteq> VI_TRIG_PROT_DEFAULT then (VI_ERROR_INV_PROT, x, s) else generic_call nw x kDeviceTrigger s)"

definition vxi_read_stb :: "'w network \<Rightarrow> 'w vxi_session \<Rightarrow> op \<Rightarrow> bool \<Rightarrow> vi_status \<times> u16 option \<times> op \<times> 'w vxi_session" where
  "vxi_read_stb nw s x has_status =
     (if \<not> has_status then (VI_ERROR_INV_PARAMETER, None, x, s)
      else case vxi_acquire_io nw x s of
        (ok, y, s1) \<Rightarrow>
          if \<not> ok then (op_result y, None, y, s1)
          else
            let arguments = foldl xdr_u32 [] [vx_link_id s1, kFlagWaitLock, vx_remaining nw y s1, vx_remaining nw y s1];
                (status, result, z, s2) = core_call nw y kDeviceReadStb arguments s1 in
            if status < VI_SUCCESS then (status, None, z, s2)
            else case xdr_read_u32 result of None \<Rightarrow> (VI_ERROR_IO, None, z, s2) | Some (error, r1) \<Rightarrow>
            case xdr_read_u32 r1 of None \<Rightarrow> (VI_ERROR_IO, None, z, s2) | Some (value, r2) \<Rightarrow>
            if value > 0xFF then (VI_ERROR_IO, None, z, s2)
            else (map_device_error error, if map_device_error error \<ge> VI_SUCCESS then Some (ucast value) else None, z, s2))"

definition vxi_lock :: "'w network \<Rightarrow> 'w vxi_session \<Rightarrow> op \<Rightarrow> u32 \<Rightarrow> string \<Rightarrow> vi_status \<times> op \<times> 'w vxi_session" where
  "vxi_lock nw s x lock_type access_key =
     (if lock_type = VI_SHARED_LOCK then (VI_SUCCESS, x, s)
      else case vxi_acquire_io nw x s of
        (ok, y, s1) \<Rightarrow>
          if \<not> ok then (op_result y, y, s1)
          else
            let arguments = foldl xdr_u32 [] [vx_link_id s1, kFlagWaitLock, vx_remaining nw y s1];
                (status, result, z, s2) = core_call nw y kDeviceLock arguments s1 in
            if status < VI_SUCCESS then (status, z, s2) else (reply_status result, z, s2))"

definition vxi_unlock :: "'w network \<Rightarrow> 'w vxi_session \<Rightarrow> op \<Rightarrow> vi_status \<times> op \<times> 'w vxi_session" where
  "vxi_unlock nw s x =
     (case vxi_acquire_io nw x s of
        (ok, y, s1) \<Rightarrow>
          if \<not> ok then (op_result y, y, s1)
          else
            let (status, result, z, s2) = core_call nw y kDeviceUnlock (xdr_u32 [] (vx_link_id s1)) s1 in
            if status < VI_SUCCESS then (status, z, s2) else (reply_status result, z, s2))"

definition vxi_flush :: "'w vxi_session \<Rightarrow> op \<Rightarrow> u16 \<Rightarrow> vi_status \<times> op \<times> 'w vxi_session" where
  "vxi_flush s x m =
     (if \<not> valid_flush_mask m then (VI_ERROR_INV_MASK, x, s)
      else (VI_SUCCESS, x, if m AND (VI_READ_BUF_DISCARD OR VI_IO_IN_BUF_DISCARD) \<noteq> 0 then s\<lparr>vx_read_ahead := []\<rparr> else s))"

definition vxi_set_attribute :: "'w vxi_session \<Rightarrow> u32 \<Rightarrow> u64 \<Rightarrow> vi_status \<times> 'w vxi_session" where
  "vxi_set_attribute s attribute value =
     (if attribute = VI_ATTR_TCPIP_ADDR \<or> attribute = VI_ATTR_TCPIP_HOSTNAME \<or> attribute = VI_ATTR_TCPIP_PORT
      then (VI_ERROR_ATTR_READONLY, s) else (VI_ERROR_NSUP_ATTR, s))"

definition vxi_get_attribute :: "'w vxi_session \<Rightarrow> u32 \<Rightarrow> vi_status \<times> attr_value option" where
  "vxi_get_attribute s attribute =
     (if attribute = VI_ATTR_TCPIP_ADDR then (VI_SUCCESS, Some (Attr_string (copy_string (vx_address s))))
      else if attribute = VI_ATTR_TCPIP_HOSTNAME then (VI_SUCCESS, Some (Attr_string (copy_string (vx_host s))))
      else if attribute = VI_ATTR_TCPIP_PORT then (VI_SUCCESS, Some (Attr_u16 (vx_core_port s)))
      else (VI_ERROR_NSUP_ATTR, None))"

definition vxi_backend :: "'w network \<Rightarrow> 'w vxi_session backend_ops" where
  "vxi_backend nw =
     \<lparr>be_read = vxi_read nw, be_write = vxi_write nw, be_clear = (\<lambda>s x. Some (vxi_clear nw s x)), be_flush = vxi_flush,
      be_read_stb = (\<lambda>s x out. Some (vxi_read_stb nw s x out)),
      be_assert_trigger = (\<lambda>s x pr. Some (vxi_assert_trigger nw s x pr)),
      be_usb_control = default_usb_control, be_lock = (\<lambda>s x ty key. Some (vxi_lock nw s x ty key)),
      be_unlock = (\<lambda>s x. Some (vxi_unlock nw s x)), be_set_attribute = vxi_set_attribute, be_get_attribute = vxi_get_attribute,
      be_close = vxi_close nw, be_notify_cancel = (\<lambda>s. s)\<rparr>"

end
