(* ===== verification/Vxi11_Laws.thy ===== *)
theory Vxi11_Laws
  imports Vxi11_Session
begin

text \<open>
  What the VXI-11 session promises: it keeps the contract of backends over every network that keeps its own, its writes
  return, a read neither loses nor reorders bytes in any outcome, and a write reaches the device as consecutive fragments.
\<close>

section \<open>What a call leaves alone\<close>

definition vx_same :: "'w vxi_session \<Rightarrow> 'w vxi_session \<Rightarrow> bool" where
  "vx_same s s' \<longleftrightarrow>
     vx_read_ahead s' = vx_read_ahead s \<and> vx_maximum_receive_size s' = vx_maximum_receive_size s \<and> vx_link_id s' = vx_link_id s \<and>
     vx_core s' = vx_core s \<and> vx_abort s' = vx_abort s \<and> vx_closed s' = vx_closed s \<and> vx_observer s' = vx_observer s \<and>
     vx_host s' = vx_host s \<and> vx_address s' = vx_address s \<and> vx_core_port s' = vx_core_port s"

lemma vx_same_refl [simp]: "vx_same s s"
  by (simp add: vx_same_def)

lemma vx_same_trans: "vx_same s1 s2 \<Longrightarrow> vx_same s2 s3 \<Longrightarrow> vx_same s1 s3"
  by (simp add: vx_same_def)

lemma vx_same_net [simp]:
  "vx_same s (s'\<lparr>vx_net := w\<rparr>) = vx_same s s'" "vx_same s (s'\<lparr>vx_next_xid := n\<rparr>) = vx_same s s'"
  "vx_same s (s'\<lparr>vx_abort_requested := b\<rparr>) = vx_same s s'"
  by (simp_all add: vx_same_def)

lemma vxi_exchange_same:
  assumes "\<And>t. vx_same t (observe t)" and "vxi_exchange nw observe ch x request s = (st, bs, y, s')"
  shows "vx_same s s'"
proof -
  have "vx_same s (observe (s\<lparr>vx_net := w\<rparr>))" for w using vx_same_trans [OF _ assms(1), of s "s\<lparr>vx_net := w\<rparr>"] by simp
  with assms(2) show ?thesis by (auto simp: vxi_exchange_def Let_def split: prod.splits option.splits)
qed

lemma vxi_call_same:
  assumes "\<And>t. vx_same t (observe t)" and "vxi_call nw observe ch x program procedure arguments s = (st, bs, y, s')"
  shows "vx_same s s'"
proof -
  have "vx_same s s2" if "vxi_exchange nw observe ch x request (s\<lparr>vx_next_xid := n\<rparr>) = (st2, bs2, y2, s2)" for request n st2 bs2 y2 s2
    using vx_same_trans [OF _ vxi_exchange_same [OF assms(1) that], of s] by simp
  with assms(2) show ?thesis by (auto simp: vxi_call_def next_xid_def Let_def split: prod.splits option.splits if_splits)
qed

lemma request_abort_same: "vx_same s (request_abort nw s)"
proof (cases "vx_link_id s = 0 \<or> vx_closed s \<or> vx_abort_requested s")
  case False
  let ?s1 = "s\<lparr>vx_abort_requested := True\<rparr>"
  let ?c = "vxi_call nw (\<lambda>s. s) (vx_abort ?s1) (operation_new (nw_now nw (vx_net s)) 250) kDeviceAsyncProgram kDeviceAbort
    (xdr_u32 [] (vx_link_id ?s1)) ?s1"
  obtain st bs y s' where c: "?c = (st, bs, y, s')" by (metis prod_cases4)
  have r: "request_abort nw s = s'" using False c by (simp add: request_abort_def Let_def)
  have "vx_same ?s1 s'" by (rule vxi_call_same [OF _ c]) simp
  then show ?thesis unfolding r using vx_same_trans [of s ?s1 s'] by simp
qed (auto simp: request_abort_def)

lemma core_call_same: "core_call nw x procedure arguments s = (st, bs, y, s') \<Longrightarrow> vx_same s s'"
  unfolding core_call_def by (rule vxi_call_same, auto simp: request_abort_same)


lemma vxi_acquire_cases:
  assumes "vxi_acquire_io nw x s = (ok, y, s')"
  shows "op_advances x y" and "ok = (\<not> op_completed y)" and "op_completed x \<Longrightarrow> y = x"
proof -
  have "acquire_io (nw_waits nw (vx_net s)) (nw_now nw (vx_net s)) x = (ok, y)"
    using assms by (auto simp: vxi_acquire_io_def split: prod.splits)
  note c = acquire_io_cases [OF this]
  show "op_advances x y" "ok = (\<not> op_completed y)" "op_completed x \<Longrightarrow> y = x" by (fact c)+
qed

section \<open>How reads and writes end\<close>

lemma vxi_write_cases:
  assumes "vxi_write nw s x data e = Some (st, k, y, s')"
  obtains (refused) "vxi_acquire_io nw x s = (False, y, s')" and "k = 0"
  | (left) x1 s1 where "vxi_acquire_io nw x s = (True, x1, s1)" and "k = 0"
      and "run_loop (vxi_write_pass nw e data) (0, x1, s1) = Some (Inl (st, y, s'))"
  | (finished) x1 s1 z where "vxi_acquire_io nw x s = (True, x1, s1)" and "k = 0 \<or> st = VI_SUCCESS \<and> k = of_nat (length data)"
      and "run_loop (vxi_write_pass nw e data) (0, x1, s1) = Some (Inr (z, s'))"
      and "y = snd (try_complete VI_SUCCESS (vx_claimed nw z s'))"
proof -
  obtain ok x1 s1 where a: "vxi_acquire_io nw x s = (ok, x1, s1)" by (rule prod_cases3)
  show ?thesis
  proof (cases ok)
    case True
    with assms a obtain r where r: "run_loop (vxi_write_pass nw e data) (0, x1, s1) = Some r" by (auto simp: vxi_write_def)
    show ?thesis
    proof (cases r)
      case (Inl q)
      with assms a r True have "q = (st, y, s')" "k = 0" by (auto simp: vxi_write_def split: prod.splits)
      with left [of x1 s1] a r True Inl show ?thesis by simp
    next
      case (Inr q)
      obtain z s2 where q: "q = (z, s2)" by (rule prod.exhaust)
      obtain won z1 where t: "try_complete VI_SUCCESS (vx_claimed nw z s2) = (won, z1)" by (rule prod.exhaust)
      have f: "(if \<not> won then (op_result z1, 0, z1, s2) else (VI_SUCCESS, of_nat (length data), z1, s2)) = (st, k, y, s')"
        using assms a True unfolding vxi_write_def a prod.case r by (simp add: Inr q t [simplified])
      then have "s2 = s'" "y = z1" "k = 0 \<or> st = VI_SUCCESS \<and> k = of_nat (length data)" by (auto split: if_splits)
      with finished [of x1 s1 z] a r True t show ?thesis by (simp add: Inr q)
    qed
  next
    case False
    with assms a have "x1 = y" "s1 = s'" "k = 0" by (auto simp: vxi_write_def)
    with a False refused show ?thesis by simp
  qed
qed

lemma vxi_read_cases:
  assumes "vxi_read nw s x n ro = Some (st, bs, k, y, s')"
  obtains (refused) "vxi_acquire_io nw x s = (False, y, s')" and "bs = []" and "k = 0"
  | (left) x1 s1 data f ahead e where "vxi_acquire_io nw x s = (True, x1, s1)" and "bs = []" and "k = 0"
      and "take_ahead ro (unat n) [] (vx_read_ahead s1) = (data, f, ahead)"
      and "e = (ro_termchar_enabled ro \<and> data \<noteq> [] \<and> last data = ro_termchar ro)"
      and "run_loop (vxi_read_pass nw ro n) (data, e, e, x1, s1\<lparr>vx_read_ahead := ahead\<rparr>) = Some (Inl (st, y, s'))"
  | (finished) x1 s1 data f ahead e d t z s2 where "vxi_acquire_io nw x s = (True, x1, s1)"
      and "take_ahead ro (unat n) [] (vx_read_ahead s1) = (data, f, ahead)"
      and "e = (ro_termchar_enabled ro \<and> data \<noteq> [] \<and> last data = ro_termchar ro)"
      and "run_loop (vxi_read_pass nw ro n) (data, e, e, x1, s1\<lparr>vx_read_ahead := ahead\<rparr>) = Some (Inr (d, t, z, s2))"
      and "vxi_read_finish nw n d t z s2 = (st, bs, k, y, s')"
proof -
  obtain ok x1 s1 where a: "vxi_acquire_io nw x s = (ok, x1, s1)" by (rule prod_cases3)
  show ?thesis
  proof (cases ok)
    case True
    obtain data f ahead where t: "take_ahead ro (unat n) [] (vx_read_ahead s1) = (data, f, ahead)" by (rule prod_cases3)
    define e where "e = (ro_termchar_enabled ro \<and> data \<noteq> [] \<and> last data = ro_termchar ro)"
    have l: "map_option (\<lambda>r. case r of Inl (status, z, s2) \<Rightarrow> (status, [], 0, z, s2)
        | Inr (data', by_termchar, z, s2) \<Rightarrow> vxi_read_finish nw n data' by_termchar z s2)
        (run_loop (vxi_read_pass nw ro n) (data, e, e, x1, s1\<lparr>vx_read_ahead := ahead\<rparr>)) = Some (st, bs, k, y, s')"
      using assms True unfolding vxi_read_def a prod.case t Let_def e_def by simp
    then obtain r where r: "run_loop (vxi_read_pass nw ro n) (data, e, e, x1, s1\<lparr>vx_read_ahead := ahead\<rparr>) = Some r" by auto
    show ?thesis
    proof (cases r)
      case (Inl q)
      with l r have "q = (st, y, s')" "bs = []" "k = 0" by (auto split: prod.splits)
      with left [of x1 s1] a t e_def r True Inl show ?thesis by simp
    next
      case (Inr q)
      obtain d t' z s2 where q: "q = (d, t', z, s2)" by (rule prod_cases4)
      from l r have "vxi_read_finish nw n d t' z s2 = (st, bs, k, y, s')" by (simp add: Inr q)
      with finished [of x1 s1] a t e_def r True show ?thesis by (simp add: Inr q)
    qed
  next
    case False
    with assms a have "x1 = y" "s1 = s'" "k = 0" "bs = []" by (auto simp: vxi_read_def)
    with a False refused show ?thesis by simp
  qed
qed

section \<open>The contract of backends\<close>

lemma try_vx: "op_advances x y \<Longrightarrow> op_advances x (snd (try_complete st (claimed race y)))"
  using op_advances_trans [OF op_advances_trans [OF _ claimed_advances] op_advances_try_complete] .

context channel_network
begin

lemma vxi_exchange_advances:
  assumes "vxi_exchange nw observe ch x request s = (st, bs, y, s')"
  shows "op_advances x y"
proof -
  obtain res z w where e: "nw_exchange nw (vx_net s) ch x request Rpc_record = (res, z, w)" by (metis prod_cases3)
  note a = exchange_advances [OF e]
  show ?thesis
  proof (cases res)
    case None
    let ?s1 = "observe (s\<lparr>vx_net := w\<rparr>)"
    obtain st2 bs2 z2 w2 where d: "nw_drain nw (vx_net ?s1) ch z request Rpc_record = (st2, bs2, z2, w2)" by (metis prod_cases4)
    with assms e None have "y = z2" by (simp add: vxi_exchange_def)
    with op_advances_trans [OF a drain_advances [OF d]] show ?thesis by simp
  qed (use assms e a in \<open>auto simp: vxi_exchange_def\<close>)
qed

lemma vxi_call_advances: "vxi_call nw observe ch x program procedure arguments s = (st, bs, y, s') \<Longrightarrow> op_advances x y"
  using vxi_exchange_advances by (auto simp: vxi_call_def next_xid_def Let_def split: prod.splits option.splits if_splits)

lemma core_call_advances: "core_call nw x procedure arguments s = (st, bs, y, s') \<Longrightarrow> op_advances x y"
  unfolding core_call_def by (rule vxi_call_advances)

lemma generic_call_advances: "generic_call nw x procedure s = (st, y, s') \<Longrightarrow> op_advances x y"
  by (auto simp: generic_call_def Let_def split: prod.splits if_splits
      dest: vxi_acquire_cases(1) intro: op_advances_trans core_call_advances)

lemma vxi_write_reply_advances:
  assumes "op_advances x y"
  shows "case vxi_write_reply nw am off bs y s of Inl (st, z, s') \<Rightarrow> op_advances x z | Inr (off', z, s') \<Rightarrow> op_advances x z"
  using assms try_vx [OF assms] by (simp add: vxi_write_reply_def Let_def split: option.split)

lemma vxi_write_step_advances:
  "case vxi_write_step nw e data off x s of Inl (st, y, s') \<Rightarrow> op_advances x y | Inr (off', y, s') \<Rightarrow> op_advances x y"
proof -
  obtain st bs y s1 where c: "vxi_write_request nw e data off x s = (st, bs, y, s1)" by (metis prod_cases4)
  then have "op_advances x y" by (auto simp: vxi_write_request_def Let_def intro: core_call_advances)
  with vxi_write_reply_advances [OF this] show ?thesis by (simp add: vxi_write_step_def c)
qed

lemma vxi_write_loop_advances:
  assumes "run_loop (vxi_write_pass nw e data) q = Some r"
  shows "case r of Inl (st, y, s') \<Rightarrow> op_advances (fst (snd q)) y | Inr (y, s') \<Rightarrow> op_advances (fst (snd q)) y"
  using assms
proof (induction rule: run_loop_rule)
  case (leave q r)
  obtain off x s where q: "q = (off, x, s)" by (rule prod_cases3)
  from leave show ?case using vxi_write_step_advances [where e = e and data = data and off = off and x = x and s = s]
    by (auto simp: q vxi_write_pass_def split: if_splits sum.splits)
next
  case (go q q' r)
  obtain off x s where q: "q = (off, x, s)" by (rule prod_cases3)
  obtain off' y s' where q': "q' = (off', y, s')" by (rule prod_cases3)
  have "op_advances x y" using go(1) vxi_write_step_advances [where e = e and data = data and off = off and x = x and s = s]
    by (auto simp: q q' vxi_write_pass_def split: if_splits sum.splits)
  with go(2) show ?case by (auto simp: q q' split: sum.splits intro: op_advances_trans)
qed

lemma vxi_write_advances: "vxi_write nw s x data e = Some (st, k, y, s') \<Longrightarrow> op_advances x y"
proof (erule vxi_write_cases)
  assume "vxi_acquire_io nw x s = (False, y, s')"
  then show ?thesis by (rule vxi_acquire_cases(1))
next
  fix x1 s1
  assume a: "vxi_acquire_io nw x s = (True, x1, s1)" and r: "run_loop (vxi_write_pass nw e data) (0, x1, s1) = Some (Inl (st, y, s'))"
  from vxi_write_loop_advances [OF r] op_advances_trans [OF vxi_acquire_cases(1) [OF a]] show ?thesis by simp
next
  fix x1 s1 z
  assume a: "vxi_acquire_io nw x s = (True, x1, s1)" and r: "run_loop (vxi_write_pass nw e data) (0, x1, s1) = Some (Inr (z, s'))"
    and y: "y = snd (try_complete VI_SUCCESS (vx_claimed nw z s'))"
  have "op_advances x z" using vxi_write_loop_advances [OF r] op_advances_trans [OF vxi_acquire_cases(1) [OF a]] by simp
  then show ?thesis unfolding y by (rule try_vx)
qed

text \<open>Reading: the operation advances and the data stays within the count.\<close>

lemma vxi_consume_length: "length data \<le> n \<Longrightarrow> vxi_consume ro n data ahead chunk = (data', ahead', f) \<Longrightarrow> length data' \<le> n"
  by (induction ro n data ahead chunk rule: vxi_consume.induct) (auto simp: Let_def split: if_splits)

lemma vxi_read_reply_advances:
  assumes "op_advances x y" and "length data \<le> unat n"
  shows "case vxi_read_reply nw ro n data bs y s of Inl (st, z, s') \<Rightarrow> op_advances x z
    | Inr (data', e, t, z, s') \<Rightarrow> op_advances x z \<and> length data' \<le> unat n"
  using assms try_vx [OF assms(1)] vxi_consume_length [OF assms(2)]
  by (auto simp: vxi_read_reply_def Let_def split: option.split prod.split)

lemma vxi_read_step_advances:
  assumes "length data \<le> unat n"
  shows "case vxi_read_step nw ro n data x s of Inl (st, z, s') \<Rightarrow> op_advances x z
    | Inr (data', e, t, z, s') \<Rightarrow> op_advances x z \<and> length data' \<le> unat n"
proof -
  obtain st bs y s1 where c: "vxi_read_request nw ro (unat n - length data) x s = (st, bs, y, s1)" by (metis prod_cases4)
  then have "op_advances x y" by (auto simp: vxi_read_request_def Let_def intro: core_call_advances)
  with vxi_read_reply_advances [OF this assms] show ?thesis by (simp add: vxi_read_step_def c)
qed

lemma vxi_read_loop_advances:
  assumes "run_loop (vxi_read_pass nw ro n) q = Some r" and "length (fst q) \<le> unat n"
  shows "case r of Inl (st, y, s') \<Rightarrow> op_advances (fst (snd (snd (snd q)))) y
    | Inr (data, t, y, s') \<Rightarrow> op_advances (fst (snd (snd (snd q)))) y \<and> length data \<le> unat n"
  using assms
proof (induction rule: run_loop_rule)
  case (leave q r)
  obtain data e t x s where q: "q = (data, e, t, x, s)" by (rule prod_cases5)
  from leave show ?case using vxi_read_step_advances [where data = data and n = n and ro = ro and x = x and s = s]
    by (auto simp: q vxi_read_pass_def split: if_splits sum.splits)
next
  case (go q q' r)
  obtain data e t x s where q: "q = (data, e, t, x, s)" by (rule prod_cases5)
  obtain data' e' t' y s' where q': "q' = (data', e', t', y, s')" by (rule prod_cases5)
  have "op_advances x y" "length data' \<le> unat n" using go(1,3) vxi_read_step_advances [where data = data and n = n and ro = ro and x = x and s = s]
    by (auto simp: q q' vxi_read_pass_def split: if_splits sum.splits)
  with go(2) show ?case by (auto simp: q q' split: sum.splits intro: op_advances_trans)
qed

lemma vxi_read_finish_contract:
  assumes "vxi_read_finish nw n data t x s = (st, bs, k, y, s')" and "length data \<le> unat n"
  shows "op_advances x y" and "length bs \<le> unat n \<and> unat k = length bs"
proof -
  obtain won z where z: "try_complete (read_status t data n) (vx_claimed nw x s) = (won, z)" by fastforce
  note r = assms(1) [unfolded vxi_read_finish_def Let_def z prod.case]
  show "op_advances x y" using r try_claimed(1) [OF z] by (auto split: if_splits)
  show "length bs \<le> unat n \<and> unat k = length bs" using r assms(2) unat_of_nat_le by (auto split: if_splits)
qed

lemma vxi_read_contract:
  assumes "vxi_read nw s x n ro = Some (st, bs, k, y, s')"
  shows "op_advances x y \<and> (length bs \<le> unat n \<and> unat k = length bs) \<and> (op_completed x \<longrightarrow> bs = [])"
  using assms
proof (cases rule: vxi_read_cases)
  case refused
  with vxi_acquire_cases(1) [OF refused(1)] show ?thesis by simp
next
  case (left x1 s1 data f ahead e)
  have "length data \<le> unat n" using take_ahead_split(2) [OF left(4)] by simp
  from vxi_read_loop_advances [OF left(6)] this left op_advances_trans [OF vxi_acquire_cases(1) [OF left(1)]] show ?thesis by simp
next
  case (finished x1 s1 data f ahead e d t z s2)
  note a = vxi_acquire_cases [OF finished(1)]
  have "length data \<le> unat n" using take_ahead_split(2) [OF finished(2)] by simp
  from vxi_read_loop_advances [OF finished(4)] this have z: "op_advances x1 z" "length d \<le> unat n" by simp_all
  note c = vxi_read_finish_contract [OF finished(5) z(2)]
  have "op_advances x y" using op_advances_trans [OF op_advances_trans [OF a(1) z(1)] c(1)] .
  with c(2) a(2,3) show ?thesis by auto
qed

lemma vxi_calls_advance:
  "vxi_read_stb nw s x out = (st, v, y, s') \<Longrightarrow> op_advances x y"
  "vxi_lock nw s x ty key = (st, y, s') \<Longrightarrow> op_advances x y"
  "vxi_unlock nw s x = (st, y, s') \<Longrightarrow> op_advances x y"
  by (auto simp: vxi_read_stb_def vxi_lock_def vxi_unlock_def Let_def split: prod.splits if_splits option.splits
      dest: vxi_acquire_cases(1) intro: op_advances_trans core_call_advances)

lemma vxi_is_backend: "backend (vxi_backend nw)"
proof
  fix b b' x y n ro st data k
  assume "be_read (vxi_backend nw) b x n ro = Some (st, data, k, y, b')"
  then have r: "vxi_read nw b x n ro = Some (st, data, k, y, b')" by (simp add: vxi_backend_def)
  show "op_advances x y" "length data \<le> unat n \<and> unat k = length data" "op_completed x \<Longrightarrow> data = []"
    using vxi_read_contract [OF r] by simp_all
next
  fix b b' x y bs wo st k
  assume "be_write (vxi_backend nw) b x bs wo = Some (st, k, y, b')"
  then show "op_advances x y" by (simp add: vxi_backend_def vxi_write_advances)
qed (auto simp: vxi_backend_def vxi_clear_def vxi_flush_def vxi_assert_trigger_def default_usb_control_def Let_def
    split: if_splits prod.splits intro: vxi_calls_advance generic_call_advances)

end

section \<open>Writing returns\<close>

lemma vxi_write_step_Inr:
  assumes "vxi_write_step nw e data off x s = Inr (off', y, s')"
  shows "off' = off + vxi_write_amount data off s" and "vx_same s s'"
proof -
  obtain st bs z s1 where c: "vxi_write_request nw e data off x s = (st, bs, z, s1)" by (metis prod_cases4)
  then have "vx_same s s1" by (auto simp: vxi_write_request_def Let_def intro: core_call_same)
  with assms show "off' = off + vxi_write_amount data off s" "vx_same s s'"
    by (auto simp: vxi_write_step_def vxi_write_reply_def c Let_def split: if_splits option.splits)
qed



section \<open>What the device was told and what it sent\<close>

text \<open>The network with a record of the exchanges that succeeded: the request and the response of each.\<close>

definition log_answer :: "byte list \<Rightarrow> vi_status \<Rightarrow> byte list \<Rightarrow> (byte list \<times> byte list) list" where
  "log_answer request st response = (if 0 \<le> st then [(request, response)] else [])"

definition logged_network :: "'w network \<Rightarrow> ('w \<times> (byte list \<times> byte list) list) network" where
  "logged_network nw =
     \<lparr>nw_new = (\<lambda>(w, l) n d. case nw_new nw w n d of (ch, w') \<Rightarrow> (ch, w', l)),
      nw_connect = (\<lambda>(w, l) ch host port t. case nw_connect nw w ch host port t of (st, addr, w') \<Rightarrow> (st, addr, w', l)),
      nw_exchange = (\<lambda>(w, l) ch x bs fr. case nw_exchange nw w ch x bs fr of
         (res, y, w') \<Rightarrow> (res, y, w', case res of None \<Rightarrow> l | Some (st, rs) \<Rightarrow> l @ log_answer bs st rs)),
      nw_drain = (\<lambda>(w, l) ch x bs fr. case nw_drain nw w ch x bs fr of
         (st, rs, y, w') \<Rightarrow> (st, rs, y, w', l @ log_answer bs st rs)),
      nw_close = (\<lambda>(w, l) ch. (nw_close nw w ch, l)), nw_now = (\<lambda>(w, l). nw_now nw w),
      nw_waits = (\<lambda>(w, l). nw_waits nw w), nw_race = (\<lambda>(w, l). nw_race nw w)\<rparr>"

definition rpc_word :: "nat \<Rightarrow> byte list \<Rightarrow> u32" where
  "rpc_word k request = xdr_read_u32_at (drop (4 * k) request)"

text \<open>The bytes a reply to \<open>device_read\<close> carries, and the fragment a \<open>device_write\<close> carries with its END flag.\<close>

definition reply_chunk :: "byte list \<Rightarrow> byte list" where
  "reply_chunk payload =
     (case xdr_read_u32 payload of None \<Rightarrow> [] | Some (error, r1) \<Rightarrow>
      case xdr_read_u32 r1 of None \<Rightarrow> [] | Some (reason, r2) \<Rightarrow>
      case xdr_read_opaque kMaximumRpcPayload r2 of None \<Rightarrow> [] | Some (chunk, r3) \<Rightarrow> if error = 0 then chunk else [])"

definition delivered :: "byte list \<times> byte list \<Rightarrow> byte list" where
  "delivered = (\<lambda>(request, response).
     if rpc_word 4 request = kDeviceCoreProgram \<and> rpc_word 6 request = kDeviceRead then
       (case parse_rpc_reply response (rpc_word 1 request) of None \<Rightarrow> [] | Some payload \<Rightarrow> reply_chunk payload)
     else [])"

definition fragment_of :: "byte list \<times> byte list \<Rightarrow> (bool \<times> byte list) list" where
  "fragment_of = (\<lambda>(request, response).
     if rpc_word 4 request = kDeviceCoreProgram \<and> rpc_word 6 request = kDeviceWrite then
       (case xdr_read_opaque (2 ^ 32) (drop 60 request) of None \<Rightarrow> [] | Some (v, rest) \<Rightarrow> [(rpc_word 14 request = kFlagEnd, v)])
     else [])"

abbreviation vx_log :: "('w \<times> (byte list \<times> byte list) list) vxi_session \<Rightarrow> (byte list \<times> byte list) list" where
  "vx_log s \<equiv> snd (vx_net s)"

lemma rpc_word_nth: "k < length ws \<Longrightarrow> rpc_word k (concat (map (xdr_u32 []) ws) @ rest) = ws ! k"
proof (induction ws arbitrary: k)
  case (Cons w ws)
  show ?case
  proof (cases k)
    case 0
    then show ?thesis using xdr.get_put by (simp add: rpc_word_def)
  next
    case (Suc j)
    then have "rpc_word k (concat (map (xdr_u32 []) (w # ws)) @ rest) = rpc_word j (concat (map (xdr_u32 []) ws) @ rest)"
      by (simp add: rpc_word_def xdr.length_put)
    with Cons Suc show ?thesis by simp
  qed
qed simp

lemma rpc_call_words:
  assumes "make_rpc_call xid program version procedure arguments = request" and "request \<noteq> []"
  shows "rpc_word 1 request = xid" and "rpc_word 4 request = program" and "rpc_word 6 request = procedure"
    and "drop 44 request = arguments"
proof -
  obtain marker where r: "request = concat (map (xdr_u32 []) [marker, xid, 0, 2, program, version, procedure, 0, 0, 0, 0]) @ arguments"
    using assms rpc_call_framing [of arguments xid program version procedure] by (auto split: if_splits)
  show "rpc_word 1 request = xid" "rpc_word 4 request = program" "rpc_word 6 request = procedure"
    unfolding r by (subst rpc_word_nth; simp)+
  show "drop 44 request = arguments" unfolding r by (simp add: xdr.length_put)
qed

lemma logged_network_sel:
  "nw_exchange (logged_network nw) wl ch x bs fr = (res, y, wl') \<Longrightarrow>
     snd wl' = snd wl @ (case res of None \<Rightarrow> [] | Some (st, rs) \<Rightarrow> log_answer bs st rs)"
  "nw_drain (logged_network nw) wl ch x bs fr = (st, rs, y, wl') \<Longrightarrow> snd wl' = snd wl @ log_answer bs st rs"
  by (auto simp: logged_network_def split: prod.splits option.splits)

text \<open>The log of a session and the successful exchanges that a call adds to it; \<open>f\<close> selects what is looked at, and the abort
  that a cancellation causes must not matter for it.\<close>

definition log_view :: "(byte list \<times> byte list \<Rightarrow> 'a list) \<Rightarrow> ('w \<times> (byte list \<times> byte list) list) vxi_session \<Rightarrow> 'a list" where
  "log_view f s = concat (map f (vx_log s))"

lemma log_view_net [simp]:
  "log_view f (s\<lparr>vx_next_xid := n\<rparr>) = log_view f s" "log_view f (s\<lparr>vx_abort_requested := b\<rparr>) = log_view f s"
  "log_view f (s\<lparr>vx_read_ahead := bs\<rparr>) = log_view f s" "log_view f (vxi_restore_data data s) = log_view f s"
  by (simp_all add: log_view_def vxi_restore_data_def)

lemma vxi_exchange_logged:
  assumes "\<And>t. log_view f (observe t) = log_view f t"
    and "vxi_exchange (logged_network nw) observe ch x request s = (st, rs, y, s')"
  shows "log_view f s' = log_view f s @ (if 0 \<le> st then f (request, rs) else [])"
proof -
  obtain res z w where e: "nw_exchange (logged_network nw) (vx_net s) ch x request Rpc_record = (res, z, w)" by (metis prod_cases3)
  note l = logged_network_sel(1) [OF e]
  show ?thesis
  proof (cases res)
    case None
    let ?s1 = "observe (s\<lparr>vx_net := w\<rparr>)"
    obtain st2 bs2 z2 w2 where d: "nw_drain (logged_network nw) (vx_net ?s1) ch z request Rpc_record = (st2, bs2, z2, w2)"
      by (metis prod_cases4)
    have "st = st2" "rs = bs2" "s' = ?s1\<lparr>vx_net := w2\<rparr>" using assms(2) e None d by (simp_all add: vxi_exchange_def)
    then have "log_view f s' = log_view f ?s1 @ (if 0 \<le> st then f (request, rs) else [])"
      using logged_network_sel(2) [OF d] by (simp add: log_view_def log_answer_def)
    with assms(1) [of "s\<lparr>vx_net := w\<rparr>"] l None show ?thesis by (simp add: log_view_def)
  next
    case (Some q)
    with assms(2) e l show ?thesis by (auto simp: vxi_exchange_def log_view_def log_answer_def split: prod.splits)
  qed
qed

lemma vxi_call_logged:
  assumes "\<And>t. log_view f (observe t) = log_view f t"
    and "vxi_call (logged_network nw) observe ch x program procedure arguments s = (st, payload, y, s')"
  shows "\<exists>request rs. log_view f s' = log_view f s @ (if request \<noteq> [] then f (request, rs) else []) \<and>
    (request \<noteq> [] \<longrightarrow> (\<exists>xid version. request = make_rpc_call xid program version procedure arguments \<and>
       parse_rpc_reply rs xid = (if 0 \<le> st then Some payload else None))) \<and> (0 \<le> st \<longrightarrow> request \<noteq> [])"
proof -
  obtain xid s1 where n: "next_xid s = (xid, s1)" by fastforce
  then have s1: "log_view f s1 = log_view f s" by (auto simp: next_xid_def)
  define version where "version = (if program = kPortmapperProgram then kPortmapperVersion else kProgramVersion)"
  define request where "request = make_rpc_call xid program version procedure arguments"
  show ?thesis
  proof (cases "request = []")
    case True
    then have "st < 0" "s' = s1" using assms(2) n by (auto simp: vxi_call_def Let_def request_def version_def)
    with s1 show ?thesis by (intro exI [of _ "[]"]) simp
  next
    case False
    obtain st2 rs y2 s2 where e: "vxi_exchange (logged_network nw) observe ch x request s1 = (st2, rs, y2, s2)" by (metis prod_cases4)
    note l = vxi_exchange_logged [OF assms(1) e]
    have c: "(if st2 < VI_SUCCESS then (st2, [], y2, s2) else case parse_rpc_reply rs xid of
        None \<Rightarrow> (VI_ERROR_IO, [], y2, s2) | Some payload \<Rightarrow> (VI_SUCCESS, payload, y2, s2)) = (st, payload, y, s')"
      using assms(2) False e unfolding vxi_call_def n prod.case Let_def version_def [symmetric] request_def [symmetric] by simp
    show ?thesis
    proof (cases "st2 < 0")
      case True
      with c l s1 show ?thesis by (intro exI [of _ "[]"]) auto
    next
      case False': False
      with c l s1 False show ?thesis
        by (intro exI [of _ request] exI [of _ rs]) (auto simp: request_def split: option.splits)
    qed
  qed
qed

lemma request_abort_logged:
  assumes "\<And>request rs. rpc_word 4 request \<noteq> kDeviceCoreProgram \<Longrightarrow> f (request, rs) = []"
  shows "log_view f (request_abort (logged_network nw) s) = log_view f s"
proof (cases "vx_link_id s = 0 \<or> vx_closed s \<or> vx_abort_requested s")
  case False
  let ?nw = "logged_network nw" and ?s1 = "s\<lparr>vx_abort_requested := True\<rparr>"
  obtain st bs y s' where c: "vxi_call ?nw (\<lambda>s. s) (vx_abort ?s1) (operation_new (nw_now ?nw (vx_net s)) 250) kDeviceAsyncProgram
      kDeviceAbort (xdr_u32 [] (vx_link_id ?s1)) ?s1 = (st, bs, y, s')" by (metis prod_cases4)
  have r: "request_abort ?nw s = s'" using False c by (simp add: request_abort_def Let_def)
  from vxi_call_logged [OF refl c, of f] obtain request rs where
    "log_view f s' = log_view f s @ (if request \<noteq> [] then f (request, rs) else [])"
    "request \<noteq> [] \<Longrightarrow> \<exists>xid version. request = make_rpc_call xid kDeviceAsyncProgram version kDeviceAbort (xdr_u32 [] (vx_link_id ?s1))"
    by auto
  with assms [of request rs] rpc_call_words(2) [OF _ , of _ kDeviceAsyncProgram _ _ _ request] show ?thesis
    unfolding r by (cases "request = []") fastforce+
qed (auto simp: request_abort_def)

lemma core_call_logged:
  assumes "core_call (logged_network nw) x procedure arguments s = (st, payload, y, s')"
    and "\<And>request rs. rpc_word 4 request \<noteq> kDeviceCoreProgram \<Longrightarrow> f (request, rs) = []"
  shows "\<exists>request rs. log_view f s' = log_view f s @ (if request \<noteq> [] then f (request, rs) else []) \<and>
    (request \<noteq> [] \<longrightarrow> rpc_word 4 request = kDeviceCoreProgram \<and> rpc_word 6 request = procedure \<and> drop 44 request = arguments \<and>
       parse_rpc_reply rs (rpc_word 1 request) = (if 0 \<le> st then Some payload else None)) \<and> (0 \<le> st \<longrightarrow> request \<noteq> [])"
proof -
  have "log_view f (if vx_observer t then request_abort (logged_network nw) t else t) = log_view f t" for t
    by (cases "vx_observer t") (simp_all, rule request_abort_logged, rule assms(2))
  from vxi_call_logged [OF this assms(1) [unfolded core_call_def]] obtain request rs where
    r: "log_view f s' = log_view f s @ (if request \<noteq> [] then f (request, rs) else [])" "0 \<le> st \<Longrightarrow> request \<noteq> []"
    and q: "request \<noteq> [] \<Longrightarrow> \<exists>xid version. request = make_rpc_call xid kDeviceCoreProgram version procedure arguments \<and>
       parse_rpc_reply rs xid = (if 0 \<le> st then Some payload else None)" by blast
  show ?thesis
  proof (cases "request = []")
    case False
    from q [OF this] obtain xid version where m: "make_rpc_call xid kDeviceCoreProgram version procedure arguments = request"
      "parse_rpc_reply rs xid = (if 0 \<le> st then Some payload else None)" by blast
    note w = rpc_call_words [OF m(1) False]
    from r w m(2) show ?thesis by (intro exI [of _ request] exI [of _ rs]) simp
  qed (use r in \<open>auto intro!: exI [of _ "[]"]\<close>)
qed

section \<open>Reading conserves the data\<close>

lemma vxi_consume_split:
  assumes "length data < n \<Longrightarrow> ahead = []" and "vxi_consume ro n data ahead chunk = (data', ahead', found)"
  shows "data' @ ahead' = data @ ahead @ chunk \<and> (length data' < n \<longrightarrow> \<not> found \<longrightarrow> ahead' = [])"
  using assms
proof (induction chunk arbitrary: data ahead)
  case (Cons b chunk)
  obtain d a where da: "(if length data < n then (data @ [b], ahead) else (data, ahead @ [b])) = (d, a)" by fastforce
  have d: "d @ a = data @ ahead @ [b]" "length d < n \<Longrightarrow> a = []" using da Cons.prems(1) by (auto split: if_splits)
  show ?case
  proof (cases "ro_termchar_enabled ro \<and> b = ro_termchar ro")
    case True
    then have "data' = d" "ahead' = a @ chunk" "found" using Cons.prems(2) da by (auto simp: Let_def)
    with d(1) show ?thesis by simp
  next
    case False
    then have "vxi_consume ro n d a chunk = (data', ahead', found)" using Cons.prems(2) da by (auto simp: Let_def)
    from Cons.IH [OF d(2) this] d(1) show ?thesis by simp
  qed
qed auto

lemma map_device_error_ok: "(map_device_error e < 0) = (e \<noteq> 0)"
  by (simp add: map_device_error_def)

lemma vxi_read_reply_conserves:
  assumes "vx_read_ahead s = []" and "length data < unat n"
  shows "case vxi_read_reply nw ro n data payload y s of
     Inl (st, z, s') \<Rightarrow> vx_read_ahead s' = data \<and> reply_chunk payload = [] \<and> vx_net s' = vx_net s
   | Inr (data', ended', t, z, s') \<Rightarrow> data' @ vx_read_ahead s' = data @ reply_chunk payload \<and> vx_net s' = vx_net s \<and>
       (\<not> ended' \<longrightarrow> length data' < unat n \<longrightarrow> vx_read_ahead s' = [])"
proof -
  note c = vxi_consume_split [where n = "unat n" and data = data and ahead = "[]" and ro = ro, simplified]
  show ?thesis using assms
    by (auto simp: vxi_read_reply_def reply_chunk_def vxi_restore_data_def map_device_error_ok Let_def
        split: option.split prod.split dest: c)
qed

lemma delivered_core: "rpc_word 4 request \<noteq> kDeviceCoreProgram \<Longrightarrow> delivered (request, rs) = []"
  "rpc_word 4 request \<noteq> kDeviceCoreProgram \<Longrightarrow> fragment_of (request, rs) = []"
  by (simp_all add: delivered_def fragment_of_def)

lemma vxi_read_request_logged:
  assumes "vxi_read_request (logged_network nw) ro k x s = (st, payload, y, s')"
  shows "log_view delivered s' = log_view delivered s @ (if 0 \<le> st then reply_chunk payload else [])" and "vx_same s s'"
proof -
  obtain ar where c: "core_call (logged_network nw) x kDeviceRead ar s = (st, payload, y, s')"
    using assms by (auto simp: vxi_read_request_def Let_def)
  show "vx_same s s'" by (rule core_call_same [OF c])
  from core_call_logged [where f = delivered, OF c delivered_core(1)]
  show "log_view delivered s' = log_view delivered s @ (if 0 \<le> st then reply_chunk payload else [])"
    by (auto simp: delivered_def split: if_splits)
qed

text \<open>What the session holds: the bytes it has collected in this call and its read-ahead.\<close>

lemma vxi_read_loop_conserves:
  assumes "run_loop (vxi_read_pass (logged_network nw) ro n) q = Some r"
    and "case q of (data, ended, t, x, s) \<Rightarrow> (\<not> ended \<longrightarrow> length data < unat n \<longrightarrow> vx_read_ahead s = []) \<and>
      data @ vx_read_ahead s = held @ new \<and> log_view delivered s = log @ new"
  shows "case r of
     Inl (st, y, s') \<Rightarrow> \<exists>new. vx_read_ahead s' = held @ new \<and> log_view delivered s' = log @ new
   | Inr (data, t, y, s') \<Rightarrow> \<exists>new. data @ vx_read_ahead s' = held @ new \<and> log_view delivered s' = log @ new"
  using assms
proof (induction arbitrary: new rule: run_loop_rule)
  case (leave q r)
  obtain data e t x s where q: "q = (data, e, t, x, s)" by (rule prod_cases5)
  show ?case
  proof (cases "\<not> e \<and> length data < unat n")
    case True
    obtain st payload y s1 where c: "vxi_read_request (logged_network nw) ro (unat n - length data) x s = (st, payload, y, s1)"
      by (metis prod_cases4)
    note l = vxi_read_request_logged [OF c]
    have a: "vx_read_ahead s = []" "vx_read_ahead s1 = []" "data = held @ new" "log_view delivered s = log @ new"
      using True leave(2) l(2) by (auto simp: q vx_same_def)
    with vxi_read_reply_conserves [OF a(2), where data = data and n = n and nw = "logged_network nw" and ro = ro and payload = payload and y = y] leave(1) True c l show ?thesis
      by (auto simp: q vxi_read_pass_def vxi_read_step_def vxi_restore_data_def log_view_def split: if_splits sum.splits)
  qed (use leave in \<open>auto simp: q vxi_read_pass_def\<close>)
next
  case (go q q' r)
  obtain data e t x s where q: "q = (data, e, t, x, s)" by (rule prod_cases5)
  obtain data' e' t' y' s' where q': "q' = (data', e', t', y', s')" by (rule prod_cases5)
  have True: "\<not> e" "length data < unat n" using go(1) by (auto simp: q vxi_read_pass_def split: if_splits)
  obtain st payload y s1 where c: "vxi_read_request (logged_network nw) ro (unat n - length data) x s = (st, payload, y, s1)"
    by (metis prod_cases4)
  note l = vxi_read_request_logged [OF c]
  have a: "vx_read_ahead s1 = []" "data = held @ new" "log_view delivered s = log @ new"
    using True go(3) l(2) by (auto simp: q vx_same_def)
  have "0 \<le> st" and rp: "data' @ vx_read_ahead s' = data @ reply_chunk payload" "vx_net s' = vx_net s1"
    "\<not> e' \<Longrightarrow> length data' < unat n \<Longrightarrow> vx_read_ahead s' = []"
    using vxi_read_reply_conserves [OF a(1), where data = data and n = n and nw = "logged_network nw" and ro = ro and payload = payload and y = y] go(1) True c
    by (auto simp: q q' vxi_read_pass_def vxi_read_step_def split: if_splits sum.splits)
  then have "log_view delivered s' = log @ (new @ reply_chunk payload)" using l(1) a(3) by (simp add: log_view_def)
  with rp a(2) show ?case by (intro go(2) [of "new @ reply_chunk payload"]) (simp add: q')
qed

lemma vxi_read_finish_failed: "vxi_read_finish nw n d t z s = (st, bs, k, y, s') \<Longrightarrow> st < 0 \<Longrightarrow> bs = []"
  by (auto simp: vxi_read_finish_def read_status_def Let_def split: prod.splits if_splits)

lemma vxi_read_failed:
  assumes "vxi_read nw s x n ro = Some (st, bs, k, y, s')" and "st < 0"
  shows "bs = []"
  using assms(1) by (cases rule: vxi_read_cases) (use assms(2) vxi_read_finish_failed in blast)+

lemma vxi_read_keeps_data:
  assumes "vxi_read (logged_network nw) s x n ro = Some (st, bs, k, y, s')"
  shows "\<exists>new. bs @ vx_read_ahead s' = vx_read_ahead s @ new \<and> log_view delivered s' = log_view delivered s @ new"
proof -
  have acq: "vx_read_ahead s1 = vx_read_ahead s" "log_view delivered s1 = log_view delivered s"
    if "vxi_acquire_io (logged_network nw) x s = (ok, x1, s1)" for ok x1 s1
    using that by (auto simp: vxi_acquire_io_def split: prod.splits)
  note l = vxi_read_loop_conserves [where held = "vx_read_ahead s" and log = "log_view delivered s" and new = "[]"]
  from assms show ?thesis
  proof (cases rule: vxi_read_cases)
    case refused
    with acq [OF refused(1)] show ?thesis by simp
  next
    case (left x1 s1 data f ahead e)
    from l [OF left(6)] take_ahead_split [OF left(4)] left(2,5) acq [OF left(1)] show ?thesis by auto
  next
    case (finished x1 s1 data f ahead e d t z s2)
    from l [OF finished(4)] take_ahead_split [OF finished(2)] finished(3) acq [OF finished(1)]
    have "\<exists>new. d @ vx_read_ahead s2 = vx_read_ahead s @ new \<and> log_view delivered s2 = log_view delivered s @ new" by auto
    with finished(5) show ?thesis
      by (auto simp: vxi_read_finish_def vxi_restore_data_def log_view_def Let_def split: prod.splits if_splits)
  qed
qed

section \<open>Writing sends the fragments\<close>

text \<open>The reference: consecutive pieces of at most \<open>m\<close> bytes, the last one with END if asked for.\<close>

function fragments :: "nat \<Rightarrow> bool \<Rightarrow> byte list \<Rightarrow> (bool \<times> byte list) list" where
  "fragments m e data =
     (if data = [] \<or> m = 0 then [] else (length data \<le> m \<and> e, take m data) # fragments m e (drop m data))"
  by pat_completeness auto
termination by (relation "measure (\<lambda>(m, e, data). length data)") auto

declare fragments.simps [simp del]

lemma fragments_Nil [simp]: "fragments m e [] = []"
  by (subst fragments.simps) simp

lemma fragments_concat: "0 < m \<Longrightarrow> concat (map snd (fragments m e data)) = data"
proof (induction m e data rule: fragments.induct)
  case (1 m e data)
  then show ?case by (subst fragments.simps) auto
qed

lemma vxi_write_request_logged:
  assumes "vxi_write_request (logged_network nw) e data off x s = (st, payload, y, s')" and "0 \<le> st"
  shows "log_view fragment_of s' = log_view fragment_of s @
    [(off + vxi_write_amount data off s = length data \<and> e, take (vxi_write_amount data off s) (drop off data))]"
proof -
  let ?am = "vxi_write_amount data off s" and ?nw = "logged_network nw"
  let ?ws = "[vx_link_id s, vx_remaining ?nw x s, vx_remaining ?nw x s, if off + ?am = length data \<and> e then kFlagEnd else 0]"
  let ?v = "take ?am (drop off data)"
  have pre: "foldl xdr_u32 [] ?ws = concat (map (xdr_u32 []) ?ws)" by (simp only: foldl_xdr append_Nil)
  have c: "core_call ?nw x kDeviceWrite (xdr_opaque (concat (map (xdr_u32 []) ?ws)) ?v) s = (st, payload, y, s')"
    using assms(1) unfolding vxi_write_request_def Let_def pre .
  have len: "length (concat (map (xdr_u32 []) ?ws)) = 16" by (simp add: xdr.length_put)
  have "length ?v < 2 ^ 32" using unsigned_less [of "vx_maximum_receive_size s", where ?'a = nat] by (auto simp: vxi_write_amount_def)
  then obtain enc where enc: "xdr_opaque (concat (map (xdr_u32 []) ?ws)) ?v = concat (map (xdr_u32 []) ?ws) @ enc"
    "xdr_read_opaque (2 ^ 32) (enc @ []) = Some (?v, [])"
    using xdr_read_opaque_write [of "concat (map (xdr_u32 []) ?ws)" ?v "2 ^ 32" "[]"] len by auto
  from core_call_logged [where f = fragment_of, OF c delivered_core(2)] assms(2) obtain request rs where
    r: "log_view fragment_of s' = log_view fragment_of s @ fragment_of (request, rs)" "rpc_word 4 request = kDeviceCoreProgram"
      "rpc_word 6 request = kDeviceWrite" "drop 44 request = concat (map (xdr_u32 []) ?ws) @ enc"
    unfolding enc(1) by auto
  have "rpc_word 14 request = rpc_word 3 (drop 44 request)" "drop 60 request = drop 16 (drop 44 request)" by (simp_all add: rpc_word_def)
  then have "rpc_word 14 request = ?ws ! 3" "drop 60 request = enc" unfolding r(4) using len by (simp_all only: rpc_word_nth length_Cons) auto
  with r enc(2) show ?thesis by (simp add: fragment_of_def)
qed

lemma vxi_write_loop_fragments:
  assumes "run_loop (vxi_write_pass (logged_network nw) e data) q = Some r"
    and "unat (vx_maximum_receive_size (snd (snd q))) = m" and "0 < m"
  shows "case r of Inl (st, y, s') \<Rightarrow> True
    | Inr (y, s') \<Rightarrow> log_view fragment_of s' = log_view fragment_of (snd (snd q)) @ fragments m e (drop (fst q) data)"
  using assms
proof (induction rule: run_loop_rule)
  case (leave q r)
  obtain off x s where q: "q = (off, x, s)" by (rule prod_cases3)
  from leave(1) show ?case by (auto simp: q vxi_write_pass_def split: if_splits sum.splits)
next
  case (go q q' r)
  obtain off x s where q: "q = (off, x, s)" by (rule prod_cases3)
  obtain off' y s' where q': "q' = (off', y, s')" by (rule prod_cases3)
  have lt: "off < length data" and step: "vxi_write_step (logged_network nw) e data off x s = Inr (off', y, s')"
    using go(1) by (auto simp: q q' vxi_write_pass_def split: if_splits sum.splits)
  note i = vxi_write_step_Inr [OF step]
  obtain st bs z s1 where c: "vxi_write_request (logged_network nw) e data off x s = (st, bs, z, s1)" by (metis prod_cases4)
  have st: "0 \<le> st" "s1 = s'" using step by (auto simp: vxi_write_step_def vxi_write_reply_def c Let_def split: if_splits option.splits)
  note l = vxi_write_request_logged [OF c st(1), unfolded st(2)]
  have am: "vxi_write_amount data off s = min (length data - off) m" using go(3) by (simp add: vxi_write_amount_def q)
  have m': "unat (vx_maximum_receive_size (snd (snd q'))) = m" using i(2) go(3) by (simp add: q q' vx_same_def)
  have "off + min (length data - off) m = length data \<longleftrightarrow> length (drop off data) \<le> m" using lt by auto
  moreover have "drop m (drop off data) = drop off' data" "take m (drop off data) = take (min (length data - off) m) (drop off data)"
    using i(1) lt by (simp_all add: am min_def add.commute)
  ultimately have "fragments m e (drop off data) =
      (off + vxi_write_amount data off s = length data \<and> e, take (vxi_write_amount data off s) (drop off data)) # fragments m e (drop off' data)"
    using lt go(4) by (subst fragments.simps) (simp add: am)
  with go(2) [OF m' go(4)] l show ?case by (auto simp: q q' split: sum.splits)
qed

section \<open>The limit of fragments\<close>









section \<open>Properties\<close>

text \<open>C33. A VXI-11 read that returns conserves the data, over every network, whatever the other threads do and however the read ends:
  what it hands to the caller, followed by what it leaves in the read-ahead, is the read-ahead it found followed by the bytes of
  the good replies to its \<open>device_read\<close> calls (exchanges that succeeded, with a well-formed reply that reports no device error), in
  order. A read that fails or is cancelled delivers nothing and keeps all of them for the next one.\<close>

theorem vxi_read_conserves_data:
  assumes "vxi_read (logged_network nw) s x count options = Some (st, data, k, y, s')"
  shows "(\<exists>received. data @ vx_read_ahead s' = vx_read_ahead s @ received \<and>
      concat (map delivered (vx_log s')) = concat (map delivered (vx_log s)) @ received) \<and>
    (st < 0 \<longrightarrow> data = [])"
  using vxi_read_keeps_data [OF assms] vxi_read_failed [OF assms] by (simp add: log_view_def)

text \<open>A network whose peers answer the calls in order with given results, after each of which another thread may complete the
  operation; a call beyond them times out.\<close>

definition scripted_network :: "((byte list \<times> vi_status option) list \<times> vi_status option) network" where
  "scripted_network =
     \<lparr>nw_new = (\<lambda>w n d. (0, w)), nw_connect = (\<lambda>w ch host port t. (VI_SUCCESS, ''10.0.0.1'', w)),
      nw_exchange = (\<lambda>(script, race) ch x request fr. case script of
          [] \<Rightarrow> (Some (VI_ERROR_TMO, []), snd (try_complete VI_ERROR_TMO x), [], None)
        | (payload, race') # script' \<Rightarrow>
            (Some (VI_SUCCESS, concat (map (xdr_u32 []) [rpc_word 1 request, 1, 0, 0, 0, 0]) @ payload), x, script', race')),
      nw_drain = (\<lambda>w ch x request fr. (op_result x, [], x, w)), nw_close = (\<lambda>w ch. w), nw_now = (\<lambda>w. 0),
      nw_waits = (\<lambda>w. []), nw_race = snd\<rparr>"

definition vxi_example :: "'w \<Rightarrow> 'w vxi_session" where
  "vxi_example w =
     \<lparr>vx_net = w, vx_host = ''dmm'', vx_address = ''10.0.0.1'', vx_device = ''inst0'', vx_portmapper_port = 111, vx_core_port = 1024,
      vx_abort_port = 1025, vx_link_id = 7, vx_maximum_receive_size = 2, vx_next_xid = 3, vx_abort_requested = False, vx_core = 0,
      vx_abort = 1, vx_observer = True, vx_read_ahead = [], vx_closed = False\<rparr>"

text \<open>The reply of \<open>device_read\<close> with two bytes and END.\<close>

definition end_reply :: "byte list" where
  "end_reply = [0, 0, 0, 0, 0, 0, 0, 4, 0, 0, 0, 2, 104, 105, 0, 0]"

lemma vxi_call_answered:
  assumes "length arguments + 40 \<le> 0x7FFFFFFF"
    and "\<And>request. rpc_word 1 request = vx_next_xid s \<Longrightarrow> \<exists>reply. nw_exchange nw (vx_net s) ch x request Rpc_record =
           (Some (VI_SUCCESS, reply), x, w' request reply) \<and> parse_rpc_reply reply (vx_next_xid s) = Some payload"
  shows "\<exists>request reply. vxi_call nw observe ch x program procedure arguments s =
    (VI_SUCCESS, payload, x, s\<lparr>vx_next_xid := vx_next_xid s + 1, vx_net := w' request reply\<rparr>)"
proof -
  define version where "version = (if program = kPortmapperProgram then kPortmapperVersion else kProgramVersion)"
  define request where "request = make_rpc_call (vx_next_xid s) program version procedure arguments"
  have ne: "request \<noteq> []"
    using rpc_call_framing [of arguments "vx_next_xid s" program version procedure] assms(1)
    by (auto simp: request_def xdr_u32_def split: if_splits)
  from assms(2) [OF rpc_call_words(1) [OF request_def [symmetric] ne]] obtain reply where
    "nw_exchange nw (vx_net s) ch x request Rpc_record = (Some (VI_SUCCESS, reply), x, w' request reply)"
    "parse_rpc_reply reply (vx_next_xid s) = Some payload" by blast
  with ne show ?thesis unfolding vxi_call_def next_xid_def prod.case Let_def version_def [symmetric] request_def [symmetric]
    by (intro exI [of _ request] exI [of _ reply]) (simp add: vxi_exchange_def)
qed

lemma scripted_answer:
  "parse_rpc_reply (concat (map (xdr_u32 []) [xid, 1, 0, 0, 0, 0]) @ payload) xid = Some payload"
  by (subst parse_rpc_reply_iff) (auto simp: xdr_padded_def intro!: exI [of _ 0])

lemma scripted_call:
  assumes "length arguments + 40 \<le> 0x7FFFFFFF" and "vx_net s = ((payload, race') # script, race)"
  shows "vxi_call scripted_network observe ch x program procedure arguments s =
    (VI_SUCCESS, payload, x, s\<lparr>vx_next_xid := vx_next_xid s + 1, vx_net := (script, race')\<rparr>)"
  using vxi_call_answered [OF assms(1), of s scripted_network ch x "\<lambda>_ _. (script, race')" payload observe program procedure]
    scripted_answer assms(2) by (auto simp: scripted_network_def)

lemma scripted_call_timeout:
  assumes "length arguments + 40 \<le> 0x7FFFFFFF" and "vx_net s = ([], race)"
  shows "vxi_call scripted_network observe ch x program procedure arguments s =
    (VI_ERROR_TMO, [], snd (try_complete VI_ERROR_TMO x), s\<lparr>vx_next_xid := vx_next_xid s + 1, vx_net := ([], None)\<rparr>)"
proof -
  have "make_rpc_call xid program version procedure arguments \<noteq> []" for xid version
    using rpc_call_framing [of arguments xid program version procedure] assms(1) by (auto simp: xdr_u32_def split: if_splits)
  with assms(2) show ?thesis by (simp add: vxi_call_def next_xid_def vxi_exchange_def scripted_network_def Let_def)
qed

lemma logged_core_call:
  assumes "length arguments + 40 \<le> 0x7FFFFFFF" and "vx_net s = (((payload, race') # script, race), l)"
  shows "\<exists>l'. core_call (logged_network scripted_network) x procedure arguments s =
    (VI_SUCCESS, payload, x, s\<lparr>vx_next_xid := vx_next_xid s + 1, vx_net := ((script, race'), l')\<rparr>)"
proof -
  have "\<exists>reply. nw_exchange (logged_network scripted_network) (vx_net s) (vx_core s) x request Rpc_record =
      (Some (VI_SUCCESS, reply), x, ((script, race'), l @ [(request, reply)])) \<and> parse_rpc_reply reply (vx_next_xid s) = Some payload"
    if "rpc_word 1 request = vx_next_xid s" for request
    using that scripted_answer [of "vx_next_xid s" payload]
    by (simp add: assms(2) scripted_network_def logged_network_def log_answer_def)
  from vxi_call_answered [OF assms(1), of s _ _ x "\<lambda>request reply. ((script, race'), l @ [(request, reply)])", OF this] show ?thesis
    unfolding core_call_def by blast
qed

lemmas vxi_eval = vxi_example_def vxi_acquire_io_def io_ready_def operation_new_def op_completed_def vxi_read_finish_def
  vxi_restore_data_def read_status_def claimed_def try_complete_def

lemma end_reply_chunk:
  "vxi_read_reply nw \<lparr>ro_termchar_enabled = False, ro_termchar = 10\<rparr> 10 [] end_reply y s =
     Inr ([104, 105], True, False, y, s)" if "vx_read_ahead s = []"
proof -
  have o: "xdr_read_opaque kMaximumRpcPayload [0, 0, 0, 2, 104, 105, 0, 0] = Some ([104, 105], [])"
    by (simp add: xdr_read_opaque_def xdr_read_u32_def xdr_read_u32_at_def xdr_padded_def kMaximumRpcPayload_def)
  show ?thesis using that o
    by (simp add: vxi_read_reply_def end_reply_def xdr_read_u32_def xdr_read_u32_at_def map_device_error_def)
qed

definition plain_read :: read_options where
  "plain_read = \<lparr>ro_termchar_enabled = False, ro_termchar = 10\<rparr>"

text \<open>One read of a session with an empty read-ahead whose device answers with a whole message.\<close>

lemma vxi_read_whole_message:
  assumes "vxi_acquire_io nw x s = (True, x, s)" and "vx_read_ahead s = []" and "vx_read_ahead s1 = []"
    and "vxi_read_request nw plain_read 10 x s = (VI_SUCCESS, end_reply, x, s1)"
  shows "vxi_read nw s x 10 plain_read = Some (vxi_read_finish nw 10 [104, 105] False x s1)"
proof -
  have st: "vxi_read_step nw plain_read 10 [] x s = Inr ([104, 105], True, False, x, s1)"
    using assms(3,4) by (simp add: vxi_read_step_def) (simp add: plain_read_def end_reply_chunk)
  have "vxi_read_pass nw plain_read 10 ([], False, False, x, s) = Inr ([104, 105], True, False, x, s1)"
    using st by (simp add: vxi_read_pass_def)
  then have r: "run_loop (vxi_read_pass nw plain_read 10) ([], False, False, x, s) = Some (Inr ([104, 105], False, x, s1))"
    by (subst run_loop_go) (auto simp: vxi_read_pass_def intro!: run_loop_leave)
  have e: "s\<lparr>vx_read_ahead := []\<rparr> = s" using assms(2) by simp
  show ?thesis by (simp add: vxi_read_def assms(1,2) e r)
qed

lemma logged_vxi_read:
  "\<exists>y s'. vxi_read (logged_network scripted_network) (vxi_example (([(end_reply, None)], None), [])) (operation_new 0 100) 10 plain_read =
     Some (VI_SUCCESS, [104, 105], 2, y, s') \<and> vx_read_ahead s' = []"
proof -
  let ?nw = "logged_network scripted_network" and ?x = "operation_new 0 100 :: op"
  let ?s = "vxi_example (([(end_reply, None)], None), [])"
  have nw: "nw_waits ?nw w = []" "nw_now ?nw w = 0" for w by (simp_all add: logged_network_def scripted_network_def split: prod.split)
  have acq: "vxi_acquire_io ?nw ?x ?s = (True, ?x, ?s)" by (simp add: vxi_eval nw)
  obtain l' where q: "vxi_read_request ?nw plain_read 10 ?x ?s =
      (VI_SUCCESS, end_reply, ?x, ?s\<lparr>vx_next_xid := vx_next_xid ?s + 1, vx_net := (([], None), l')\<rparr>)"
    using logged_core_call [of _ ?s end_reply None "[]" None "[]" ?x kDeviceRead]
    unfolding vxi_read_request_def Let_def by (fastforce simp: vxi_example_def xdr_u32_def)
  note r = vxi_read_whole_message [OF acq _ _ q]
  show ?thesis by (subst r) (simp_all add: vxi_eval logged_network_def scripted_network_def)
qed

theorem vxi_read_conserves_data_witness:
  "\<exists>y s' received. vxi_read (logged_network scripted_network) (vxi_example (([(end_reply, None)], None), [])) (operation_new 0 100) 10 plain_read = Some (VI_SUCCESS, [104, 105], 2, y, s') \<and>
     received = [104, 105] \<and> concat (map delivered (vx_log s')) = received"
proof -
  from logged_vxi_read obtain y s' where r: "vxi_read (logged_network scripted_network)
      (vxi_example (([(end_reply, None)], None), [])) (operation_new 0 100) 10 plain_read = Some (VI_SUCCESS, [104, 105], 2, y, s')" "vx_read_ahead s' = []" by blast
  from vxi_read_conserves_data [OF r(1)] r show ?thesis by (simp add: vxi_example_def)
qed

text \<open>C34. A VXI-11 write that reports bytes, on a session whose maximum fragment is not zero, has sent exactly the fragments of the
  data, in the exchanges that succeeded: consecutive pieces, none longer than the device accepts, whose concatenation is the data,
  with END on the last one only (and only if asked for); it has reported success and the whole length.\<close>

theorem vxi_write_sends_fragments:
  assumes "vxi_write (logged_network nw) s x data send_end = Some (st, k, y, s')" and "vx_maximum_receive_size s \<noteq> 0" and "k \<noteq> 0"
  shows "concat (map fragment_of (vx_log s')) = concat (map fragment_of (vx_log s)) @
      fragments (unat (vx_maximum_receive_size s)) send_end data \<and>
    concat (map snd (fragments (unat (vx_maximum_receive_size s)) send_end data)) = data \<and> st = VI_SUCCESS \<and> k = of_nat (length data)"
  using assms(1)
proof (cases rule: vxi_write_cases)
  case (finished x1 s1 z)
  have s1: "vx_maximum_receive_size s1 = vx_maximum_receive_size s" "vx_log s1 = vx_log s"
    using finished(1) by (auto simp: vxi_acquire_io_def split: prod.splits)
  have "0 < unat (vx_maximum_receive_size s)" using assms(2) by (simp add: unat_gt_0)
  from vxi_write_loop_fragments [OF finished(3) _ this] fragments_concat [OF this] s1 finished(2) assms(3)
  show ?thesis by (simp add: log_view_def)
qed (use assms(3) in auto)

lemma logged_write_reply:
  assumes "vx_net s = ((([0, 0, 0, 0, 0, 0, 0, 1], None) # script, race), l)" and "length data < 1000"
    and "vxi_write_amount data off s = 1"
  shows "\<exists>l'. vxi_write_step (logged_network scripted_network) e data off x s =
    Inr (off + 1, x, s\<lparr>vx_next_xid := vx_next_xid s + 1, vx_net := ((script, None), l')\<rparr>)"
proof -
  let ?nw = "logged_network scripted_network"
  obtain l' where "vxi_write_request ?nw e data off x s =
      (VI_SUCCESS, [0, 0, 0, 0, 0, 0, 0, 1], x, s\<lparr>vx_next_xid := vx_next_xid s + 1, vx_net := ((script, None), l')\<rparr>)"
    using logged_core_call [OF _ assms(1), of _ x kDeviceWrite] assms(2,3)
    unfolding vxi_write_request_def Let_def foldl_xdr by (fastforce simp: xdr_opaque_append xdr.length_put xdr_padded_def)
  then show ?thesis using assms(3)
    by (intro exI [of _ l']) (simp add: vxi_write_step_def vxi_write_reply_def xdr_read_u32_def xdr_read_u32_at_def map_device_error_def)
qed

theorem vxi_write_sends_fragments_witness:
  "\<exists>y s'. vxi_write (logged_network scripted_network) (vxi_example (([([0, 0, 0, 0, 0, 0, 0, 1], None)], None), [])) (operation_new 0 100)
     [42] True = Some (VI_SUCCESS, 1, y, s') \<and> concat (map fragment_of (vx_log s')) = [(True, [42])]"
proof -
  let ?nw = "logged_network scripted_network" and ?x = "operation_new 0 100 :: op"
  define s where "s = vxi_example ((([([0, 0, 0, 0, 0, 0, 0, 1], None)] :: (byte list \<times> vi_status option) list, None :: vi_status option),
    [] :: (byte list \<times> byte list) list))"
  have nw: "nw_waits ?nw w = []" "nw_now ?nw w = 0" for w by (simp_all add: logged_network_def scripted_network_def split: prod.split)
  have acq: "vxi_acquire_io ?nw ?x s = (True, ?x, s)" by (simp add: s_def vxi_eval nw)
  have m: "vx_maximum_receive_size s = 2" "vx_log s = []" by (simp_all add: s_def vxi_example_def)
  obtain l' where st: "vxi_write_step ?nw True [42] 0 ?x s = Inr (0 + 1, ?x, s\<lparr>vx_next_xid := vx_next_xid s + 1, vx_net := (([], None), l')\<rparr>)"
    using logged_write_reply [of s "[]" None "[]" "[42]" 0 True ?x] by (auto simp: s_def vxi_example_def vxi_write_amount_def)
  then have "vxi_write_pass ?nw True [42] (0, ?x, s) = Inr (1, ?x, s\<lparr>vx_next_xid := vx_next_xid s + 1, vx_net := (([], None), l')\<rparr>)"
    by (simp add: vxi_write_pass_def)
  then have r: "run_loop (vxi_write_pass ?nw True [42]) (0, ?x, s) =
      Some (Inr (?x, s\<lparr>vx_next_xid := vx_next_xid s + 1, vx_net := (([], None), l')\<rparr>))"
    by (subst run_loop_go) (auto simp: vxi_write_pass_def intro!: run_loop_leave)
  have race: "nw_race ?nw (([], None), l') = None" by (simp add: logged_network_def scripted_network_def)
  have p: "op_result ?x = kPending" by (simp add: operation_new_def)
  obtain y s' where w: "vxi_write ?nw s ?x [42] True = Some (VI_SUCCESS, 1, y, s')"
    using p by (simp add: vxi_write_def acq r race claimed_def try_complete_def)
  from vxi_write_sends_fragments [OF w] m fragments.simps [of 2 True "[42]"]
  have "concat (map fragment_of (vx_log s')) = [(True, [42])]" by simp
  with w show ?thesis unfolding s_def by blast
qed






text \<open>A cancelled VXI-11 read forgets that the message has ended: the device sends its whole message with END, another thread cancels
  the read before it claims the operation, and the bytes go back to the read-ahead without the END. The next read asks the device for
  more of a message that is complete, times out, and delivers nothing.\<close>

theorem cancelled_vxi_read_loses_end:
  "\<exists>y1 s1 y2 s2.
     vxi_read scripted_network (vxi_example ([(end_reply, Some VI_ERROR_ABORT)], None)) (operation_new 0 100) 10 plain_read =
       Some (VI_ERROR_ABORT, [], 0, y1, s1) \<and>
     vx_read_ahead s1 = [104, 105] \<and>
     vxi_read scripted_network s1 (operation_new 0 100) 10 plain_read = Some (VI_ERROR_TMO, [], 0, y2, s2)"
proof -
  let ?nw = scripted_network and ?x = "operation_new 0 100 :: op"
  define s where "s = vxi_example ([(end_reply, Some VI_ERROR_ABORT)], None :: vi_status option)"
  define s0 where "s0 = s\<lparr>vx_next_xid := vx_next_xid s + 1, vx_net := ([], Some VI_ERROR_ABORT)\<rparr>"
  have nw: "nw_waits ?nw w = []" "nw_now ?nw w = 0" "nw_race ?nw = snd" for w by (simp_all add: scripted_network_def)
  have ready: "vxi_acquire_io ?nw ?x t = (True, ?x, t)" if "\<not> vx_abort_requested t" for t
    using that by (simp add: vxi_acquire_io_def nw io_ready_def op_completed_def operation_new_def)
  have s: "vx_read_ahead s = []" "vx_read_ahead s0 = []" "\<not> vx_abort_requested s" "\<not> vx_abort_requested s0"
    by (simp_all add: s_def s0_def vxi_example_def)
  have q: "vxi_read_request ?nw plain_read 10 ?x s = (VI_SUCCESS, end_reply, ?x, s0)"
    unfolding vxi_read_request_def Let_def core_call_def foldl_xdr
    by (subst scripted_call) (simp_all add: s0_def s_def vxi_example_def xdr.length_put)
  define s1 where "s1 = s0\<lparr>vx_read_ahead := [104, 105]\<rparr>"
  obtain y1 where r1: "vxi_read ?nw s ?x 10 plain_read = Some (VI_ERROR_ABORT, [], 0, y1, s1)"
    using vxi_read_whole_message [OF ready [OF s(3)] s(1,2) q]
    by (simp add: vxi_read_finish_def vxi_restore_data_def s nw s0_def s1_def claimed_def try_complete_def operation_new_def)
  have t: "take_ahead plain_read (unat (10 :: u32)) [] (vx_read_ahead s1) = ([104, 105], False, [])" by (simp add: s1_def plain_read_def)
  have a: "s1\<lparr>vx_read_ahead := []\<rparr> = s0" using s(2) by (simp add: s1_def)
  have "vxi_read_request ?nw plain_read 8 ?x s0 = (VI_ERROR_TMO, [], snd (try_complete VI_ERROR_TMO ?x),
      s0\<lparr>vx_next_xid := vx_next_xid s0 + 1, vx_net := ([], None)\<rparr>)"
    unfolding vxi_read_request_def Let_def core_call_def foldl_xdr
    by (subst scripted_call_timeout) (simp_all add: s0_def xdr.length_put)
  then have "\<exists>y s2. vxi_read_pass ?nw plain_read 10 ([104, 105], False, False, ?x, s0) = Inl (Inl (VI_ERROR_TMO, y, s2))"
    by (simp add: vxi_read_pass_def vxi_read_step_def)
  then obtain y2 s2 where "vxi_read_pass ?nw plain_read 10 ([104, 105], False, False, ?x, s0) = Inl (Inl (VI_ERROR_TMO, y2, s2))"
    by blast
  note l = run_loop_leave [of "vxi_read_pass ?nw plain_read 10", OF this]
  have "vxi_acquire_io ?nw ?x s1 = (True, ?x, s1)" by (rule ready) (use s(4) in \<open>simp add: s1_def\<close>)
  moreover have "\<not> ro_termchar_enabled plain_read" by (simp add: plain_read_def)
  ultimately have "vxi_read ?nw s1 ?x 10 plain_read = Some (VI_ERROR_TMO, [], 0, y2, s2)"
    unfolding vxi_read_def using t a l by simp
  with r1 show ?thesis by (auto simp: s_def s1_def)
qed

end
