(* ===== verification/Channel_Network.thy ===== *)
theory Channel_Network
  imports Vxi11_Laws
begin

text \<open>
  The network of the sessions made of the request channels of \<open>Request_Channel\<close>: an exchange enqueues a request and lasts until a
  handler answers it, while the environment (asio, the peers, other threads) is a list of events. The request channel keeps the law
  that the sessions rely on, so that their theorems hold over it.
\<close>

section \<open>Operations only advance\<close>

definition ops_later :: "channel \<Rightarrow> channel \<Rightarrow> bool" where
  "ops_later c c' \<longleftrightarrow> length (ch_requests c) \<le> length (ch_requests c') \<and>
     (\<forall>r < length (ch_requests c). op_advances (rq_operation (req r c)) (rq_operation (req r c')))"

lemma ops_later_refl [simp]: "ops_later c c"
  by (simp add: ops_later_def)

lemma ops_later_trans: "ops_later c1 c2 \<Longrightarrow> ops_later c2 c3 \<Longrightarrow> ops_later c1 c3"
  unfolding ops_later_def by (auto intro: op_advances_trans)

lemma ops_later_same: "ch_requests c' = ch_requests c1 \<Longrightarrow> ops_later c c' = ops_later c c1"
  by (simp add: ops_later_def)

lemma ops_later_emit [simp]: "ops_later c (emit a c') = ops_later c c'" "ops_later c (c'\<lparr>ch_queue := q\<rparr>) = ops_later c c'"
  by (simp_all add: ops_later_def)

lemma ops_later_upd: "op_advances (rq_operation (req r c)) (rq_operation (f (req r c))) \<Longrightarrow> ops_later c (upd r f c)"
  unfolding ops_later_def upd_sel by (metis length_list_update le_refl nth_list_update_eq nth_list_update_neq op_advances_refl)

lemma ops_later_finish: "ops_later c (finish_request r st (rq_operation (req r c)) c)"
proof -
  let ?x = "rq_operation (req r c)"
  obtain status y where sy: "(if op_completed ?x then (op_result ?x, ?x)
      else if st < VI_SUCCESS then (case try_complete st ?x of (won, z) \<Rightarrow> (if won then st else op_result z, z)) else (st, ?x)) = (status, y)"
    by (rule prod.exhaust)
  have "op_advances ?x y" using sy op_advances_try_complete [of ?x st] by (cases "try_complete st ?x") (auto split: if_splits)
  then show ?thesis unfolding finish_request_def sy prod.case Let_def by (simp add: ops_later_upd)
qed

lemma ops_later_activate: "ops_later c (arm_timer r x (upd r (\<lambda>q. q\<lparr>rq_active := True\<rparr>) c))"
  using ops_later_upd [where r = r and c = c and f = "\<lambda>q. q\<lparr>rq_active := True\<rparr>"] by (simp add: arm_timer_def split: option.split)

lemma deref_Some: "deref r c = Some x \<longleftrightarrow> rq_attached (req r c) \<and> x = rq_operation (req r c)"
  by (auto simp: deref_def)

lemma ops_later_run: "channel_run k c = Some c' \<Longrightarrow> ops_later c c'"
proof (rule channel_run.raw_induct [of "\<lambda>k c c'. ops_later c c'"])
  fix run k c c'
  assume IH: "\<And>k c c'. run k c = Some c' \<Longrightarrow> ops_later c c'"
    and r: "(case k of
        Start_next \<Rightarrow>
          (case ch_queue c of
             [] \<Rightarrow> Some c
           | r # rest \<Rightarrow>
               if rq_done (req r c) then run Start_next (c\<lparr>ch_queue := rest\<rparr>)
               else do {
                 x \<leftarrow> deref r c;
                 if op_completed x then do {
                   c1 \<leftarrow> run (Finish r (op_result x)) (c\<lparr>ch_queue := rest\<rparr>);
                   run Start_next c1
                 }
                 else
                   let c1 = arm_timer r x (upd r (\<lambda>q. q\<lparr>rq_active := True\<rparr>) c) in
                   if rq_request (req r c) = [] then run (Begin_response r) c1
                   else Some (emit (chan_io.Io_write r (rq_request (req r c))) c1)
               })
      | Finish r proposed \<Rightarrow>
          if rq_done (req r c) then Some c
          else do {
            x \<leftarrow> deref r c;
            let c1 = finish_request r proposed x c;
            if ch_closed c1 then Some c1 else run Start_next c1
          }
      | Begin_response r \<Rightarrow>
          if rq_done (req r c) \<or> \<not> rq_attached (req r c) then Some c
          else do {
            x \<leftarrow> deref r c;
            if op_completed x then run (Finish r (op_result x)) c
            else (case rq_framing (req r c) of
                Framing_none \<Rightarrow> run (Finish r VI_SUCCESS) c
              | Rpc_record \<Rightarrow> Some (read_rpc_marker r c)
              | Hislip_frame \<Rightarrow> Some (read_hislip_header r c))
          }) = Some c'"
  have q: "ops_later (c\<lparr>ch_queue := rest\<rparr>) c2 = ops_later c c2" for rest c2 by (simp add: ops_later_def)
  show "ops_later c c'"
  proof (cases k)
    case Start_next
    show ?thesis
    proof (cases "ch_queue c")
      case (Cons h rest)
      show ?thesis
      proof (cases "rq_done (req h c)")
        case True
        with r IH [of Start_next "c\<lparr>ch_queue := rest\<rparr>" c'] show ?thesis by (simp add: Start_next Cons q)
      next
        case False
        then obtain x where x: "deref h c = Some x" using r by (cases "deref h c") (simp_all add: Start_next Cons)
        show ?thesis
        proof (cases "op_completed x")
          case True
          then obtain c1 where "run (Finish h (op_result x)) (c\<lparr>ch_queue := rest\<rparr>) = Some c1" "run Start_next c1 = Some c'"
            using r False x by (auto simp: Start_next Cons bind_eq_Some_conv)
          with IH [of "Finish h (op_result x)" "c\<lparr>ch_queue := rest\<rparr>" c1] IH [of Start_next c1 c'] show ?thesis
            by (auto simp: q intro: ops_later_trans)
        next
          case False': False
          let ?c1 = "arm_timer h x (upd h (\<lambda>q. q\<lparr>rq_active := True\<rparr>) c)"
          from r False False' x have "run (Begin_response h) ?c1 = Some c' \<or> c' = emit (chan_io.Io_write h (rq_request (req h c))) ?c1"
            by (auto simp: Start_next Cons Let_def split: if_splits)
          with IH [of "Begin_response h" ?c1 c'] ops_later_activate [of c h x] show ?thesis by (auto intro: ops_later_trans)
        qed
      qed
    qed (use r in \<open>simp add: Start_next\<close>)
  next
    case (Finish h proposed)
    show ?thesis
    proof (cases "rq_done (req h c)")
      case False
      then obtain x where x: "deref h c = Some x" using r by (cases "deref h c") (simp_all add: Finish)
      let ?c1 = "finish_request h proposed x c"
      from r False x have "c' = ?c1 \<or> run Start_next ?c1 = Some c'" by (auto simp: Finish Let_def split: if_splits)
      with x ops_later_finish [of c h proposed] IH [of Start_next ?c1 c'] show ?thesis by (auto simp: deref_Some intro: ops_later_trans)
    qed (use r in \<open>simp add: Finish\<close>)
  next
    case (Begin_response h)
    with r IH [of "Finish h VI_SUCCESS" c c'] IH [of "Finish h _" c c'] show ?thesis
      by (auto simp: deref_def read_rpc_marker_def read_hislip_header_def split: if_splits response_framing.splits)
  qed
qed

lemma ops_later_finish_error: "finish_error r e c = Some c' \<Longrightarrow> ops_later c c'"
  by (auto simp: finish_error_def bind_eq_Some_conv split: if_splits intro: ops_later_run)

lemma ops_later_data: "ops_later (upd r f c) c' \<Longrightarrow> (\<And>q. rq_operation (f q) = rq_operation q) \<Longrightarrow> ops_later c c'"
  using ops_later_trans [OF ops_later_upd [where r = r and c = c and f = f]] by simp

lemma ops_later_kept [simp]: "(\<And>q. rq_operation (f q) = rq_operation q) \<Longrightarrow> ops_later c (upd r f c)"
  by (simp add: ops_later_upd)

lemma ops_later_reads:
  "read_rpc_fragment r final c = Some c' \<Longrightarrow> ops_later c c'" "read_hislip_payload r c = Some c' \<Longrightarrow> ops_later c c'"
  by (auto simp: read_rpc_fragment_def read_hislip_payload_def read_rpc_marker_def split: if_splits intro: ops_later_run)

lemma ops_later_received:
  "marker_read r res c = Some c' \<Longrightarrow> ops_later c c'" "fragment_read r final res c = Some c' \<Longrightarrow> ops_later c c'"
  "header_read r res c = Some c' \<Longrightarrow> ops_later c c'" "payload_read r res c = Some c' \<Longrightarrow> ops_later c c'"
  by (auto simp: marker_read_def fragment_read_def header_read_def payload_read_def Let_def read_rpc_marker_def
      split: sum.splits if_splits
      intro: ops_later_finish_error ops_later_run ops_later_data [OF ops_later_reads(1)] ops_later_data [OF ops_later_reads(2)]
        ops_later_data [OF ops_later_run])

lemma ops_later_close:
  assumes "chan_close c = Some c'"
  shows "ops_later c c'"
proof -
  have p: "close_pending rs c1 = Some c2 \<Longrightarrow> ops_later c1 c2" for rs c1 c2
    by (induction rs arbitrary: c1) (auto simp: bind_eq_Some_conv dest!: ops_later_run intro: ops_later_trans)
  have "ops_later (emit Io_socket_close (c\<lparr>ch_closed := True, ch_open := False\<rparr>)) c2 = ops_later c c2" for c2 by (simp add: ops_later_def)
  with assms p show ?thesis by (auto simp: chan_close_def split: if_splits)
qed

lemma ops_later_exec: "chan_exec e c = Some c' \<Longrightarrow> ops_later c c'"
proof (cases e)
  case (Exchange x bytes framing)
  then show "chan_exec e c = Some c' \<Longrightarrow> ?thesis" by (auto simp: chan_exec_def exchange_begin_def ops_later_def nth_append)
next
  case (Enqueue r)
  let ?f = "\<lambda>q. q\<lparr>rq_enqueued := True\<rparr>"
  have q: "ops_later ((upd r ?f c)\<lparr>ch_queue := qs\<rparr>) c2 \<Longrightarrow> ops_later c c2" for qs c2
    using ops_later_data [where r = r and f = ?f and c = c and c' = c2] by (simp add: ops_later_def)
  show "chan_exec e c = Some c' \<Longrightarrow> ?thesis" unfolding Enqueue
    by (auto simp: chan_exec_def enqueue_def bind_eq_Some_conv Let_def split: if_splits intro: ops_later_run q [OF ops_later_run] q [OF ops_later_refl] simp del: upd_sel)
next
  case (Cancel r)
  then show "chan_exec e c = Some c' \<Longrightarrow> ?thesis"
    by (auto simp: chan_exec_def chan_cancel_def bind_eq_Some_conv Let_def split: if_splits intro: ops_later_run)
next
  case (Timer r)
  have "op_advances x (snd (snd (request_timeout x)))" for x :: op by (simp add: op_advances_timeout)
  with Timer show "chan_exec e c = Some c' \<Longrightarrow> ?thesis"
    by (auto simp: chan_exec_def timer_fired_def split: if_splits intro!: ops_later_upd)
next
  case (Complete r st)
  then show "chan_exec e c = Some c' \<Longrightarrow> ?thesis"
    by (auto simp: chan_exec_def complete_operation_def split: if_splits intro!: ops_later_upd)
qed (auto simp: chan_exec_def write_done_def drain_timer_fired_def connect_done_def connect_finish_def connect_timer_fired_def set_cancel_observer_def
    ops_later_def [of c "channel.ch_open_update _ _"] ops_later_def [of c "channel.ch_observer_update _ _"]
    split: option.splits if_splits sum.splits intro: ops_later_finish_error ops_later_run ops_later_received ops_later_close)

section \<open>Request channels as a network\<close>

text \<open>\<open>cw_events\<close> is what asio, the peers and other threads do next, \<open>cw_peers\<close> how the next connects end.\<close>

record chan_world =
  cw_channels :: "channel list"
  cw_events :: "chan_event list"
  cw_peers :: "(asio_error + string) list"
  cw_now :: nat
  cw_waits :: "(vi_status option \<times> nat) list"
  cw_race :: "vi_status option"

definition chan_do :: "chan_event \<Rightarrow> channel \<Rightarrow> channel" where
  "chan_do e c = (case chan_exec e c of None \<Rightarrow> c | Some c' \<Rightarrow> c')"

text \<open>The caller waits for its promise. The result says whether the wait is interrupted by the cancel observer. When nothing
  more happens, the connection breaks.\<close>

fun exchange_wait :: "nat \<Rightarrow> chan_event list \<Rightarrow> channel \<Rightarrow> bool \<times> channel \<times> chan_event list" where
  "exchange_wait r [] c = (False, if rq_done (req r c) then c else chan_do Close c, [])"
| "exchange_wait r (e # es) c =
     (if rq_done (req r c) then (False, c, e # es)
      else if event_ok e c then
        if e = Cancel r \<and> rq_active (req r c) \<and> ch_drain c then (True, chan_do e c, es) else exchange_wait r es (chan_do e c)
      else exchange_wait r es c)"

definition exchange_value :: "nat \<Rightarrow> channel \<Rightarrow> vi_status \<times> byte list" where
  "exchange_value r c = (case rq_completion (req r c) of [] \<Rightarrow> (VI_ERROR_SYSTEM_ERROR, []) | v # _ \<Rightarrow> v)"

definition cn_exchange ::
  "chan_world \<Rightarrow> nat \<Rightarrow> op \<Rightarrow> byte list \<Rightarrow> response_framing \<Rightarrow> (vi_status \<times> byte list) option \<times> op \<times> chan_world" where
  "cn_exchange w ch x bytes framing =
     (let c = cw_channels w ! ch; r = length (ch_requests c);
          (cancelled, c', es) = exchange_wait r (cw_events w) (chan_do (Enqueue r) (exchange_begin x bytes framing c)) in
      (if cancelled then None else Some (exchange_value r c'), rq_operation (req r c'),
       w\<lparr>cw_channels := (cw_channels w)[ch := c'], cw_events := es\<rparr>))"

text \<open>The last request of the channel goes on; the operation is the caller's.\<close>

definition cn_drain ::
  "chan_world \<Rightarrow> nat \<Rightarrow> op \<Rightarrow> byte list \<Rightarrow> response_framing \<Rightarrow> vi_status \<times> byte list \<times> op \<times> chan_world" where
  "cn_drain w ch x bytes framing =
     (let c = cw_channels w ! ch in
      if ch_requests c = [] then (VI_ERROR_SYSTEM_ERROR, [], x, w)
      else
        let r = length (ch_requests c) - 1;
            (cancelled, c', es) = exchange_wait r (filter (\<lambda>e. e \<noteq> Cancel r) (cw_events w)) (upd r (\<lambda>q. q\<lparr>rq_operation := x\<rparr>) c);
            (status, response) = exchange_value r c' in
        (status, response, rq_operation (req r c'), w\<lparr>cw_channels := (cw_channels w)[ch := c'], cw_events := es\<rparr>))"

definition cn_connect :: "chan_world \<Rightarrow> nat \<Rightarrow> string \<Rightarrow> u16 \<Rightarrow> u32 \<Rightarrow> vi_status \<times> string \<times> chan_world" where
  "cn_connect w ch host port timeout =
     (let n = \<lparr>cn_done = False, cn_completion = []\<rparr>; c = cw_channels w ! ch;
          (n', c') = (case cw_peers w of [] \<Rightarrow> connect_timer_fired n c | res # _ \<Rightarrow> connect_done res n c);
          (status, address) = hd (cn_completion n') in
      (status, address, w\<lparr>cw_channels := (cw_channels w)[ch := c'], cw_peers := tl (cw_peers w)\<rparr>))"

definition channel_net :: "chan_world network" where
  "channel_net =
     \<lparr>nw_new = (\<lambda>w n d. (length (cw_channels w), w\<lparr>cw_channels := cw_channels w @ [channel_new n d]\<rparr>)),
      nw_connect = cn_connect, nw_exchange = cn_exchange, nw_drain = cn_drain,
      nw_close = (\<lambda>w ch. w\<lparr>cw_channels := (cw_channels w)[ch := chan_do Close (cw_channels w ! ch)]\<rparr>),
      nw_now = cw_now, nw_waits = cw_waits, nw_race = cw_race\<rparr>"

lemma ops_later_do: "ops_later c (chan_do e c)"
  by (simp add: chan_do_def ops_later_exec split: option.split)

lemma ops_later_wait: "exchange_wait r es c = (cancelled, c', es') \<Longrightarrow> ops_later c c'"
  by (induction r es c rule: exchange_wait.induct) (auto split: if_splits intro: ops_later_trans ops_later_do)

interpretation channels: channel_network channel_net
proof
  fix w ch x bs fr res y w'
  assume e: "nw_exchange channel_net w ch x bs fr = (res, y, w')"
  let ?c = "cw_channels w ! ch"
  let ?r = "length (ch_requests ?c)" and ?c1 = "exchange_begin x bs fr ?c"
  obtain b c' es where w: "exchange_wait ?r (cw_events w) (chan_do (Enqueue ?r) ?c1) = (b, c', es)" by (rule prod_cases3)
  from e have y: "y = rq_operation (req ?r c')" by (simp add: channel_net_def cn_exchange_def w Let_def)
  have "ops_later ?c1 c'" by (rule ops_later_trans [OF ops_later_do ops_later_wait [OF w]])
  moreover have "?r < length (ch_requests ?c1)" "rq_operation (req ?r ?c1) = x" by (simp_all add: exchange_begin_def)
  ultimately show "op_advances x y" unfolding y ops_later_def by metis
next
  fix w ch x bs fr st rs y w'
  assume d: "nw_drain channel_net w ch x bs fr = (st, rs, y, w')"
  let ?c = "cw_channels w ! ch"
  let ?r = "length (ch_requests ?c) - 1" and ?c1 = "upd (length (ch_requests ?c) - 1) (\<lambda>q. q\<lparr>rq_operation := x\<rparr>) ?c"
  show "op_advances x y"
  proof (cases "ch_requests ?c = []")
    case False
    obtain b c' es where w: "exchange_wait ?r (filter (\<lambda>e. e \<noteq> Cancel ?r) (cw_events w)) ?c1 = (b, c', es)" by (rule prod_cases3)
    from d False have y: "y = rq_operation (req ?r c')" using w by (auto simp: channel_net_def cn_drain_def Let_def split: prod.splits)
    from False have r: "?r < length (ch_requests ?c1)" "rq_operation (req ?r ?c1) = x" by simp_all
    from ops_later_wait [OF w] r show ?thesis unfolding y ops_later_def by metis
  qed (use d in \<open>simp add: channel_net_def cn_drain_def\<close>)
qed

section \<open>Properties\<close>

text \<open>C36. The VXI-11 session keeps the contract of backends that sessions rely on, over every network whose exchanges do not undo
  the completion of an operation: none of its calls undoes a completion or moves a deadline, a read delivers no more bytes than
  were asked for and reports their number. The network of request channels is such a network.\<close>

theorem vxi_session_obeys_backend_contract:
  assumes "channel_network nw"
  shows "backend (vxi_backend nw)"
  by (rule channel_network.vxi_is_backend [OF assms])

theorem vxi_session_obeys_backend_contract_witness: "backend (vxi_backend channel_net)"
  by (rule vxi_session_obeys_backend_contract [OF channels.channel_network_axioms])

end
