(* ===== verification/Spec2Isabelle.thy ===== *)
theory Spec2Isabelle
  imports Handle_Table Operation Lock_Manager Resource_Parser Find_Expression Usbtmc_Protocol
    Framed_Protocols Backend Resource_Manager Session Visa_Api Visa_World Visa_Calls
    Gpib_Session Usb_Raw_Session Usbtmc_Session Usbtmc_Laws Request_Channel
    Channel_Session Vxi11_Session Vxi11_Laws Channel_Network
begin

text \<open>
  Verification of webreal\_visa, a C++ implementation of the VISA instrument I/O interface. File names below are relative to
  the source directory of the library.

  \<^bold>\<open>The program.\<close> A client calls the C functions of \<open>api/visa_api.cpp\<close>. Resource managers, find lists and sessions
  (\<open>core/objects.cpp\<close>) are named by 32-bit handles of a handle table (\<open>core/handle_table.cpp\<close>). A session runs each call as an
  operation (\<open>runtime/operation.cpp\<close>) that is completed exactly once, by its result, a timeout or a cancellation, on a device
  backend behind one interface (\<open>core/backend_session.h\<close>); locks on resources come from a lock manager
  (\<open>core/lock_manager.cpp\<close>). \<open>viOpen\<close> parses the resource name (\<open>resource/resource_parser.cpp\<close>) and chooses the backend;
  \<open>viFindRsrc\<close> compiles and matches find expressions (\<open>resource/find_expression.cpp\<close>). The backends are a mock device, GPIB
  and USB sessions over transports of a provider, and VXI-11 and HiSLIP sessions over request channels
  (\<open>backends/asio/request_channel.cpp\<close>).

  \<^bold>\<open>The theories\<close>, each with the group of definitions it holds, named after the functions they model:

  \<^item> \<open>Visa_Prelude\<close>, \<open>Visa_Types\<close>: shared lemmas, codec and transition locales, the constants and types of \<open>visa.h\<close>.
  \<^item> \<open>Handle_Table\<close>: slots with generations; \<open>insert\<close> refines an update of a partial map at a fresh handle, and a closed
    handle is never issued again.
  \<^item> \<open>Operation\<close>: the methods of \<open>Operation\<close>, and the step relation of their atomic sections with the attempts and handler
    runs as history; lemmas show that the methods are sequences of these steps. Exactly-once completion and handlers.
  \<^item> \<open>Lock_Manager\<close>: \<open>acquire\<close> (its wait is a recursion over a list of events), \<open>release\<close>, \<open>release_all\<close>; mutual exclusion,
    notification, keys. The locale \<open>lock_service\<close> is what sessions rely on.
  \<^item> \<open>Resource_Parser\<close>, \<open>Find_Expression\<close>: the parsers and the matcher; the canonical name reads back, ranges of descriptors, the
    matcher accepts the language of the pattern, its loops end, the limits of the parser hold.
  \<^item> \<open>Usbtmc_Protocol\<close>, \<open>Framed_Protocols\<close>: the USBTMC, VXI-11 (XDR and RPC) and HiSLIP codecs; exactness of decoders.
  \<^item> \<open>Backend\<close>: the virtual functions as a record of functions, their defaults, and the mock device. The locale \<open>backend\<close> is the
    contract of a backend: no call undoes a completion, a read stays within the count.
  \<^item> \<open>Resource_Manager\<close>, \<open>Session\<close>: the objects. Sessions are over any backend; interference by other threads during a blocking call
    is an argument, and a step relation interleaves the threads of one session (lemmas show that the methods are sequences of its
    steps).
  \<^item> \<open>Visa_Api\<close>, \<open>Visa_World\<close>, \<open>Visa_Calls\<close>: the exported functions over one library state, the invariant of that state, and the
    properties of all reachable states.
  \<^item> \<open>Device_Session\<close>, \<open>Gpib_Session\<close>, \<open>Usb_Raw_Session\<close>, \<open>Usbtmc_Session\<close>, \<open>Usbtmc_Laws\<close>: the sessions over a transport, which is a
    record of functions with the laws of its interface as hypotheses; conservation of data, return of the polling loops, the
    contract of backends.
  \<^item> \<open>Request_Channel\<close>: the handlers that run on the strand of a channel; every request is answered once, in every order of the
    handlers that asio allows.
  \<^item> \<open>Channel_Session\<close>, \<open>Vxi11_Session\<close>, \<open>Vxi11_Laws\<close>, \<open>Channel_Network\<close>: the VXI-11 session over a network of channels, which is a
    record of functions with one law (an exchange does not undo a completion, locale \<open>channel_network\<close>); its laws; and the
    network made of the modelled request channels, which interprets that locale.

  \<^bold>\<open>Concurrency.\<close> Code under one mutex or on one strand is one step. Where threads interleave, a step relation has one
  rule per atomic section (\<open>op_step\<close>, \<open>session_step\<close>, \<open>chan_step\<close>, \<open>api_step\<close>), and properties hold for every sequence of
  steps. A call that blocks takes the list of events that happen meanwhile. A completion by another thread between the
  end of a transfer and the claim of the operation is a parameter (\<open>race\<close>). The API functions are atomic with respect to each
  other except for these; in particular \<open>viClose\<close> meets no operation of another thread (\<open>Session\<close> treats that case for one session).

  \<^bold>\<open>Loops.\<close> Loops over data are structural or have a measure. The find expression parser has fuel \<open>4 * length + 4\<close>, which
  bounds the depth of its recursion, since at most four nested calls consume a character; that it never runs out is proved. Loops that depend
  on a device, and the mutually recursive handlers of the channel, are partial functions in the option monad, where \<open>None\<close>
  is not returning, and their return is proved under the stated conditions (a clock that moves, a reachable state).

  \<^bold>\<open>Parameters.\<close> Code that is not in the repository or not modelled appears as arguments: transports, the network, and the record
  \<open>platform\<close> of \<open>Visa_Api\<close> (discovery, providers and the creators of device backends).

  \<^bold>\<open>Defects.\<close> Seven theorems evaluate the model on a concrete run that shows a defect: \<open>grant_does_not_wake_own_waiter\<close>,
  \<open>failed_lock_releases_other_thread\<close>, \<open>trailing_colon_breaks_canonical_name\<close>, \<open>usb_raw_read_reorders_read_ahead\<close>,
  \<open>cancelled_read_loses_end\<close>, \<open>cancelled_vxi_read_loses_end\<close>, \<open>cancelled_waiting_request_restarts_active_one\<close>.

  \<^bold>\<open>Not modelled.\<close> The HiSLIP session (its codec and channel are); the serial and TCP sessions and the asynchronous streams
  (callbacks of asio); the Prologix and libusb providers and the registries of providers (third-party code, shared connections
  and threads); the I/O runtime and the discovery of devices (threads and operating system directories). Memory exhaustion is
  modelled only where the code turns it into a status itself.
\<close>

end
